(* ===== verification/Prelude.thy ===== *)
theory Prelude
  imports
    "HOL-Library.Word"
    "HOL-Library.Char_ord"
    "HOL-Library.List_Lexorder"
    "HOL-Library.Product_Lexorder"
    "HOL-Library.Sublist"
    "HOL-Library.Multiset"
    "HOL-Library.Monad_Syntax"
begin

text \<open>
  What every component shares: the fact collections of the development, a few facts about
  lists and the option monad that the standard library does not state in the form needed here,
  and two generic contracts.

  Throughout the development a function that can leave the behaviour the C++ standard defines
  (an index past the end of a vector, a null stream handed to the C library, a signed overflow)
  or that ends the process (\<open>exit(-1)\<close>) has an option type, and \<open>None\<close> is that outcome.
\<close>

named_theorems disk_simps
  \<open>reading a file after one disk operation\<close>

named_theorems frame_simps
  \<open>the state an operation leaves alone\<close>

named_theorems path_simps
  \<open>the names of the tracker's files, their directory and their distinctness\<close>


section \<open>Lists and options\<close>

lemma takeWhile_all [simp]: "(\<And>x. x \<in> set xs \<Longrightarrow> P x) \<Longrightarrow> takeWhile P xs = xs"
  by (simp add: takeWhile_eq_all_conv)

lemma dropWhile_all [simp]: "(\<And>x. x \<in> set xs \<Longrightarrow> P x) \<Longrightarrow> dropWhile P xs = []"
  by simp

lemma while_sep:
  "d \<notin> set x \<Longrightarrow> takeWhile (\<lambda>c. c \<noteq> d) (x @ d # y) = x"
  "d \<notin> set x \<Longrightarrow> dropWhile (\<lambda>c. c \<noteq> d) (x @ d # y) = d # y"
  by (induction x) auto

lemma find_SomeD: "find P xs = Some x \<Longrightarrow> x \<in> set xs \<and> P x"
  by (induction xs) (auto split: if_splits)

lemma find_hit: "(\<exists>y. find P xs = Some y) \<longleftrightarrow> (\<exists>x\<in>set xs. P x)"
  using find_None_iff [of P xs] by auto

lemma bind_Some_conv:
  "Option.bind m f = Some y \<longleftrightarrow> (\<exists>x. m = Some x \<and> f x = Some y)"
  by (cases m) auto


section \<open>Machines that may fail, and simulations between them\<close>

text \<open>
  A run feeds a list of inputs to a step function and stops at the first undefined step.
\<close>

fun run_steps :: "('e \<Rightarrow> 's \<Rightarrow> 's option) \<Rightarrow> 'e list \<Rightarrow> 's \<Rightarrow> 's option" where
  "run_steps step [] s = Some s"
| "run_steps step (e # es) s = Option.bind (step e s) (run_steps step es)"

lemma run_steps_append:
  "run_steps step (es @ fs) s = Option.bind (run_steps step es s) (run_steps step fs)"
  by (induction es arbitrary: s) (auto split: bind_splits)

text \<open>
  The contract of a component whose steps keep an invariant on acceptable inputs. \<open>machine\<close> is
  the weak form (a step that returns keeps the invariant), \<open>safe_machine\<close> adds that no
  acceptable input makes the step undefined.
\<close>

locale machine =
  fixes step :: "'e \<Rightarrow> 's \<Rightarrow> 's option"
    and acceptable :: "'e \<Rightarrow> bool"
    and inv :: "'s \<Rightarrow> bool"
  assumes step_inv: "acceptable e \<Longrightarrow> inv s \<Longrightarrow> step e s = Some s' \<Longrightarrow> inv s'"
begin

lemma run_inv:
  "\<forall>e\<in>set es. acceptable e \<Longrightarrow> inv s \<Longrightarrow> run_steps step es s = Some s' \<Longrightarrow> inv s'"
proof (induction es arbitrary: s)
  case Nil
  then show ?case by simp
next
  case (Cons e es)
  from Cons.prems(3) obtain u where u: "step e s = Some u" "run_steps step es u = Some s'"
    by (auto simp: bind_Some_conv)
  have "inv u" using step_inv [of e s u] Cons.prems u by simp
  then show ?case using Cons.IH [of u] Cons.prems u by simp
qed

end

locale safe_machine = machine +
  assumes step_defined: "acceptable e \<Longrightarrow> inv s \<Longrightarrow> step e s \<noteq> None"
begin

lemma run_safe:
  "\<forall>e\<in>set es. acceptable e \<Longrightarrow> inv s \<Longrightarrow> \<exists>s'. run_steps step es s = Some s' \<and> inv s'"
proof (induction es arbitrary: s)
  case Nil
  then show ?case by simp
next
  case (Cons e es)
  obtain u where u: "step e s = Some u"
    using step_defined [of e s] Cons.prems by auto
  moreover have "inv u" using step_inv [of e s u] Cons.prems u by simp
  ultimately show ?case using Cons.IH [of u] Cons.prems by simp
qed

end

text \<open>
  A functional refinement: under the invariant, each concrete step is one step of an abstract
  machine, so each run is a run of the abstract machine.
\<close>

locale simulation = machine step acceptable inv
  for step :: "'e \<Rightarrow> 's \<Rightarrow> 's option" and acceptable :: "'e \<Rightarrow> bool" and inv :: "'s \<Rightarrow> bool" +
  fixes abs :: "'s \<Rightarrow> 'a"
    and astep :: "'e \<Rightarrow> 'a \<Rightarrow> 'a"
  assumes step_abs:
    "acceptable e \<Longrightarrow> inv s \<Longrightarrow> step e s = Some s' \<Longrightarrow> abs s' = astep e (abs s)"
begin

lemma run_abs:
  "\<forall>e\<in>set es. acceptable e \<Longrightarrow> inv s \<Longrightarrow> run_steps step es s = Some s'
    \<Longrightarrow> abs s' = fold astep es (abs s)"
proof (induction es arbitrary: s)
  case Nil
  then show ?case by simp
next
  case (Cons e es)
  from Cons.prems(3) obtain u where u: "step e s = Some u" "run_steps step es u = Some s'"
    by (auto simp: bind_Some_conv)
  have "inv u" using step_inv [of e s u] Cons.prems u by simp
  then have "abs s' = fold astep es (abs u)" using Cons.IH [of u] Cons.prems u by simp
  also have "abs u = astep e (abs s)" using step_abs [of e s u] Cons.prems u by simp
  finally show ?case by simp
qed

end

text \<open>
  Systems whose steps keep an invariant and make a weight smaller, and that can move until they are
  done: every run is finite, and every run can only stop when it is done.
\<close>

lemma finite_runs_stop:
  assumes "\<forall>g. g 0 = s \<longrightarrow> (\<exists>i. \<not> step (g i) (g (Suc i)))"
  shows "\<exists>s'. step\<^sup>*\<^sup>* s s' \<and> (\<nexists>u. step s' u)"
proof (rule ccontr)
  assume "\<not> ?thesis"
  then obtain nx where nx: "\<And>u. step\<^sup>*\<^sup>* s u \<Longrightarrow> step u (nx u)" by metis
  let ?g = "\<lambda>i. (nx ^^ i) s"
  have reach: "step\<^sup>*\<^sup>* s (?g i)" for i
  proof (induction i)
    case (Suc i)
    then show ?case using nx [OF Suc] by (simp add: rtranclp.rtrancl_into_rtrancl [of step])
  qed simp
  have "step (?g i) (?g (Suc i))" for i using nx [OF reach] by simp
  with assms [rule_format, of ?g] show False by simp
qed

locale progress =
  fixes step :: "'s \<Rightarrow> 's \<Rightarrow> bool"
    and inv :: "'s \<Rightarrow> bool"
    and weight :: "'s \<Rightarrow> nat"
    and final :: "'s \<Rightarrow> bool"
  assumes keeps: "inv s \<Longrightarrow> step s s' \<Longrightarrow> inv s'"
    and lighter: "inv s \<Longrightarrow> step s s' \<Longrightarrow> weight s' < weight s"
    and moves: "inv s \<Longrightarrow> \<not> final s \<Longrightarrow> \<exists>s'. step s s'"
begin

lemma reach_inv: "step\<^sup>*\<^sup>* s s' \<Longrightarrow> inv s \<Longrightarrow> inv s'"
  by (induction rule: rtranclp_induct) (auto intro: keeps)

lemma run_ends:
  assumes "inv (f 0)"
  shows "\<exists>i\<le>weight (f 0). \<not> step (f i) (f (Suc i))"
proof (rule ccontr)
  assume "\<not> ?thesis"
  then have st: "step (f i) (f (Suc i))" if "i \<le> weight (f 0)" for i using that by blast
  have "inv (f i) \<and> weight (f i) + i \<le> weight (f 0)" if "i \<le> Suc (weight (f 0))" for i
    using that
  proof (induction i)
    case (Suc i)
    then show ?case using keeps [OF _ st, of i] lighter [OF _ st, of i] by fastforce
  qed (simp add: assms)
  from this [of "Suc (weight (f 0))"] show False by simp
qed

lemma reaches_final: "inv s \<Longrightarrow> \<exists>s'. step\<^sup>*\<^sup>* s s' \<and> final s'"
proof (induction "weight s" arbitrary: s rule: less_induct)
  case less
  show ?case
  proof (cases "final s")
    case False
    then obtain u where u: "step s u" using moves less.prems by blast
    then obtain s' where "step\<^sup>*\<^sup>* u s'" "final s'"
      using less.hyps [of u] lighter keeps less.prems by blast
    then show ?thesis using converse_rtranclp_into_rtranclp [of step, OF u] by blast
  qed blast
qed

end

end
