(* ===== verification/Cpp_Text.thy ===== *)
theory Cpp_Text
  imports Prelude
begin

text \<open>
  The text processing the programs are written with: what \<open>std::getline\<close>,
  \<open>operator>>\<close>, \<open>atoi\<close>, \<open>std::to_string\<close> and \<open>sprintf("%02x")\<close> compute, and the
  function \<open>split\<close> that the repository defines (three identical copies: \<open>split\<close> in
  tracker/tracker.cpp and peer/peerserver.cpp, \<open>split2\<close> in peer/peerdownload.cpp).
  A \<open>std::string\<close> is a list of bytes, \<^typ>\<open>string\<close>. The lemmas are the round trips the
  components rest on: lines written with \<open>endl\<close> are read back by \<open>getline\<close>, fields joined by
  a separator are found by \<open>split\<close>, tokens joined by blanks are found by \<open>operator>>\<close>, numbers
  printed by \<open>to_string\<close> are read back by \<open>atoi\<close>.
\<close>

abbreviation nl :: char where "nl \<equiv> CHR 0x0A"
abbreviation sp :: char where "sp \<equiv> CHR 0x20"
abbreviation slash :: char where "slash \<equiv> CHR 0x2F"


section \<open>Definitions\<close>

subsection \<open>Lines: getline\<close>

fun getlines :: "string \<Rightarrow> string list" where
  "getlines [] = []"
| "getlines (c # cs) =
     (if c = nl then [] # getlines cs
      else (case getlines cs of
              [] \<Rightarrow> [[c]]
            | l # ls \<Rightarrow> (c # l) # ls))"

definition endl :: "string \<Rightarrow> string" where
  "endl l = l @ [nl]"

definition unlines :: "string list \<Rightarrow> string" where
  "unlines ls = concat (map endl ls)"

text \<open>Text whose last line is terminated: everything the tracker writes ends with \<open>endl\<close>.\<close>

definition terminated :: "string \<Rightarrow> bool" where
  "terminated s \<longleftrightarrow> s = [] \<or> last s = nl"

subsection \<open>Tokens: operator>> on a stringstream\<close>

definition is_space :: "char \<Rightarrow> bool" where
  "is_space c \<longleftrightarrow> c = sp \<or> c = CHR 0x09 \<or> c = nl \<or> c = CHR 0x0B \<or> c = CHR 0x0C \<or> c = CHR 0x0D"

text \<open>
  \<open>stream >> x\<close> skips white space and reads up to the next white space. When no token is left
  the stream fails and \<open>x\<close> keeps its old value, the first argument.
\<close>

definition stream_get :: "string \<Rightarrow> string \<Rightarrow> string \<times> string" where
  "stream_get old s =
     (let s' = dropWhile is_space s in
      if s' = [] then (old, [])
      else (takeWhile (\<lambda>c. \<not> is_space c) s', dropWhile (\<lambda>c. \<not> is_space c) s'))"

text \<open>\<open>n\<close> reads in a row into fresh (empty) strings.\<close>

fun stream_gets :: "nat \<Rightarrow> string \<Rightarrow> string list" where
  "stream_gets 0 s = []"
| "stream_gets (Suc n) s = (let (x, s') = stream_get [] s in x # stream_gets n s')"

definition token :: "string \<Rightarrow> bool" where
  "token x \<longleftrightarrow> (\<forall>c\<in>set x. \<not> is_space c)"

subsection \<open>Fields: split\<close>

fun split_loop :: "char \<Rightarrow> string \<Rightarrow> string \<Rightarrow> string list \<Rightarrow> string list" where
  "split_loop delim [] temp v = v @ [temp]"
| "split_loop delim (c # cs) temp v =
     (if c = delim then split_loop delim cs [] (v @ [temp])
      else split_loop delim cs (temp @ [c]) v)"

definition split_str :: "string \<Rightarrow> char \<Rightarrow> string list" where
  "split_str data delim = split_loop delim data [] []"

text \<open>The same function as it is written in peer/peerserver.cpp and peer/peerdownload.cpp.\<close>

definition split2 :: "string \<Rightarrow> char \<Rightarrow> string list" where
  "split2 data delim = split_loop delim data [] []"

text \<open>Fields with one separator between them.\<close>

fun join :: "char \<Rightarrow> string list \<Rightarrow> string" where
  "join d [] = []"
| "join d [x] = x"
| "join d (x # y # ys) = x @ d # join d (y # ys)"

text \<open>\<open>v[i]\<close> on a vector: past the end the behaviour is undefined.\<close>

definition vec_at :: "'a list \<Rightarrow> nat \<Rightarrow> 'a option" where
  "vec_at v i = (if i < length v then Some (v ! i) else None)"

definition field :: "string \<Rightarrow> nat \<Rightarrow> string option" where
  "field line i = vec_at (split_str line sp) i"

subsection \<open>Numbers: atoi, to\_string, hexadecimal\<close>

definition is_digit :: "char \<Rightarrow> bool" where
  "is_digit c \<longleftrightarrow> 48 \<le> (of_char c :: nat) \<and> (of_char c :: nat) \<le> 57"

definition digit :: "nat \<Rightarrow> char" where
  "digit d = char_of (48 + d)"

definition digits_val :: "string \<Rightarrow> int" where
  "digits_val ds = foldl (\<lambda>a c. 10 * a + (of_char c - 48)) 0 ds"

text \<open>A value outside \<open>int\<close> is undefined behaviour of \<open>atoi\<close>.\<close>

definition int_range :: "int \<Rightarrow> int option" where
  "int_range v = (if - (2 ^ 31) \<le> v \<and> v < 2 ^ 31 then Some v else None)"

definition atoi :: "string \<Rightarrow> int option" where
  "atoi s =
     (let s' = dropWhile is_space s in
      case s' of
        [] \<Rightarrow> Some 0
      | c # cs \<Rightarrow>
          if c = CHR ''-'' then int_range (- digits_val (takeWhile is_digit cs))
          else if c = CHR ''+'' then int_range (digits_val (takeWhile is_digit cs))
          else int_range (digits_val (takeWhile is_digit s')))"

fun nat_to_string :: "nat \<Rightarrow> string" where
  "nat_to_string n = (if n < 10 then [digit n] else nat_to_string (n div 10) @ [digit (n mod 10)])"

declare nat_to_string.simps [simp del]

definition to_string :: "int \<Rightarrow> string" where
  "to_string i = (if i < 0 then CHR ''-'' # nat_to_string (nat (- i)) else nat_to_string (nat i))"

definition hex_digit :: "nat \<Rightarrow> char" where
  "hex_digit d = (if d < 10 then char_of (48 + d) else char_of (87 + d))"

text \<open>The loop over \<open>sprintf(hex+i*2,"%02x",b[i])\<close>.\<close>

definition hex :: "string \<Rightarrow> string" where
  "hex bs = concat (map (\<lambda>b. [hex_digit (of_char b div 16), hex_digit (of_char b mod 16)]) bs)"


section \<open>Lines\<close>

lemma getlines_line: "nl \<notin> set l \<Longrightarrow> getlines (l @ nl # s) = l # getlines s"
  by (induction l) auto

lemma getlines_last: "nl \<notin> set l \<Longrightarrow> l \<noteq> [] \<Longrightarrow> getlines l = [l]"
proof (induction l)
  case Nil
  then show ?case by simp
next
  case (Cons c l)
  then show ?case by (cases "l = []") auto
qed

lemma unlines_simps [simp]:
  "unlines [] = []"
  "unlines (l # ls) = l @ nl # unlines ls"
  "unlines (ls @ ms) = unlines ls @ unlines ms"
  by (simp_all add: unlines_def endl_def)

text \<open>Lines printed with \<open>endl\<close> are the lines \<open>getline\<close> reads.\<close>

lemma getlines_unlines: "\<forall>l\<in>set ls. nl \<notin> set l \<Longrightarrow> getlines (unlines ls) = ls"
  by (induction ls) (auto simp: getlines_line)

lemma getlines_nl_free: "l \<in> set (getlines s) \<Longrightarrow> nl \<notin> set l"
  by (induction s arbitrary: l) (fastforce split: if_splits list.splits)+

lemma getlines_eq_Nil [simp]: "getlines s = [] \<longleftrightarrow> s = []"
  by (cases s) (auto split: list.splits)

lemma terminated_simps [simp]:
  "terminated []"
  "terminated (s @ [nl])"
  by (simp_all add: terminated_def)

lemma terminated_Cons: "terminated (c # s) \<longleftrightarrow> (if s = [] then c = nl else terminated s)"
  by (auto simp: terminated_def)

lemma terminated_append: "terminated t \<Longrightarrow> t \<noteq> [] \<or> terminated s \<Longrightarrow> terminated (s @ t)"
  by (cases "t = []") (auto simp: terminated_def)

lemma terminated_unlines [simp]: "terminated (unlines ls)"
  by (induction ls rule: rev_induct) (auto simp: terminated_def)

lemma unlines_getlines: "terminated s \<Longrightarrow> unlines (getlines s) = s"
proof (induction s)
  case Nil
  then show ?case by simp
next
  case (Cons c s)
  show ?case
  proof (cases "s = []")
    case True
    then show ?thesis using Cons.prems by (simp add: terminated_Cons)
  next
    case False
    then have IH: "unlines (getlines s) = s" using Cons by (simp add: terminated_Cons)
    from False obtain l ls where "getlines s = l # ls" by (cases "getlines s") auto
    with IH show ?thesis by auto
  qed
qed

text \<open>Appending to a file whose last line is terminated appends to its list of lines.\<close>

lemma getlines_append: "terminated s \<Longrightarrow> getlines (s @ t) = getlines s @ getlines t"
proof -
  have "getlines (unlines ls @ t) = ls @ getlines t" if "\<forall>l\<in>set ls. nl \<notin> set l" for ls
    using that by (induction ls) (auto simp: getlines_line)
  moreover assume "terminated s"
  ultimately show ?thesis
    using getlines_nl_free by (metis unlines_getlines)
qed

lemma getlines_endl [simp]: "nl \<notin> set l \<Longrightarrow> getlines (endl l) = [l]"
  using getlines_line [of l "[]"] by (simp add: endl_def)

lemma terminated_endl [simp]: "terminated (s @ endl l)"
  by (simp add: endl_def terminated_def)


section \<open>Tokens\<close>

lemma is_space_simps [simp]: "is_space sp" "is_space nl"
  by (simp_all add: is_space_def)

lemma token_nl [simp]: "token x \<Longrightarrow> nl \<notin> set x"
  by (auto simp: token_def)

lemma token_sp [simp]: "token x \<Longrightarrow> sp \<notin> set x"
  by (auto simp: token_def)

lemma token_Nil [simp]: "token []"
  by (simp add: token_def)

lemma token_append [simp]: "token (x @ y) \<longleftrightarrow> token x \<and> token y"
  by (auto simp: token_def)

lemma stream_get_token: "token old \<Longrightarrow> token (fst (stream_get old s))"
  by (auto simp: stream_get_def Let_def token_def dest: set_takeWhileD)

lemma stream_gets_tokens: "x \<in> set (stream_gets n s) \<Longrightarrow> token x"
  by (induction n arbitrary: s)
    (auto simp: Let_def case_prod_unfold stream_get_token)

lemma length_stream_gets [simp]: "length (stream_gets n s) = n"
  by (induction n arbitrary: s) (auto simp: Let_def case_prod_unfold)

lemma stream_get_last [simp]:
  "token x \<Longrightarrow> x \<noteq> [] \<Longrightarrow> stream_get old x = (x, [])"
  by (cases x) (auto simp: stream_get_def Let_def token_def)

lemma stream_get_step [simp]:
  assumes "token x" "x \<noteq> []"
  shows "stream_get old (x @ sp # s) = (x, sp # s)"
proof -
  from assms obtain c cs where x: "x = c # cs" "\<not> is_space c" "\<forall>d\<in>set cs. \<not> is_space d"
    by (cases x) (auto simp: token_def)
  then have "takeWhile (\<lambda>c. \<not> is_space c) (cs @ sp # s) = cs"
    "dropWhile (\<lambda>c. \<not> is_space c) (cs @ sp # s) = sp # s"
    by (simp_all add: takeWhile_append2 dropWhile_append2)
  with x show ?thesis by (simp add: stream_get_def Let_def)
qed

lemma stream_get_blank [simp]: "stream_get old (sp # s) = stream_get old s"
  by (simp add: stream_get_def)

lemma stream_get_empty [simp]: "stream_get old [] = (old, [])"
  by (simp add: stream_get_def)

text \<open>Non-empty tokens joined by single blanks come back, in order, from \<open>operator>>\<close>.\<close>

lemma stream_gets_join:
  assumes "\<forall>x\<in>set xs. token x \<and> x \<noteq> []"
  shows "stream_gets (length xs) (join sp xs) = xs"
  using assms
proof (induction sp xs rule: join.induct)
  case (3 x y ys)
  have "stream_gets (Suc n) (sp # s) = stream_gets (Suc n) s" for n s
    by (simp add: Let_def)
  with 3 show ?case by (simp add: Let_def)
qed (auto simp: Let_def)


lemma stream_gets_join_more:
  assumes "\<forall>x\<in>set xs. token x \<and> x \<noteq> []"
  shows "stream_gets (length xs + k) (join sp xs) = xs @ replicate k []"
proof -
  have nil: "stream_gets n [] = replicate n []" for n
    by (induction n) (simp_all add: Let_def)
  have blank: "stream_gets (Suc n) (sp # s) = stream_gets (Suc n) s" for n s
    by (simp add: Let_def)
  show ?thesis
    using assms
  proof (induction sp xs rule: join.induct)
    case (3 x y ys)
    then show ?case using blank by (simp add: Let_def)
  qed (auto simp: nil Let_def)
qed


section \<open>Fields\<close>

lemma split_loop_acc: "split_loop d s temp v = v @ split_loop d s temp []"
proof (induction s arbitrary: temp v)
  case (Cons c s)
  have "split_loop d s [] (v @ [temp]) = v @ split_loop d s [] [temp]"
    using Cons.IH [of "[]" "v @ [temp]"] Cons.IH [of "[]" "[temp]"] by simp
  then show ?case using Cons.IH [of "temp @ [c]" v] by simp
qed simp

lemma split_loop_field: "d \<notin> set x \<Longrightarrow> split_loop d (x @ s) temp v = split_loop d s (temp @ x) v"
  by (induction x arbitrary: temp) auto

lemma split_str_sep: "d \<notin> set x \<Longrightarrow> split_str (x @ d # s) d = x # split_str s d"
  using split_loop_acc [of d s "[]" "[x]"]
  by (simp add: split_str_def split_loop_field)

lemma split_str_last: "d \<notin> set x \<Longrightarrow> split_str x d = [x]"
  using split_loop_field [of d x "[]" "[]" "[]"] by (simp add: split_str_def)

lemma split_str_Nil [simp]: "split_str [] d = [[]]"
  by (simp add: split_str_def)

lemma split2_split: "split2 = split_str"
  by (simp add: fun_eq_iff split2_def split_str_def)

lemma split_loop_not_Nil [simp]: "split_loop d s temp v \<noteq> []"
  by (induction d s temp v rule: split_loop.induct) auto

lemma split_str_not_Nil [simp]: "split_str s d \<noteq> []"
  by (simp add: split_str_def)

lemma split_str_join:
  "xs \<noteq> [] \<Longrightarrow> \<forall>x\<in>set xs. d \<notin> set x \<Longrightarrow> split_str (join d xs) d = xs"
  by (induction d xs rule: join.induct) (auto simp: split_str_sep split_str_last)

lemma split_loop_join: "join d (split_loop d s temp []) = temp @ s"
proof (induction s arbitrary: temp)
  case (Cons c s)
  show ?case
  proof (cases "c = d")
    case True
    have "split_loop d (c # s) temp [] = temp # split_loop d s [] []"
      using True split_loop_acc [of d s "[]" "[temp]"] by simp
    moreover obtain y ys where "split_loop d s [] [] = y # ys"
      by (cases "split_loop d s [] []") auto
    ultimately show ?thesis using Cons.IH [of "[]"] True by simp
  next
    case False
    then show ?thesis using Cons.IH [of "temp @ [c]"] by simp
  qed
qed simp

lemma split_loop_sep_free:
  "d \<notin> set temp \<Longrightarrow> x \<in> set (split_loop d s temp []) \<Longrightarrow> d \<notin> set x"
proof (induction s arbitrary: temp)
  case (Cons c s)
  show ?case
  proof (cases "c = d")
    case True
    then have "split_loop d (c # s) temp [] = temp # split_loop d s [] []"
      using split_loop_acc [of d s "[]" "[temp]"] by simp
    then have "x = temp \<or> x \<in> set (split_loop d s [] [])" using Cons.prems by simp
    then show ?thesis using Cons.IH [of "[]"] Cons.prems by auto
  next
    case False
    then show ?thesis using Cons.IH [of "temp @ [c]"] Cons.prems by simp
  qed
qed simp

text \<open>\<open>split\<close> is determined by two facts: joining its result gives the text back, and no field
  contains the separator.\<close>

lemma join_split_str [simp]: "join d (split_str s d) = s"
  by (simp add: split_str_def split_loop_join)

lemma split_str_sep_free: "x \<in> set (split_str s d) \<Longrightarrow> d \<notin> set x"
  using split_loop_sep_free [of d "[]" x s] by (simp add: split_str_def)

lemma field_join:
  "xs \<noteq> [] \<Longrightarrow> \<forall>x\<in>set xs. sp \<notin> set x \<Longrightarrow> field (join sp xs) i = vec_at xs i"
  by (simp add: field_def split_str_join)

lemma vec_at_simps [simp]:
  "i < length v \<Longrightarrow> vec_at v i = Some (v ! i)"
  "vec_at v i = None \<longleftrightarrow> length v \<le> i"
  by (auto simp: vec_at_def)

lemma field_zero: "field l 0 = Some (hd (split_str l sp))"
  by (simp add: field_def vec_at_def hd_conv_nth)


section \<open>Numbers\<close>

lemma of_char_digit [simp]: "d < 10 \<Longrightarrow> (of_char (digit d) :: nat) = 48 + d"
  by (simp add: digit_def)

lemma of_char_digit_int [simp]: "d < 10 \<Longrightarrow> (of_char (digit d) :: int) = 48 + int d"
  using of_char_digit [of d] by (metis of_nat_of_char of_nat_add of_nat_numeral)

lemma is_digit_digit [simp]: "d < 10 \<Longrightarrow> is_digit (digit d)"
  by (simp add: is_digit_def)

lemma nat_to_string_digits: "\<forall>c\<in>set (nat_to_string n). is_digit c"
proof (induction n rule: nat_to_string.induct)
  case (1 n)
  then show ?case by (cases "n < 10") (auto simp: nat_to_string.simps [of n])
qed

lemma nat_to_string_not_Nil [simp]: "nat_to_string n \<noteq> []"
  by (simp add: nat_to_string.simps [of n])

lemma digits_val_snoc: "digits_val (ds @ [c]) = 10 * digits_val ds + (of_char c - 48)"
  by (simp add: digits_val_def)

lemma digits_val_nat_to_string: "digits_val (nat_to_string n) = int n"
proof (induction n rule: nat_to_string.induct)
  case (1 n)
  show ?case
  proof (cases "n < 10")
    case True
    then show ?thesis by (simp add: nat_to_string.simps [of n] digits_val_def)
  next
    case False
    then have "digits_val (nat_to_string n) = 10 * int (n div 10) + int (n mod 10)"
      using 1 by (simp add: nat_to_string.simps [of n] digits_val_snoc)
    then show ?thesis by (simp add: zdiv_int zmod_int)
  qed
qed

lemma is_digit_not:
  assumes "is_digit c"
  shows "\<not> is_space c" "c \<noteq> CHR ''-''" "c \<noteq> CHR ''+''" "c \<noteq> sp"
  using assms by (auto simp: is_digit_def is_space_def)

lemma token_nat_to_string [simp]: "token (nat_to_string n)"
  using nat_to_string_digits is_digit_not by (auto simp: token_def)

text \<open>\<open>atoi\<close> reads back what \<open>to_string\<close> printed, for every non-negative \<open>int\<close>.\<close>

lemma atoi_nat_to_string: "int n < 2 ^ 31 \<Longrightarrow> atoi (nat_to_string n) = Some (int n)"
proof -
  assume bound: "int n < 2 ^ 31"
  obtain c cs where s: "nat_to_string n = c # cs"
    by (cases "nat_to_string n") auto
  have dig: "\<forall>x\<in>set (c # cs). is_digit x"
    using nat_to_string_digits [of n] s by simp
  then have "\<not> is_space c" "c \<noteq> CHR ''-''" "c \<noteq> CHR ''+''"
    using is_digit_not by auto
  moreover have "takeWhile is_digit (c # cs) = c # cs"
    using dig by simp
  ultimately have "atoi (c # cs) = int_range (digits_val (c # cs))"
    by (simp add: atoi_def)
  then show ?thesis
    using digits_val_nat_to_string [of n] s bound by (simp add: int_range_def)
qed

lemma hex_digit_inj:
  assumes "d < 16" "e < 16"
  shows "hex_digit d = hex_digit e \<longleftrightarrow> d = e"
proof
  have val: "(of_char (hex_digit d) :: nat) = (if d < 10 then 48 + d else 87 + d)" if "d < 16" for d
    using that by (simp add: hex_digit_def)
  assume "hex_digit d = hex_digit e"
  then have "(of_char (hex_digit d) :: nat) = of_char (hex_digit e)" by simp
  then show "d = e" using val [OF assms(1)] val [OF assms(2)] assms by (simp split: if_splits)
qed simp

lemma length_hex [simp]: "length (hex bs) = 2 * length bs"
  by (induction bs) (auto simp: hex_def)

lemma hex_inj: "hex as = hex bs \<longleftrightarrow> as = bs"
proof
  have byte: "a = b" if "hex_digit (of_char a div 16) = hex_digit (of_char b div 16)"
    "hex_digit (of_char a mod 16) = hex_digit (of_char b mod 16)" for a b :: char
  proof -
    have lt: "(of_char c :: nat) < 256" for c by simp
    have "(of_char a :: nat) div 16 = of_char b div 16"
      using that(1) lt [of a] lt [of b] by (simp add: hex_digit_inj div_less_iff_less_mult)
    moreover have "(of_char a :: nat) mod 16 = of_char b mod 16"
      using that(2) by (simp add: hex_digit_inj)
    ultimately have "(of_char a :: nat) = of_char b"
      by (metis div_mult_mod_eq)
    then show "a = b" by (metis char_of_char)
  qed
  assume "hex as = hex bs"
  then show "as = bs"
  proof (induction as arbitrary: bs)
    case Nil
    then show ?case by (cases bs) (auto simp: hex_def)
  next
    case (Cons a as)
    then obtain b bs' where "bs = b # bs'" by (cases bs) (auto simp: hex_def)
    with Cons show ?case by (auto simp: hex_def dest: byte)
  qed
qed simp

lemma hex_alphabet: "c \<in> set (hex bs) \<Longrightarrow> c \<noteq> CHR '':'' \<and> \<not> is_space c"
proof -
  assume "c \<in> set (hex bs)"
  then obtain d where d: "d < 16" "c = hex_digit d"
  proof -
    from \<open>c \<in> set (hex bs)\<close> obtain b where
      "c = hex_digit (of_char b div 16) \<or> c = hex_digit (of_char b mod 16)"
      by (auto simp: hex_def)
    moreover have "(of_char b :: nat) div 16 < 16" "(of_char b :: nat) mod 16 < 16"
      by (simp_all add: div_less_iff_less_mult)
    ultimately show thesis using that by blast
  qed
  have "(of_char c :: nat) = (if d < 10 then 48 + d else 87 + d)"
    using d by (simp add: hex_digit_def)
  then have "(of_char c :: nat) \<ge> 48 \<and> (of_char c :: nat) \<noteq> 58"
    using d by (auto split: if_splits)
  then show ?thesis by (auto simp: is_space_def)
qed

lemma token_hex [simp]: "token (hex bs)"
  using hex_alphabet by (auto simp: token_def)

end
