(* ===== verification/Tls_Setup.thy ===== *)
theory Tls_Setup
  imports Cpp_Text
begin

text \<open>
  The part of common/tls.cpp that sets connections up: the two contexts, the two handshakes and
  \<open>TLSClose\<close>. OpenSSL is a parameter: which files it can load (\<open>openssl\<close>), and whether a handshake
  succeeds. What the code does with it is modelled: what a context is loaded with, whether it asks for the
  certificate of the other side, which errors end the process with which message, and which \<open>SSL\<close>
  objects are left allocated.
\<close>


section \<open>Definitions\<close>

subsection \<open>Contexts\<close>

datatype role = ServerRole | ClientRole

record ssl_ctx =
  ctx_role :: role
  certificate :: "string option"
  private_key :: "string option"
  trusted :: "string list"
  verify_peer :: bool

text \<open>
  OpenSSL: whether a context can be allocated, the certificate in a file, the key in a file (which has to
  fit the certificate), the certificates of a file of trusted ones; \<open>None\<close> for a result \<open><= 0\<close>. The
  last field says whether \<open>SSL_new\<close> returns an object.
\<close>

record openssl =
  ctx_new :: "role \<Rightarrow> bool"
  certificate_file :: "string \<Rightarrow> string option"
  key_file :: "string \<Rightarrow> string \<Rightarrow> string option"
  verify_locations :: "string \<Rightarrow> string list option"
  ssl_new :: "ssl_ctx \<Rightarrow> bool"

text \<open>Why a process ends before it serves anybody; the socket errors are for the servers.\<close>

datatype startup_error =
    NoContext role
  | NoCertificate string
  | NoKey string
  | NoTrusted string
  | MutexFailed
  | ThreadFailed
  | SocketFailed
  | BindFailed
  | ListenFailed

text \<open>What the context functions print before \<open>exit(-1)\<close>.\<close>

definition hint :: string where
  "hint = ''Run certs/generate-dev-cert.sh to generate one.''"

fun complaint :: "startup_error \<Rightarrow> string list" where
  "complaint (NoContext ServerRole) = [''Failed to create TLS server context'']"
| "complaint (NoContext ClientRole) = [''Failed to create TLS client context'']"
| "complaint (NoCertificate f) = [''Failed to load TLS certificate: '' @ f, hint]"
| "complaint (NoKey f) = [''Failed to load TLS private key: '' @ f, hint]"
| "complaint (NoTrusted f) = [''Failed to load trusted TLS certificate: '' @ f, hint]"
| "complaint e = []"

definition new_ctx :: "role \<Rightarrow> ssl_ctx" where
  "new_ctx r = \<lparr>ctx_role = r, certificate = None, private_key = None, trusted = [], verify_peer = False\<rparr>"

definition TLSServerContext :: "openssl \<Rightarrow> string \<Rightarrow> string \<Rightarrow> startup_error + ssl_ctx" where
  "TLSServerContext L certfile keyfile =
     (if \<not> ctx_new L ServerRole then Inl (NoContext ServerRole)
      else case certificate_file L certfile of
        None \<Rightarrow> Inl (NoCertificate certfile)
      | Some c \<Rightarrow>
          (case key_file L c keyfile of
             None \<Rightarrow> Inl (NoKey keyfile)
           | Some k \<Rightarrow> Inr ((new_ctx ServerRole)\<lparr>certificate := Some c, private_key := Some k\<rparr>)))"

definition TLSClientContext :: "openssl \<Rightarrow> string \<Rightarrow> startup_error + ssl_ctx" where
  "TLSClientContext L cafile =
     (if \<not> ctx_new L ClientRole then Inl (NoContext ClientRole)
      else case verify_locations L cafile of
        None \<Rightarrow> Inl (NoTrusted cafile)
      | Some cs \<Rightarrow> Inr ((new_ctx ClientRole)\<lparr>trusted := cs, verify_peer := True\<rparr>))"

subsection \<open>Handshakes\<close>

text \<open>The allocated \<open>SSL\<close> objects: for each its context and its file descriptor.\<close>

record ssl_heap =
  next_ssl :: nat
  ssls :: "nat \<rightharpoonup> ssl_ctx \<times> int"

text \<open>
  \<open>SSL_new\<close> and \<open>SSL_set_fd\<close>, and \<open>SSL_free\<close>; \<open>None\<close> when a null pointer or an object that is not allocated
  is used.
\<close>

definition SSL_new_fd :: "openssl \<Rightarrow> ssl_ctx \<Rightarrow> int \<Rightarrow> ssl_heap \<Rightarrow> (nat \<times> ssl_heap) option" where
  "SSL_new_fd L ctx fd h =
     (if ssl_new L ctx
      then Some (next_ssl h, h\<lparr>next_ssl := Suc (next_ssl h), ssls := (ssls h)(next_ssl h \<mapsto> (ctx, fd))\<rparr>)
      else None)"

definition SSL_free :: "nat \<Rightarrow> ssl_heap \<Rightarrow> ssl_heap option" where
  "SSL_free ssl h = (if ssls h ssl = None then None else Some (h\<lparr>ssls := (ssls h)(ssl := None)\<rparr>))"

text \<open>
  \<open>accepts ctx fd\<close> and \<open>connects ctx fd\<close> say whether \<open>SSL_accept\<close> and \<open>SSL_connect\<close> return a positive result.
  The result is \<open>NULL\<close> or the object.
\<close>

definition TLSAccept ::
  "openssl \<Rightarrow> (ssl_ctx \<Rightarrow> int \<Rightarrow> bool) \<Rightarrow> ssl_ctx \<Rightarrow> int \<Rightarrow> ssl_heap \<Rightarrow> (nat option \<times> ssl_heap) option" where
  "TLSAccept L accepts ctx fd h =
     Option.bind (SSL_new_fd L ctx fd h) (\<lambda>(ssl, h).
       if \<not> accepts ctx fd then map_option (Pair None) (SSL_free ssl h) else Some (Some ssl, h))"

definition TLSConnect ::
  "openssl \<Rightarrow> (ssl_ctx \<Rightarrow> int \<Rightarrow> bool) \<Rightarrow> ssl_ctx \<Rightarrow> int \<Rightarrow> ssl_heap \<Rightarrow> (nat option \<times> ssl_heap) option" where
  "TLSConnect L connects ctx fd h =
     Option.bind (SSL_new_fd L ctx fd h) (\<lambda>(ssl, h).
       if \<not> connects ctx fd then map_option (Pair None) (SSL_free ssl h) else Some (Some ssl, h))"

definition TLSClose :: "nat option \<Rightarrow> ssl_heap \<Rightarrow> ssl_heap option" where
  "TLSClose ssl h = (case ssl of None \<Rightarrow> Some h | Some i \<Rightarrow> SSL_free i h)"

text \<open>
  What OpenSSL documents of \<open>SSL_VERIFY_PEER\<close> on the client side: the handshake fails unless a trusted
  certificate vouches for the one the server presents.
\<close>

definition checks_certificates ::
  "(ssl_ctx \<Rightarrow> int \<Rightarrow> bool) \<Rightarrow> (int \<Rightarrow> string) \<Rightarrow> (string \<Rightarrow> string \<Rightarrow> bool) \<Rightarrow> bool" where
  "checks_certificates connects presents vouches \<longleftrightarrow>
     (\<forall>ctx fd. verify_peer ctx \<and> connects ctx fd \<longrightarrow> (\<exists>a\<in>set (trusted ctx). vouches a (presents fd)))"

definition heap_ok :: "ssl_heap \<Rightarrow> bool" where
  "heap_ok h \<longleftrightarrow> (\<forall>i. next_ssl h \<le> i \<longrightarrow> ssls h i = None)"


section \<open>Contexts\<close>

lemma TLSServerContext_cases:
  "TLSServerContext L cf kf = Inr ctx \<longleftrightarrow>
     ctx_new L ServerRole \<and> (\<exists>c k. certificate_file L cf = Some c \<and> key_file L c kf = Some k \<and>
       ctx = \<lparr>ctx_role = ServerRole, certificate = Some c, private_key = Some k, trusted = [], verify_peer = False\<rparr>)"
  by (auto simp: TLSServerContext_def new_ctx_def split: option.splits)

lemma TLSClientContext_cases:
  "TLSClientContext L cafile = Inr ctx \<longleftrightarrow>
     ctx_new L ClientRole \<and> (\<exists>cs. verify_locations L cafile = Some cs \<and>
       ctx = \<lparr>ctx_role = ClientRole, certificate = None, private_key = None, trusted = cs, verify_peer = True\<rparr>)"
  by (auto simp: TLSClientContext_def new_ctx_def split: option.splits)

text \<open>A process that ends in a context function has said why.\<close>

lemma context_complains:
  "TLSServerContext L cf kf = Inl e \<Longrightarrow> complaint e \<noteq> []"
  "TLSClientContext L cafile = Inl e \<Longrightarrow> complaint e \<noteq> []"
  by (auto simp: TLSServerContext_def TLSClientContext_def split: option.splits if_splits)


section \<open>Handshakes\<close>

lemma SSL_new_fd_fresh:
  assumes "heap_ok h" "SSL_new_fd L ctx fd h = Some (i, h')"
  shows "heap_ok h'" "ssls h i = None" "ssls h' = (ssls h)(i \<mapsto> (ctx, fd))"
  using assms by (auto simp: SSL_new_fd_def heap_ok_def split: if_splits)

lemma SSL_free_ok: "heap_ok h \<Longrightarrow> SSL_free i h = Some h' \<Longrightarrow> heap_ok h'"
  by (auto simp: SSL_free_def heap_ok_def split: if_splits)

text \<open>
  A handshake that fails leaves nothing behind, and one that succeeds leaves one object, which \<open>TLSClose\<close>
  gives back.
\<close>

lemma handshake_result:
  assumes "heap_ok h" "TLSAccept L hs ctx fd h = Some (r, h') \<or> TLSConnect L hs ctx fd h = Some (r, h')"
  shows "heap_ok h'" "r = None \<Longrightarrow> \<not> hs ctx fd \<and> ssls h' = ssls h"
    "r = Some i \<Longrightarrow> hs ctx fd \<and> ssls h i = None \<and> ssls h' = (ssls h)(i \<mapsto> (ctx, fd))"
proof -
  obtain j h1 where new: "SSL_new_fd L ctx fd h = Some (j, h1)"
    and res: "(if \<not> hs ctx fd then map_option (Pair None) (SSL_free j h1) else Some (Some j, h1)) = Some (r, h')"
    using assms(2) by (auto simp: TLSAccept_def TLSConnect_def bind_Some_conv)
  note fresh = SSL_new_fd_fresh [OF assms(1) new]
  then have free: "SSL_free j h1 = Some (h1\<lparr>ssls := ssls h\<rparr>)" by (auto simp: SSL_free_def fun_upd_idem)
  show "heap_ok h'" using res fresh(1) assms(1) free new
    by (auto simp: heap_ok_def SSL_new_fd_def split: if_splits)
  show "r = None \<Longrightarrow> \<not> hs ctx fd \<and> ssls h' = ssls h" using res free by (auto split: if_splits)
  show "r = Some i \<Longrightarrow> hs ctx fd \<and> ssls h i = None \<and> ssls h' = (ssls h)(i \<mapsto> (ctx, fd))"
    using res fresh by (auto split: if_splits)
qed

lemma close_gives_back:
  assumes "heap_ok h" "TLSAccept L hs ctx fd h = Some (r, h') \<or> TLSConnect L hs ctx fd h = Some (r, h')"
  shows "\<exists>h''. TLSClose r h' = Some h'' \<and> ssls h'' = ssls h \<and> heap_ok h''"
proof (cases r)
  case None
  then show ?thesis using handshake_result(1,2) [OF assms] by (simp add: TLSClose_def)
next
  case (Some i)
  have "heap_ok h'" "ssls h i = None" "ssls h' = (ssls h)(i \<mapsto> (ctx, fd))" using handshake_result(1,3) [OF assms] Some by auto
  then show ?thesis
    using SSL_free_ok [of h' i] by (auto simp: TLSClose_def Some SSL_free_def fun_upd_idem)
qed

text \<open>What a client talks to has been vouched for by a certificate of the file it was started with.\<close>

lemma connected_is_verified:
  assumes "checks_certificates connects presents vouches" "heap_ok h" "TLSClientContext L cafile = Inr ctx"
    "TLSConnect L connects ctx fd h = Some (Some i, h')"
  shows "\<exists>cs. verify_locations L cafile = Some cs \<and> (\<exists>a\<in>set cs. vouches a (presents fd))"
proof -
  have "connects ctx fd" using handshake_result(3) [OF assms(2)] assms(4) by blast
  then show ?thesis using assms(1,3) unfolding TLSClientContext_cases checks_certificates_def by force
qed

end
