(* ===== verification/Files.thy ===== *)
theory Files
  imports Cpp_Text
begin

text \<open>
  The disk a tracker works on: file contents as bytes and the directories that exist. The
  operations are those the program performs on streams and with the C library: reading all lines
  with \<open>getline\<close>, opening with \<open>ios::out\<close> and with \<open>ios::app\<close>, \<open>remove\<close>, \<open>rename\<close> and
  \<open>mkdir\<close>. A path can be opened for writing when its directory exists; an \<open>ofstream\<close> that could
  not be opened ignores what is written to it, and reading a missing file reads no line. Two paths
  are the same file only when they are the same string; permissions, full disks and name length
  limits are not modelled.

  The locale \<open>line_store\<close> is the interface the tracker's components use: a store of named lists
  of lines. It is interpreted at the end on the operations of this theory.
\<close>


section \<open>Definitions\<close>

record files =
  content :: "string \<rightharpoonup> string"
  dirs :: "string set"

definition dirname :: "string \<Rightarrow> string" where
  "dirname p = (if slash \<in> set p then rev (tl (dropWhile (\<lambda>c. c \<noteq> slash) (rev p))) else ''.'')"

definition openable :: "files \<Rightarrow> string \<Rightarrow> bool" where
  "openable f p \<longleftrightarrow> dirname p \<in> dirs f"

text \<open>\<open>ifstream infile(p); while(getline(infile,line))\<close>\<close>

definition file_lines :: "files \<Rightarrow> string \<Rightarrow> string list" where
  "file_lines f p = (case content f p of None \<Rightarrow> [] | Some s \<Rightarrow> getlines s)"

text \<open>\<open>ofstream(p,ios::out)\<close>\<close>

definition file_create :: "files \<Rightarrow> string \<Rightarrow> files" where
  "file_create f p = (if openable f p then f\<lparr>content := (content f)(p \<mapsto> [])\<rparr> else f)"

text \<open>\<open>ofstream(p,ios::out|ios::app) << s\<close>\<close>

definition file_append :: "files \<Rightarrow> string \<Rightarrow> string \<Rightarrow> files" where
  "file_append f p s =
     (if openable f p
      then f\<lparr>content := (content f)(p \<mapsto> (case content f p of None \<Rightarrow> [] | Some t \<Rightarrow> t) @ s)\<rparr>
      else f)"

definition file_remove :: "files \<Rightarrow> string \<Rightarrow> files" where
  "file_remove f p = f\<lparr>content := (content f)(p := None)\<rparr>"

definition file_rename :: "files \<Rightarrow> string \<Rightarrow> string \<Rightarrow> files" where
  "file_rename f a b =
     (case content f a of
        None \<Rightarrow> f
      | Some s \<Rightarrow>
          if openable f b \<and> a \<noteq> b then f\<lparr>content := (content f)(b \<mapsto> s, a := None)\<rparr> else f)"

definition make_dir :: "files \<Rightarrow> string \<Rightarrow> files" where
  "make_dir f d = f\<lparr>dirs := insert d (dirs f)\<rparr>"

definition exists_file :: "files \<Rightarrow> string \<Rightarrow> bool" where
  "exists_file f p \<longleftrightarrow> content f p \<noteq> None"

subsection \<open>Loops over lines whose body may be undefined\<close>

text \<open>The lines a loop does not skip.\<close>

fun filter_opt :: "('a \<Rightarrow> bool option) \<Rightarrow> 'a list \<Rightarrow> 'a list option" where
  "filter_opt P [] = Some []"
| "filter_opt P (x # xs) =
     do { b \<leftarrow> P x; ys \<leftarrow> filter_opt P xs; Some (if b then x # ys else ys) }"

text \<open>A search loop that stops at the first hit.\<close>

fun find_opt :: "('a \<Rightarrow> bool option) \<Rightarrow> 'a list \<Rightarrow> 'a option option" where
  "find_opt P [] = Some None"
| "find_opt P (x # xs) = do { b \<leftarrow> P x; if b then Some (Some x) else find_opt P xs }"

text \<open>A loop that collects one value per line.\<close>

fun map_opt :: "('a \<Rightarrow> 'b option) \<Rightarrow> 'a list \<Rightarrow> 'b list option" where
  "map_opt f [] = Some []"
| "map_opt f (x # xs) = do { y \<leftarrow> f x; ys \<leftarrow> map_opt f xs; Some (y # ys) }"

subsection \<open>Rewriting a file through the temporary file\<close>

definition temp_path :: string where
  "temp_path = ''.all_files/.temp.txt''"

text \<open>
  The kept lines go to the temporary file, the file is removed and the temporary file takes its
  name. \<open>DeleteLine\<close> opens the temporary file with \<open>ios::app\<close>, \<open>GroupStopShare\<close> with
  \<open>ios::out\<close>.
\<close>

definition replace_app :: "files \<Rightarrow> string \<Rightarrow> string list \<Rightarrow> files" where
  "replace_app f p ls =
     file_rename (file_remove (file_append f temp_path (unlines ls)) p) temp_path p"

definition replace_out :: "files \<Rightarrow> string \<Rightarrow> string list \<Rightarrow> files" where
  "replace_out f p ls =
     file_rename
       (file_remove (file_append (file_create f temp_path) temp_path (unlines ls)) p) temp_path p"

text \<open>
  What holds of the disk between two requests: the directory exists, files lie in existing
  directories and end with a complete line, and no rewrite has left lines in the temporary file.
\<close>

definition files_ok :: "files \<Rightarrow> bool" where
  "files_ok f \<longleftrightarrow>
     ''.all_files'' \<in> dirs f \<and>
     (\<forall>p s. content f p = Some s \<longrightarrow> openable f p \<and> terminated s) \<and>
     (content f temp_path = None \<or> content f temp_path = Some [])"


section \<open>Line loops\<close>

lemma filter_opt_total:
  "\<forall>x\<in>set xs. P x = Some (Q x) \<Longrightarrow> filter_opt P xs = Some (filter Q xs)"
  by (induction xs) auto

lemma filter_opt_Some:
  "filter_opt P xs = Some ys \<Longrightarrow> ys = filter (\<lambda>x. the (P x)) xs \<and> (\<forall>x\<in>set xs. P x \<noteq> None)"
  by (induction xs arbitrary: ys) (auto simp: bind_Some_conv split: if_splits)

lemma map_opt_total: "\<forall>x\<in>set xs. f x = Some (g x) \<Longrightarrow> map_opt f xs = Some (map g xs)"
  by (induction xs) auto

lemma map_opt_Some: "map_opt f xs = Some ys \<Longrightarrow> map f xs = map Some ys"
  by (induction xs arbitrary: ys) (auto simp: bind_Some_conv)

lemma map_opt_map: "\<forall>x\<in>set xs. f (h x) = Some (g x) \<Longrightarrow> map_opt f (map h xs) = Some (map g xs)"
  by (induction xs) auto

lemma map_opt_defined: "map_opt f xs = None \<longleftrightarrow> (\<exists>x\<in>set xs. f x = None)"
proof (induction xs)
  case (Cons x xs)
  then show ?case by (cases "f x"; cases "map_opt f xs") auto
qed simp

lemma find_opt_total: "\<forall>x\<in>set xs. P x = Some (Q x) \<Longrightarrow> find_opt P xs = Some (find Q xs)"
  by (induction xs) auto

lemma find_opt_Some:
  "find_opt P xs = Some r \<Longrightarrow>
     (case r of None \<Rightarrow> \<forall>x\<in>set xs. P x = Some False | Some y \<Rightarrow> y \<in> set xs \<and> P y = Some True)"
  by (induction xs) (auto simp: bind_Some_conv split: if_splits option.splits)


section \<open>Disk operations\<close>

lemma openable_simps [simp, disk_simps]:
  "openable (file_create f p) q = openable f q"
  "openable (file_append f p s) q = openable f q"
  "openable (file_remove f p) q = openable f q"
  "openable (file_rename f a b) q = openable f q"
  "openable (replace_app f p ls) q = openable f q"
  "openable (replace_out f p ls) q = openable f q"
  by (auto simp: openable_def file_create_def file_append_def file_remove_def file_rename_def
      replace_app_def replace_out_def split: option.splits)

lemma dirs_simps [simp, disk_simps]:
  "dirs (file_create f p) = dirs f"
  "dirs (file_append f p s) = dirs f"
  "dirs (file_remove f p) = dirs f"
  "dirs (file_rename f a b) = dirs f"
  "dirs (replace_app f p ls) = dirs f"
  "dirs (replace_out f p ls) = dirs f"
  by (auto simp: file_create_def file_append_def file_remove_def file_rename_def
      replace_app_def replace_out_def split: option.splits)

lemma openable_temp: "files_ok f \<Longrightarrow> openable f temp_path"
  by (simp add: files_ok_def openable_def temp_path_def dirname_def)

lemma content_append:
  "openable f p \<Longrightarrow> content (file_append f p s) q =
     (if q = p then Some ((case content f p of None \<Rightarrow> [] | Some t \<Rightarrow> t) @ s) else content f q)"
  by (simp add: file_append_def)

lemma content_append_other [simp]: "q \<noteq> p \<Longrightarrow> content (file_append f p s) q = content f q"
  by (simp add: file_append_def)

lemma content_create_other [simp]: "q \<noteq> p \<Longrightarrow> content (file_create f p) q = content f q"
  by (simp add: file_create_def)

lemma file_lines_create [disk_simps]:
  "openable f p \<Longrightarrow> file_lines (file_create f p) q = (if q = p then [] else file_lines f q)"
  by (simp add: file_lines_def file_create_def)

lemma file_lines_create_other [simp]: "q \<noteq> p \<Longrightarrow> file_lines (file_create f p) q = file_lines f q"
  by (simp add: file_lines_def)

lemma file_lines_append_other [simp]: "q \<noteq> p \<Longrightarrow> file_lines (file_append f p s) q = file_lines f q"
  by (simp add: file_lines_def)

lemma file_lines_append [disk_simps]:
  assumes "files_ok f" "openable f p" "nl \<notin> set l"
  shows "file_lines (file_append f p (endl l)) q =
    (if q = p then file_lines f p @ [l] else file_lines f q)"
proof -
  have "content f p = Some s \<Longrightarrow> terminated s" for s using assms(1) by (simp add: files_ok_def)
  then show ?thesis
    using assms(2,3)
    by (auto simp: file_lines_def content_append getlines_append split: option.splits)
qed

lemma files_ok_create: "files_ok f \<Longrightarrow> files_ok (file_create f p)"
  by (auto simp: files_ok_def file_create_def openable_def)

lemma files_ok_append: "files_ok f \<Longrightarrow> p \<noteq> temp_path \<Longrightarrow> terminated s \<Longrightarrow> files_ok (file_append f p s)"
  by (auto simp: files_ok_def file_append_def openable_def split: option.splits
      intro: terminated_append)

lemma files_ok_append_endl: "files_ok f \<Longrightarrow> p \<noteq> temp_path \<Longrightarrow> files_ok (file_append f p (endl l))"
  by (rule files_ok_append) (simp_all add: endl_def)

lemma files_ok_missing: "files_ok f \<Longrightarrow> \<not> openable f p \<Longrightarrow> content f p = None"
  by (cases "content f p") (auto simp: files_ok_def)

lemma replace_out_app:
  assumes "files_ok f"
  shows "replace_out f p ls = replace_app f p ls"
proof -
  have "content f temp_path = None \<or> content f temp_path = Some []"
    using assms by (simp add: files_ok_def)
  then have "file_append (file_create f temp_path) temp_path s = file_append f temp_path s" for s
    by (auto simp: file_create_def file_append_def openable_def)
  then show ?thesis by (simp add: replace_out_def replace_app_def)
qed

lemma content_replace:
  assumes "files_ok f" "p \<noteq> temp_path"
  shows "content (replace_app f p ls) q =
    (if openable f p then (if q = p then Some (unlines ls) else if q = temp_path then None else content f q)
     else if q = temp_path then Some (unlines ls) else content f q)"
proof -
  have "content f temp_path = None \<or> content f temp_path = Some []" "openable f temp_path"
    using assms(1) openable_temp by (auto simp: files_ok_def)
  then show ?thesis
    using assms files_ok_missing [of f p]
    by (auto simp: replace_app_def file_rename_def file_remove_def content_append openable_def
        split: option.splits)
qed

lemma file_lines_replace [disk_simps]:
  assumes "files_ok f" "p \<noteq> temp_path" "set ls \<subseteq> set (file_lines f p)"
  shows "file_lines (replace_app f p ls) q = (if q = p then ls else file_lines f q)"
proof -
  have nl: "\<forall>l\<in>set ls. nl \<notin> set l"
    using assms(3) by (auto simp: file_lines_def split: option.splits dest: getlines_nl_free)
  have temp: "file_lines f temp_path = []"
    using assms(1) by (auto simp: files_ok_def file_lines_def)
  show ?thesis
  proof (cases "openable f p")
    case True
    then show ?thesis
      using temp assms getlines_unlines [OF nl] by (simp add: file_lines_def content_replace)
  next
    case False
    then have "ls = []" "content f p = None"
      using assms files_ok_missing [of f p] by (auto simp: file_lines_def)
    then show ?thesis using temp assms False by (simp add: file_lines_def content_replace)
  qed
qed

lemma files_ok_replace:
  assumes "files_ok f" "p \<noteq> temp_path" "set ls \<subseteq> set (file_lines f p)"
  shows "files_ok (replace_app f p ls)"
proof -
  have "ls = []" if "\<not> openable f p"
    using that assms files_ok_missing [of f p] by (auto simp: file_lines_def)
  then show ?thesis
    using assms(1,2) openable_temp [OF assms(1)]
    by (auto simp: files_ok_def content_replace [OF assms(1,2)] split: if_splits)
qed


lemma exists_file_simps [simp]:
  "exists_file (file_append f p s) q \<longleftrightarrow> exists_file f q \<or> (q = p \<and> openable f p)"
  "exists_file (file_create f p) q \<longleftrightarrow> exists_file f q \<or> (q = p \<and> openable f p)"
  by (auto simp: exists_file_def file_append_def file_create_def)

lemma exists_file_replace:
  "files_ok f \<Longrightarrow> p \<noteq> temp_path \<Longrightarrow> exists_file (replace_app f p ls) q \<longleftrightarrow>
     (if openable f p then q = p \<or> (q \<noteq> temp_path \<and> exists_file f q)
      else q = temp_path \<or> exists_file f q)"
  by (simp add: exists_file_def content_replace)


lemma exists_replace_mono:
  "files_ok f \<Longrightarrow> p \<noteq> temp_path \<Longrightarrow> q \<noteq> temp_path \<Longrightarrow> exists_file f q \<Longrightarrow>
     exists_file (replace_app f p ls) q"
  by (simp add: exists_file_replace)

lemma exists_replace_self:
  "files_ok f \<Longrightarrow> p \<noteq> temp_path \<Longrightarrow> openable f p \<Longrightarrow> exists_file (replace_app f p ls) p"
  by (simp add: exists_file_replace)


section \<open>The interface: a store of named line lists\<close>

text \<open>
  \<open>lines\<close> reads, \<open>add\<close> appends one line, \<open>keep\<close> rewrites a file to a part of its lines. The
  client facts say what a list of lines used as a set supports: a line added is found, a line
  filtered out is gone, and both leave every other file alone.
\<close>

locale line_store =
  fixes ok :: "'d \<Rightarrow> bool"
    and writable :: "'d \<Rightarrow> string \<Rightarrow> bool"
    and usable :: "string \<Rightarrow> bool"
    and lines :: "'d \<Rightarrow> string \<Rightarrow> string list"
    and add :: "'d \<Rightarrow> string \<Rightarrow> string \<Rightarrow> 'd"
    and keep :: "'d \<Rightarrow> string \<Rightarrow> string list \<Rightarrow> 'd"
  assumes lines_add:
    "ok d \<Longrightarrow> writable d p \<Longrightarrow> nl \<notin> set l \<Longrightarrow>
       lines (add d p l) q = (if q = p then lines d p @ [l] else lines d q)"
    and lines_keep:
    "ok d \<Longrightarrow> usable p \<Longrightarrow> set ls \<subseteq> set (lines d p) \<Longrightarrow>
       lines (keep d p ls) q = (if q = p then ls else lines d q)"
    and ok_add: "ok d \<Longrightarrow> usable p \<Longrightarrow> ok (add d p l)"
    and ok_keep: "ok d \<Longrightarrow> usable p \<Longrightarrow> set ls \<subseteq> set (lines d p) \<Longrightarrow> ok (keep d p ls)"
    and writable_add: "writable (add d p l) q = writable d q"
    and writable_keep: "writable (keep d p ls) q = writable d q"
begin

lemma add_found: "ok d \<Longrightarrow> writable d p \<Longrightarrow> nl \<notin> set l \<Longrightarrow> l \<in> set (lines (add d p l) p)"
  by (simp add: lines_add)

lemma filter_gone:
  "ok d \<Longrightarrow> usable p \<Longrightarrow> l \<in> set (lines (keep d p (filter P (lines d p))) p) \<longleftrightarrow> l \<in> set (lines d p) \<and> P l"
  using lines_keep [of d p "filter P (lines d p)" p] by auto

lemma add_then_remove:
  assumes "ok d" "usable p" "writable d p" "nl \<notin> set l" "l \<notin> set (lines d p)"
  shows "lines (keep (add d p l) p (filter (\<lambda>x. x \<noteq> l) (lines (add d p l) p))) q = lines d q"
proof -
  have add: "lines (add d p l) p = lines d p @ [l]"
    using assms by (simp add: lines_add)
  have "filter (\<lambda>x. x \<noteq> l) (lines d p) = lines d p"
    using assms(5) by (auto simp: filter_id_conv)
  with add have "filter (\<lambda>x. x \<noteq> l) (lines (add d p l) p) = lines d p"
    by simp
  moreover have "lines (keep (add d p l) p (lines d p)) q = (if q = p then lines d p else lines (add d p l) q)"
    by (rule lines_keep) (use assms add ok_add in auto)
  ultimately show ?thesis using assms by (simp add: lines_add)
qed

end

interpretation disk: line_store files_ok openable "\<lambda>p. p \<noteq> temp_path" file_lines
  "\<lambda>f p l. file_append f p (endl l)" replace_app
  by unfold_locales
    (auto simp: file_lines_append file_lines_replace files_ok_append_endl files_ok_replace)

end
