(* ===== verification/Tls.thy ===== *)
theory Tls
  imports Cpp_Text
begin

text \<open>
  common/tls.cpp: the message framing every peer-to-tracker exchange uses. OpenSSL is not part of
  the repository, so \<open>SSL_write\<close> and \<open>SSL_read\<close> are parameters over an abstract connection
  state: \<open>wr c data\<close> is the number of bytes accepted (0 stands for a result \<open><= 0\<close>) and
  \<open>rd c n\<close> the bytes delivered by one call (none for a result \<open><= 0\<close>). Their documented
  behaviour is stated by the locales \<open>ssl_sink\<close> and \<open>ssl_stream\<close>; both calls may transfer any
  non-empty part of what was asked for. The record channel at the end satisfies both, and
  it is the channel the tracker synchronisation runs over.
\<close>


section \<open>Definitions\<close>

definition MAX_MSG_SIZE :: nat where
  "MAX_MSG_SIZE = 16 * 1024 * 1024"

text \<open>The loop of \<open>SSLWriteAll\<close>; the result is its return value and the connection.\<close>

function SSLWriteAll :: "('c \<Rightarrow> string \<Rightarrow> nat \<times> 'c) \<Rightarrow> 'c \<Rightarrow> string \<Rightarrow> bool \<times> 'c" where
  "SSLWriteAll wr c data =
     (if data = [] then (True, c)
      else case wr c data of (n, c') \<Rightarrow>
        if n = 0 then (False, c') else SSLWriteAll wr c' (drop n data))"
  by pat_completeness auto
termination
  by (relation "measure (\<lambda>(wr, c, data). length data)") auto

declare SSLWriteAll.simps [simp del]

text \<open>The loop of \<open>SSLReadAll\<close>: \<open>None\<close> for the result false, else the \<open>len\<close> bytes.\<close>

function SSLReadAll :: "('c \<Rightarrow> nat \<Rightarrow> string \<times> 'c) \<Rightarrow> 'c \<Rightarrow> nat \<Rightarrow> string option \<times> 'c" where
  "SSLReadAll rd c len =
     (if len = 0 then (Some [], c)
      else case rd c len of (d, c') \<Rightarrow>
        if d = [] then (None, c')
        else case SSLReadAll rd c' (len - length d) of (r, c'') \<Rightarrow> (map_option ((@) d) r, c''))"
  by pat_completeness auto
termination
  by (relation "measure (\<lambda>(rd, c, len). len)") auto

declare SSLReadAll.simps [simp del]

text \<open>\<open>htonl\<close> and \<open>ntohl\<close>: the four bytes of the length, most significant first.\<close>

definition htonl :: "32 word \<Rightarrow> string" where
  "htonl w = map (\<lambda>k. char_of (unat w div 256 ^ k mod 256)) [3, 2, 1, 0]"

definition ntohl :: "string \<Rightarrow> 32 word" where
  "ntohl b = word_of_nat (foldl (\<lambda>a c. 256 * a + of_char c) 0 b)"

definition TLSSendMsg :: "('c \<Rightarrow> string \<Rightarrow> nat \<times> 'c) \<Rightarrow> 'c \<Rightarrow> string \<Rightarrow> bool \<times> 'c" where
  "TLSSendMsg wr c data =
     (let len = htonl (word_of_nat (length data)) in
      case SSLWriteAll wr c len of (ok, c1) \<Rightarrow>
        if \<not> ok then (False, c1)
        else if 0 < length data then
          (case SSLWriteAll wr c1 data of (ok2, c2) \<Rightarrow> if \<not> ok2 then (False, c2) else (True, c2))
        else (True, c1))"

definition TLSRecvMsg :: "('c \<Rightarrow> nat \<Rightarrow> string \<times> 'c) \<Rightarrow> 'c \<Rightarrow> string \<times> 'c" where
  "TLSRecvMsg rd c =
     (case SSLReadAll rd c 4 of
        (None, c1) \<Rightarrow> ([], c1)
      | (Some len_net, c1) \<Rightarrow>
          let len = unat (ntohl len_net) in
          if len > MAX_MSG_SIZE then ([], c1)
          else if len = 0 then ([], c1)
          else (case SSLReadAll rd c1 len of
                  (None, c2) \<Rightarrow> ([], c2)
                | (Some result, c2) \<Rightarrow> (result, c2)))"

definition TLSSendRaw :: "('c \<Rightarrow> string \<Rightarrow> nat \<times> 'c) \<Rightarrow> 'c \<Rightarrow> string \<Rightarrow> bool \<times> 'c" where
  "TLSSendRaw wr c data = SSLWriteAll wr c data"

definition TLSRecvRaw :: "('c \<Rightarrow> nat \<Rightarrow> string \<times> 'c) \<Rightarrow> 'c \<Rightarrow> nat \<Rightarrow> string \<times> 'c" where
  "TLSRecvRaw rd c maxlen = (case rd c maxlen of (d, c') \<Rightarrow> if d = [] then ([], c') else (d, c'))"

text \<open>
  A connection as the list of TLS records in flight. Writing cuts the data into records of at most
  \<open>TLS_RECORD\<close> bytes (RFC 8446, section 5.1); one read returns bytes of one record.
\<close>

definition TLS_RECORD :: nat where
  "TLS_RECORD = 16384"

function pieces :: "nat \<Rightarrow> string \<Rightarrow> string list" where
  "pieces k s = (if s = [] \<or> k = 0 then [] else take k s # pieces k (drop k s))"
  by pat_completeness auto
termination
  by (relation "measure (\<lambda>(k, s). length s)") auto

declare pieces.simps [simp del]

definition record_write :: "string list \<Rightarrow> string \<Rightarrow> nat \<times> string list" where
  "record_write c data = (length data, c @ pieces TLS_RECORD data)"

fun record_read :: "string list \<Rightarrow> nat \<Rightarrow> string \<times> string list" where
  "record_read [] n = ([], [])"
| "record_read (r # rs) n =
     (if r = [] then record_read rs n
      else if length r \<le> n then (r, rs) else (take n r, drop n r # rs))"


section \<open>The documented behaviour of SSL\_write and SSL\_read\<close>

locale ssl_sink =
  fixes wr :: "'c \<Rightarrow> string \<Rightarrow> nat \<times> 'c"
    and sent :: "'c \<Rightarrow> string"
  assumes wr_prefix:
    "wr c data = (n, c') \<Longrightarrow> n \<le> length data \<and> sent c' = sent c @ take n data"
begin

lemma SSLWriteAll_sent:
  "SSLWriteAll wr c data = (True, c') \<Longrightarrow> sent c' = sent c @ data"
proof (induction data arbitrary: c rule: length_induct)
  case (1 data)
  show ?case
  proof (cases "data = []")
    case True
    then show ?thesis using 1 by (simp add: SSLWriteAll.simps [of wr])
  next
    case False
    obtain n c1 where w: "wr c data = (n, c1)" by fastforce
    with False 1 have n: "n \<noteq> 0" "SSLWriteAll wr c1 (drop n data) = (True, c')"
      by (auto simp: SSLWriteAll.simps [of wr c data] split: if_splits)
    then have "sent c' = sent c1 @ drop n data"
      using "1.IH" False by simp
    then show ?thesis using wr_prefix [OF w] by simp
  qed
qed

lemma TLSSendMsg_sent:
  "TLSSendMsg wr c data = (True, c') \<Longrightarrow> sent c' = sent c @ htonl (word_of_nat (length data)) @ data"
  by (auto simp: TLSSendMsg_def Let_def dest!: SSLWriteAll_sent split: prod.splits if_splits)

end

locale ssl_stream =
  fixes rd :: "'c \<Rightarrow> nat \<Rightarrow> string \<times> 'c"
    and bytes :: "'c \<Rightarrow> string"
  assumes rd_some:
    "0 < n \<Longrightarrow> bytes c \<noteq> [] \<Longrightarrow> rd c n = (d, c') \<Longrightarrow>
       d \<noteq> [] \<and> length d \<le> n \<and> bytes c = d @ bytes c'"
    and rd_end: "bytes c = [] \<Longrightarrow> rd c n = (d, c') \<Longrightarrow> d = [] \<and> bytes c' = []"
begin

text \<open>However the bytes are cut up, \<open>SSLReadAll\<close> collects exactly the next \<open>len\<close> of them.\<close>

lemma SSLReadAll_enough:
  "len \<le> length (bytes c) \<Longrightarrow>
     \<exists>c'. SSLReadAll rd c len = (Some (take len (bytes c)), c') \<and> bytes c' = drop len (bytes c)"
proof (induction len arbitrary: c rule: less_induct)
  case (less len)
  show ?case
  proof (cases "len = 0")
    case True
    then show ?thesis by (simp add: SSLReadAll.simps [of rd c])
  next
    case False
    obtain d c1 where r: "rd c len = (d, c1)" by fastforce
    have "bytes c \<noteq> []" using False less.prems by auto
    then have d: "d \<noteq> []" "length d \<le> len" "bytes c = d @ bytes c1"
      using rd_some [of len c d c1] False r by auto
    then have "len - length d < len" "len - length d \<le> length (bytes c1)"
      using less.prems False by auto
    then obtain c2 where
      "SSLReadAll rd c1 (len - length d) = (Some (take (len - length d) (bytes c1)), c2)"
      "bytes c2 = drop (len - length d) (bytes c1)"
      using less.IH [of "len - length d" c1] by blast
    then show ?thesis using r d False by (simp add: SSLReadAll.simps [of rd c])
  qed
qed

lemma SSLReadAll_short:
  "length (bytes c) < len \<Longrightarrow> \<exists>c'. SSLReadAll rd c len = (None, c')"
proof (induction len arbitrary: c rule: less_induct)
  case (less len)
  obtain d c1 where r: "rd c len = (d, c1)" by fastforce
  show ?case
  proof (cases "bytes c = []")
    case True
    then show ?thesis using r rd_end [OF True r] less.prems by (simp add: SSLReadAll.simps [of rd c])
  next
    case False
    then have d: "d \<noteq> []" "length d \<le> len" "bytes c = d @ bytes c1"
      using rd_some [of len c d c1] less.prems r by auto
    then have "\<exists>c'. SSLReadAll rd c1 (len - length d) = (None, c')"
      using less.IH [of "len - length d" c1] less.prems by auto
    then show ?thesis using r d less.prems by (auto simp: SSLReadAll.simps [of rd c])
  qed
qed

end

lemma length_htonl [simp]: "length (htonl w) = 4"
  by (simp add: htonl_def)

lemma ntohl_htonl [simp]: "ntohl (htonl w) = w"
proof -
  define n where "n = unat w"
  have n: "n < 256 ^ 4" using unsigned_less [of w] by (simp add: n_def)
  have "foldl (\<lambda>a c. 256 * a + of_char c) 0 (htonl w) =
      256 * (256 * (256 * (n div 256 ^ 3 mod 256) + n div 256 ^ 2 mod 256) + n div 256 mod 256)
        + n mod 256"
    by (simp add: htonl_def n_def numeral_3_eq_3 numeral_2_eq_2)
  also have "n div 256 ^ 3 mod 256 = n div 256 ^ 3"
    using n by (simp add: div_less_iff_less_mult)
  also have "256 * (n div 256 ^ 3) + n div 256 ^ 2 mod 256 = n div 256 ^ 2"
    using div_mult_mod_eq [of "n div 256 ^ 2" 256] by (simp add: div_mult2_eq [symmetric])
  also have "256 * (n div 256 ^ 2) + n div 256 mod 256 = n div 256"
    using div_mult_mod_eq [of "n div 256" 256] by (simp add: div_mult2_eq [symmetric])
  also have "256 * (n div 256) + n mod 256 = n"
    by simp
  finally show ?thesis by (simp add: ntohl_def n_def)
qed

lemma unat_length: "length data < 2 ^ 32 \<Longrightarrow> unat (word_of_nat (length data) :: 32 word) = length data"
  by (simp add: unat_of_nat take_bit_nat_eq_self)

text \<open>A connection with both ends: what one side sends is what the other side reads.\<close>

context ssl_stream
begin

lemma TLSRecvMsg_frame:
  assumes "bytes c = htonl (word_of_nat (length data)) @ data @ rest"
    and "0 < length data" "length data \<le> MAX_MSG_SIZE"
  shows "\<exists>c'. TLSRecvMsg rd c = (data, c') \<and> bytes c' = rest"
proof -
  have len: "unat (word_of_nat (length data) :: 32 word) = length data"
    using assms(3) by (intro unat_length) (simp add: MAX_MSG_SIZE_def)
  obtain c1 where c1: "SSLReadAll rd c 4 = (Some (htonl (word_of_nat (length data))), c1)"
    "bytes c1 = data @ rest"
    using SSLReadAll_enough [of 4 c] assms(1) by auto
  obtain c2 where "SSLReadAll rd c1 (length data) = (Some data, c2)" "bytes c2 = rest"
    using SSLReadAll_enough [of "length data" c1] c1(2) by auto
  with c1 len assms(2,3) show ?thesis by (simp add: TLSRecvMsg_def)
qed

lemma TLSRecvMsg_rejects:
  assumes "length (bytes c) < 4
    \<or> (4 \<le> length (bytes c) \<and> (let len = unat (ntohl (take 4 (bytes c))) in
         len = 0 \<or> MAX_MSG_SIZE < len \<or> length (bytes c) < 4 + len))"
  shows "fst (TLSRecvMsg rd c) = []"
proof (cases "length (bytes c) < 4")
  case True
  then show ?thesis using SSLReadAll_short [of c 4] by (auto simp: TLSRecvMsg_def)
next
  case False
  then obtain c1 where c1: "SSLReadAll rd c 4 = (Some (take 4 (bytes c)), c1)"
    "bytes c1 = drop 4 (bytes c)"
    using SSLReadAll_enough [of 4 c] by auto
  define len where "len = unat (ntohl (take 4 (bytes c)))"
  have "len = 0 \<or> MAX_MSG_SIZE < len \<or> length (bytes c1) < len"
    using assms False c1(2) by (auto simp: len_def Let_def)
  then show ?thesis
    using c1 SSLReadAll_short [of c1 len] by (auto simp: TLSRecvMsg_def len_def [symmetric])
qed

end


section \<open>The record channel\<close>

lemma concat_pieces: "0 < k \<Longrightarrow> concat (pieces k s) = s"
proof (induction s rule: length_induct)
  case (1 s)
  then show ?case by (cases "s = []") (auto simp: pieces.simps [of k s] pieces.simps [of k "[]"])
qed

lemma pieces_bound: "r \<in> set (pieces k s) \<Longrightarrow> r \<noteq> [] \<and> length r \<le> k"
proof (induction s rule: length_induct)
  case (1 s)
  show ?case
  proof (cases "s = [] \<or> k = 0")
    case True
    then show ?thesis using "1.prems" by (auto simp: pieces.simps [of k s])
  next
    case False
    then have "r = take k s \<or> r \<in> set (pieces k (drop k s))" "length (drop k s) < length s"
      using "1.prems" by (auto simp: pieces.simps [of k s])
    then show ?thesis using "1.IH" "1.prems" False by (metis length_take min.cobounded2 take_eq_Nil2)
  qed
qed

interpretation record_sink: ssl_sink record_write concat
  by unfold_locales (auto simp: record_write_def concat_pieces TLS_RECORD_def)

lemma record_read_some:
  "0 < n \<Longrightarrow> concat c \<noteq> [] \<Longrightarrow> record_read c n = (d, c') \<Longrightarrow>
     d \<noteq> [] \<and> length d \<le> n \<and> concat c = d @ concat c'"
  by (induction c n rule: record_read.induct) (auto split: if_splits)

lemma record_read_end: "concat c = [] \<Longrightarrow> record_read c n = ([], [])"
  by (induction c) auto

interpretation record_stream: ssl_stream record_read concat
  by unfold_locales (blast dest: record_read_some, simp add: record_read_end)

end
