(* ===== verification/Tracker_State.thy ===== *)
theory Tracker_State
  imports Files Tls
begin

text \<open>
  The state of one tracker process (the globals of tracker/tracker.cpp and its directory
  \<open>.all_files\<close>), the names of its files, and the well-formedness of the disk that keeps every
  \<open>split_vector[i]\<close> of the program inside its vector.

  A request is handled as one atomic step on this state. The record keeps the globals under their
  names. \<open>link\<close> is what connecting to the sibling tracker gives, and \<open>outbox\<close> records what was
  sent over the connections opened to it.
\<close>


section \<open>Definitions\<close>

subsection \<open>State and environment\<close>

text \<open>
  The outcome of contacting the sibling: \<open>IsOnline\<close> fails; \<open>IsOnline\<close> succeeds but the next
  \<open>connect\<close> fails; the TLS handshake fails; the connection is up.
\<close>

datatype link = Offline | Refused | NoTLS | Online

record tracker =
  credentials :: "string \<rightharpoonup> string"
  online_users :: "string \<rightharpoonup> string \<times> string"
  online :: "string set"
  group_members :: "string set"
  groups :: "string \<rightharpoonup> string"
  pending_group_requests :: "(string \<times> string) set"
  disk :: files
  link :: link
  outbox :: "(string \<times> string list) list"

text \<open>
  What the environment supplies to one request: SHA-256 (OpenSSL), the 16 bytes \<open>RAND_bytes\<close>
  draws, the iteration order of a hash table, the entries \<open>readdir\<close> returns for \<open>.all_files\<close>.
\<close>

record env =
  sha256 :: "string \<Rightarrow> string"
  rand_bytes :: string
  map_order :: "(string \<rightharpoonup> string) \<Rightarrow> string list"
  dir_entries :: "string list"

subsection \<open>File names\<close>

definition credential_path :: string where
  "credential_path = ''.all_files/.credential.txt''"

definition online_path :: string where
  "online_path = ''.all_files/.online.txt''"

definition groups_path :: string where
  "groups_path = ''.all_files/.group.txt''"

definition pending_path :: string where
  "pending_path = ''.all_files/.pending.txt''"

definition members_path :: "string \<Rightarrow> string" where
  "members_path g = ''.all_files/.group_'' @ g @ ''.txt''"

definition shares_path :: "string \<Rightarrow> string" where
  "shares_path g = ''.all_files/.group_'' @ g @ ''_files.txt''"

definition user_path :: "string \<Rightarrow> string" where
  "user_path u = ''.all_files/.files_'' @ u @ ''.txt''"

definition downloading_path :: "string \<Rightarrow> string" where
  "downloading_path u = ''.all_files/.files_'' @ u @ ''_downloading.txt''"

definition downloaded_path :: "string \<Rightarrow> string" where
  "downloaded_path u = ''.all_files/.files_'' @ u @ ''_downloaded.txt''"

subsection \<open>Well-formed disks\<close>

definition between :: "string \<Rightarrow> string \<Rightarrow> string \<Rightarrow> bool" where
  "between a b p \<longleftrightarrow> prefix a p \<and> suffix b p \<and> length a + length b \<le> length p"

text \<open>How many fields the program reads from a line of a file.\<close>

definition min_fields :: "string \<Rightarrow> nat" where
  "min_fields p =
     (if p = online_path then 3
      else if p = groups_path then 2
      else if between ''.all_files/.group_'' ''_files.txt'' p then 4
      else if between ''.all_files/.files_'' ''_downloading.txt'' p
        \<or> between ''.all_files/.files_'' ''_downloaded.txt'' p then 1
      else if between ''.all_files/.files_'' ''.txt'' p then 3
      else 1)"

definition fields_ok :: "string \<Rightarrow> string \<Rightarrow> bool" where
  "fields_ok p l \<longleftrightarrow> min_fields p \<le> length (split_str l sp)"

definition wf_disk :: "files \<Rightarrow> bool" where
  "wf_disk f \<longleftrightarrow> files_ok f \<and> (\<forall>p. \<forall>l\<in>set (file_lines f p). fields_ok p l)"

text \<open>
  Names that do not collide with the file name schemes: no directory separator, and not ending in
  the suffix that turns one user's or group's file into another's.
\<close>

definition good_group :: "string \<Rightarrow> bool" where
  "good_group g \<longleftrightarrow> slash \<notin> set g \<and> \<not> suffix ''_files'' g"

definition good_user :: "string \<Rightarrow> bool" where
  "good_user u \<longleftrightarrow> slash \<notin> set u \<and> \<not> suffix ''_downloading'' u \<and> \<not> suffix ''_downloaded'' u"


section \<open>File names\<close>

lemma between_iff: "between a b p \<longleftrightarrow> (\<exists>x. p = a @ x @ b)"
proof
  assume "between a b p"
  then obtain s t where p: "p = a @ s" "p = t @ b" and len: "length a + length b \<le> length p"
    unfolding between_def prefix_def suffix_def by blast
  then have "length a + length b \<le> length t + length b" by (metis length_append)
  then have "length a \<le> length t" by simp
  moreover have "a @ s = t @ b" using p by simp
  ultimately have "\<exists>x. t = a @ x" by (auto simp: append_eq_append_conv2)
  then show "\<exists>x. p = a @ x @ b" using p by auto
next
  assume "\<exists>x. p = a @ x @ b"
  then show "between a b p" by (auto simp: between_def suffix_def)
qed

lemmas path_defs = credential_path_def online_path_def groups_path_def pending_path_def temp_path_def
  members_path_def shares_path_def user_path_def downloading_path_def downloaded_path_def

lemma path_inj [simp, path_simps]:
  "members_path g = members_path h \<longleftrightarrow> g = h"
  "shares_path g = shares_path h \<longleftrightarrow> g = h"
  "user_path u = user_path v \<longleftrightarrow> u = v"
  "downloading_path u = downloading_path v \<longleftrightarrow> u = v"
  "downloaded_path u = downloaded_path v \<longleftrightarrow> u = v"
  by (simp_all add: path_defs)

lemma path_constants [simp, path_simps]:
  "credential_path \<noteq> online_path" "credential_path \<noteq> groups_path" "credential_path \<noteq> pending_path"
  "online_path \<noteq> groups_path" "online_path \<noteq> pending_path" "groups_path \<noteq> pending_path"
  "temp_path \<noteq> credential_path" "temp_path \<noteq> online_path" "temp_path \<noteq> groups_path"
  "temp_path \<noteq> pending_path"
  by (simp_all add: path_defs)

lemma path_overlap:
  "members_path g = shares_path h \<longleftrightarrow> g = h @ ''_files''"
  "shares_path h = members_path g \<longleftrightarrow> g = h @ ''_files''"
  "user_path u = downloading_path v \<longleftrightarrow> u = v @ ''_downloading''"
  "user_path u = downloaded_path v \<longleftrightarrow> u = v @ ''_downloaded''"
  "downloading_path v = user_path u \<longleftrightarrow> u = v @ ''_downloading''"
  "downloaded_path v = user_path u \<longleftrightarrow> u = v @ ''_downloaded''"
  using append_same_eq [of g "''.txt''" "h @ ''_files''"]
    append_same_eq [of u "''.txt''" "v @ ''_downloading''"]
    append_same_eq [of u "''.txt''" "v @ ''_downloaded''"]
  by (auto simp: path_defs simp del: append_same_eq)

lemma download_paths_differ: "u @ ''_downloading.txt'' \<noteq> v @ ''_downloaded.txt''"
proof
  assume "u @ ''_downloading.txt'' = v @ ''_downloaded.txt''"
  then have "rev (u @ ''_downloading.txt'') = rev (v @ ''_downloaded.txt'')" by simp
  then show False by simp
qed

lemma paths_differ [simp, path_simps]:
  "members_path g \<noteq> credential_path" "members_path g \<noteq> online_path" "members_path g \<noteq> groups_path"
  "members_path g \<noteq> pending_path" "members_path g \<noteq> temp_path"
  "shares_path g \<noteq> credential_path" "shares_path g \<noteq> online_path" "shares_path g \<noteq> groups_path"
  "shares_path g \<noteq> pending_path" "shares_path g \<noteq> temp_path"
  "user_path u \<noteq> credential_path" "user_path u \<noteq> online_path" "user_path u \<noteq> groups_path"
  "user_path u \<noteq> pending_path" "user_path u \<noteq> temp_path"
  "downloading_path u \<noteq> credential_path" "downloading_path u \<noteq> online_path"
  "downloading_path u \<noteq> groups_path" "downloading_path u \<noteq> pending_path"
  "downloading_path u \<noteq> temp_path"
  "downloaded_path u \<noteq> credential_path" "downloaded_path u \<noteq> online_path"
  "downloaded_path u \<noteq> groups_path" "downloaded_path u \<noteq> pending_path"
  "downloaded_path u \<noteq> temp_path"
  "members_path g \<noteq> user_path u" "members_path g \<noteq> downloading_path u"
  "members_path g \<noteq> downloaded_path u"
  "shares_path g \<noteq> user_path u" "shares_path g \<noteq> downloading_path u"
  "shares_path g \<noteq> downloaded_path u"
  "downloading_path u \<noteq> downloaded_path v"
  using download_paths_differ [of u v] by (simp_all add: path_defs)

lemmas paths_differ_sym [simp, path_simps] = paths_differ [symmetric] path_constants [symmetric]

lemma good_group_paths [simp]:
  "good_group g \<Longrightarrow> members_path g \<noteq> shares_path h"
  "good_group g \<Longrightarrow> shares_path h \<noteq> members_path g"
  by (auto simp: path_overlap good_group_def suffix_def)

lemma good_user_paths [simp]:
  "good_user u \<Longrightarrow> user_path u \<noteq> downloading_path v"
  "good_user u \<Longrightarrow> user_path u \<noteq> downloaded_path v"
  "good_user u \<Longrightarrow> downloading_path v \<noteq> user_path u"
  "good_user u \<Longrightarrow> downloaded_path v \<noteq> user_path u"
  by (auto simp: path_overlap good_user_def suffix_def)

text \<open>Every file of a well-named user or group lies in \<open>.all_files\<close>.\<close>

lemma dirname_flat: "slash \<notin> set n \<Longrightarrow> dirname (''.all_files/'' @ n) = ''.all_files''"
proof -
  assume "slash \<notin> set n"
  then have "dropWhile (\<lambda>c. c \<noteq> slash) (rev n @ rev ''.all_files/'') =
      dropWhile (\<lambda>c. c \<noteq> slash) (rev ''.all_files/'')"
    by (intro dropWhile_append2) auto
  then show ?thesis by (simp add: dirname_def)
qed

lemma openable_flat: "files_ok f \<Longrightarrow> slash \<notin> set n \<Longrightarrow> openable f (''.all_files/'' @ n)"
  using dirname_flat [of n] by (simp add: openable_def files_ok_def)

lemma openable_paths [simp]:
  assumes "files_ok f"
  shows "openable f credential_path" "openable f online_path" "openable f groups_path"
    "openable f pending_path"
    "slash \<notin> set g \<Longrightarrow> openable f (members_path g)"
    "slash \<notin> set g \<Longrightarrow> openable f (shares_path g)"
    "slash \<notin> set u \<Longrightarrow> openable f (user_path u)"
    "slash \<notin> set u \<Longrightarrow> openable f (downloading_path u)"
    "slash \<notin> set u \<Longrightarrow> openable f (downloaded_path u)"
proof -
  have "openable f (''.all_files/'' @ n)" if "slash \<notin> set n" for n
    using that assms by (rule openable_flat [rotated])
  from this [of "''.credential.txt''"] this [of "''.online.txt''"] this [of "''.group.txt''"]
    this [of "''.pending.txt''"] this [of "''.group_'' @ g @ ''.txt''"]
    this [of "''.group_'' @ g @ ''_files.txt''"] this [of "''.files_'' @ u @ ''.txt''"]
    this [of "''.files_'' @ u @ ''_downloading.txt''"]
    this [of "''.files_'' @ u @ ''_downloaded.txt''"]
  show "openable f credential_path" "openable f online_path" "openable f groups_path"
    "openable f pending_path"
    "slash \<notin> set g \<Longrightarrow> openable f (members_path g)"
    "slash \<notin> set g \<Longrightarrow> openable f (shares_path g)"
    "slash \<notin> set u \<Longrightarrow> openable f (user_path u)"
    "slash \<notin> set u \<Longrightarrow> openable f (downloading_path u)"
    "slash \<notin> set u \<Longrightarrow> openable f (downloaded_path u)"
    by (simp_all add: path_defs)
qed


section \<open>Well-formed disks\<close>

lemma min_fields_simps [simp]:
  "min_fields online_path = 3"
  "min_fields groups_path = 2"
  "min_fields (shares_path g) = 4"
  "min_fields credential_path = 1"
  "min_fields pending_path = 1"
  "min_fields temp_path = 1"
  "min_fields (downloading_path u) = 1"
  "min_fields (downloaded_path u) = 1"
  by (auto simp: min_fields_def between_iff path_defs)

lemma min_fields_members [simp]:
  assumes "good_group g"
  shows "min_fields (members_path g) = 1"
proof -
  have "\<not> between ''.all_files/.group_'' ''_files.txt'' (members_path g)"
    using good_group_paths(1) [OF assms] by (auto simp: between_iff shares_path_def)
  then show ?thesis by (auto simp: min_fields_def between_iff path_defs)
qed

lemma min_fields_user [simp]:
  assumes "good_user u"
  shows "min_fields (user_path u) = 3"
proof -
  have "\<not> between ''.all_files/.files_'' ''_downloading.txt'' (user_path u)"
    "\<not> between ''.all_files/.files_'' ''_downloaded.txt'' (user_path u)"
    using good_user_paths(1,2) [OF assms]
    by (auto simp: between_iff downloading_path_def downloaded_path_def)
  then show ?thesis by (auto simp: min_fields_def between_iff path_defs)
qed

lemma fields_ok_one [simp]: "min_fields p = 1 \<Longrightarrow> fields_ok p l"
  using split_str_not_Nil [of l sp] by (simp add: fields_ok_def Suc_le_eq)

lemma fields_ok_join:
  "min_fields p \<le> length xs \<Longrightarrow> xs \<noteq> [] \<Longrightarrow> \<forall>x\<in>set xs. sp \<notin> set x \<Longrightarrow> fields_ok p (join sp xs)"
  by (simp add: fields_ok_def split_str_join)

lemma wf_field: "wf_disk f \<Longrightarrow> l \<in> set (file_lines f p) \<Longrightarrow> i < min_fields p
    \<Longrightarrow> field l i = Some (split_str l sp ! i)"
  by (force simp: wf_disk_def field_def fields_ok_def vec_at_def)

lemma wf_files_ok [simp]: "wf_disk f \<Longrightarrow> files_ok f"
  by (simp add: wf_disk_def)

lemma wf_create: "wf_disk f \<Longrightarrow> wf_disk (file_create f p)"
  by (cases "openable f p")
    (auto simp: wf_disk_def files_ok_create file_lines_create, simp_all add: file_create_def)

lemma wf_append:
  assumes "wf_disk f" "p \<noteq> temp_path" "nl \<notin> set l" "fields_ok p l"
  shows "wf_disk (file_append f p (endl l))"
proof (cases "openable f p")
  case True
  then show ?thesis using assms by (auto simp: wf_disk_def files_ok_append_endl file_lines_append)
next
  case False
  then show ?thesis using assms by (simp add: file_append_def)
qed

lemma wf_replace:
  assumes "wf_disk f" "p \<noteq> temp_path" "set ls \<subseteq> set (file_lines f p)"
  shows "wf_disk (replace_app f p ls)"
  using assms by (auto simp: wf_disk_def files_ok_replace file_lines_replace)

lemma wf_make_dir: "wf_disk f \<Longrightarrow> wf_disk (make_dir f d)"
  by (auto simp: wf_disk_def files_ok_def make_dir_def openable_def file_lines_def)

lemmas wf_intros = wf_create wf_append wf_replace wf_make_dir

end
