(* ===== verification/Tracker_Sync.thy ===== *)
theory Tracker_Sync
  imports Tracker_State
begin

text \<open>
  tracker/trackersync.cpp: pushing one file to the sibling tracker (\<open>Sync\<close>), asking it for its
  whole directory (\<open>SyncAll\<close>, \<open>SyncAllHandler\<close>), and receiving one file (\<open>SyncRecv\<close>).

  \<open>Sync\<close> appends to the outbox the dispatch message and the payloads it passes to
  \<open>TLSSendRaw\<close>: the file in blocks of at most \<open>MAX_SIZE\<close> bytes and then \<open>Sync Over\<close>.
  \<open>SyncRecv\<close> reads with \<open>TLSRecvRaw\<close> until a read returns exactly \<open>Sync Over\<close>; the loop is a
  partial function because nothing else ends it. The one-byte acknowledgements only pace the two
  sides and are not part of the model. The section on the transfer shows that a file whose last line is
  terminated arrives unchanged over the record channel, and that a connection which breaks first
  leaves the receiver in its loop forever.
\<close>


section \<open>Definitions\<close>

definition MAX_SIZE :: nat where
  "MAX_SIZE = 65535"

definition GetTracker2 :: "int \<Rightarrow> int" where
  "GetTracker2 mysequence_i = (if mysequence_i \<noteq> 0 then 0 else 1)"

definition IsOnline :: "tracker \<Rightarrow> bool" where
  "IsOnline t \<longleftrightarrow> link t \<noteq> Offline"

definition sync_over :: string where
  "sync_over = ''Sync Over''"

text \<open>The payloads \<open>Sync\<close> passes to \<open>TLSSendRaw\<close> for a file with these bytes.\<close>

definition sync_payloads :: "string \<Rightarrow> string list" where
  "sync_payloads s = pieces MAX_SIZE s @ [sync_over]"

text \<open>
  A missing file gives a null \<open>FILE*\<close>, which \<open>fclose\<close> (handshake failed) or \<open>fread\<close> then
  dereferences; a refused second \<open>connect\<close> ends the process.
\<close>

definition Sync :: "string \<Rightarrow> tracker \<Rightarrow> tracker option" where
  "Sync filename t =
     (if \<not> IsOnline t then Some t
      else case link t of
        Refused \<Rightarrow> None
      | _ \<Rightarrow>
          (case content (disk t) filename of
             None \<Rightarrow> None
           | Some s \<Rightarrow>
               if link t = NoTLS then Some t
               else Some (t\<lparr>outbox := outbox t @ [(''Sync '' @ filename, sync_payloads s)]\<rparr>)))"

definition SyncAll :: "tracker \<Rightarrow> tracker option" where
  "SyncAll t =
     (if \<not> IsOnline t then Some t
      else case link t of
        Refused \<Rightarrow> None
      | NoTLS \<Rightarrow> Some t
      | _ \<Rightarrow> Some (t\<lparr>outbox := outbox t @ [(''SyncAll'', [])]\<rparr>))"

text \<open>The loop of \<open>SyncAllHandler\<close> over the entries \<open>readdir\<close> returns.\<close>

fun SyncAllHandler :: "string list \<Rightarrow> tracker \<Rightarrow> tracker option" where
  "SyncAllHandler [] t = Some t"
| "SyncAllHandler (e # es) t =
     (if e = ''.'' \<or> e = ''..'' then SyncAllHandler es t
      else do { t \<leftarrow> Sync (''.all_files'' @ ''/'' @ e) t; SyncAllHandler es t })"

text \<open>
  The same loop in answer to a tracker that is starting. \<open>main\<close> sends \<open>SyncAll\<close> before it creates the
  thread of \<open>TrackerServer\<close>, and every \<open>Sync\<close> asks anew whether the other tracker accepts a connection:
  the first \<open>k\<close> entries come too early, from then on it listens.
\<close>

definition SyncAllHandler_racing :: "nat \<Rightarrow> string list \<Rightarrow> tracker \<Rightarrow> tracker option" where
  "SyncAllHandler_racing k es t =
     do {
       t \<leftarrow> SyncAllHandler (take k es) (t\<lparr>link := Offline\<rparr>);
       SyncAllHandler (drop k es) (t\<lparr>link := Online\<rparr>)
     }"

text \<open>
  The loop of \<open>SyncRecv\<close>: \<open>None\<close> when it never ends. A failed read returns the empty string and
  does not end it.
\<close>

partial_function (option) SyncRecv_loop ::
  "('c \<Rightarrow> nat \<Rightarrow> string \<times> 'c) \<Rightarrow> 'c \<Rightarrow> string \<Rightarrow> string option" where
  "SyncRecv_loop rd c out =
     (if fst (TLSRecvRaw rd c MAX_SIZE) = sync_over then Some out
      else SyncRecv_loop rd (snd (TLSRecvRaw rd c MAX_SIZE)) (out @ fst (TLSRecvRaw rd c MAX_SIZE)))"

definition SyncRecv ::
  "('c \<Rightarrow> nat \<Rightarrow> string \<times> 'c) \<Rightarrow> 'c \<Rightarrow> string \<Rightarrow> tracker \<Rightarrow> tracker option" where
  "SyncRecv rd c filename t =
     map_option
       (\<lambda>out. t\<lparr>disk := file_append (file_create (disk t) filename) filename out\<rparr>)
       (SyncRecv_loop rd c [])"

text \<open>The records in flight after a list of payloads was written to the record channel.\<close>

definition send_records :: "string list \<Rightarrow> string list" where
  "send_records ps = concat (map (pieces TLS_RECORD) ps)"


text \<open>What a list of \<open>Sync\<close> calls sends.\<close>

definition pushed :: "link \<Rightarrow> files \<Rightarrow> string list \<Rightarrow> (string \<times> string list) list" where
  "pushed l f ps =
     (if l = Online then map (\<lambda>p. (''Sync '' @ p, sync_payloads (the (content f p)))) ps else [])"


section \<open>Effects of Sync\<close>

text \<open>
  \<open>Sync\<close> changes the outbox and nothing else, and it is defined when the file exists and no
  second connection is refused.
\<close>

lemma Sync_ok:
  "link t \<noteq> Refused \<Longrightarrow> exists_file (disk t) p \<Longrightarrow>
     Sync p t = Some (t\<lparr>outbox := outbox t @ pushed (link t) (disk t) [p]\<rparr>)"
  by (cases "link t")
    (auto simp: Sync_def IsOnline_def exists_file_def pushed_def)

lemma Sync_Some: "Sync p t = Some t' \<Longrightarrow> t' = t\<lparr>outbox := outbox t'\<rparr>"
  by (auto simp: Sync_def split: if_splits option.splits link.splits)

lemma Sync_Offline [simp]: "link t = Offline \<Longrightarrow> Sync p t = Some t"
  by (simp add: Sync_def IsOnline_def)

lemma Sync_Online [simp]:
  "link t = Online \<Longrightarrow> content (disk t) p = Some s \<Longrightarrow>
     Sync p t = Some (t\<lparr>outbox := outbox t @ [(''Sync '' @ p, sync_payloads s)]\<rparr>)"
  by (simp add: Sync_def IsOnline_def)

text \<open>Several \<open>Sync\<close> calls in a row.\<close>

fun Syncs :: "string list \<Rightarrow> tracker \<Rightarrow> tracker option" where
  "Syncs [] t = Some t"
| "Syncs (p # ps) t = do { t \<leftarrow> Sync p t; Syncs ps t }"

lemma pushed_append: "pushed l f (ps @ qs) = pushed l f ps @ pushed l f qs"
  by (simp add: pushed_def)

lemma Syncs_ok:
  "link t \<noteq> Refused \<Longrightarrow> \<forall>p\<in>set ps. exists_file (disk t) p \<Longrightarrow>
     Syncs ps t = Some (t\<lparr>outbox := outbox t @ pushed (link t) (disk t) ps\<rparr>)"
proof (induction ps arbitrary: t)
  case Nil
  then show ?case by (simp add: pushed_def)
next
  case (Cons p ps)
  then show ?case using Sync_ok [of t p] pushed_append [of "link t" "disk t" "[p]" ps] by simp
qed

lemma Syncs_Some: "Syncs ps t = Some t' \<Longrightarrow> t' = t\<lparr>outbox := outbox t'\<rparr>"
proof (induction ps arbitrary: t)
  case (Cons p ps)
  then obtain u where u: "Sync p t = Some u" "Syncs ps u = Some t'"
    by (auto simp: bind_Some_conv)
  have "u\<lparr>outbox := ob\<rparr> = t\<lparr>outbox := ob\<rparr>" for ob
    by (subst Sync_Some [OF u(1)]) simp
  then show ?case using Cons.IH [OF u(2)] by simp
qed simp

lemma Syncs_Offline [simp]: "link t = Offline \<Longrightarrow> Syncs ps t = Some t"
  by (induction ps) auto

declare Syncs.simps [simp del]

lemma Syncs_one [simp]: "Syncs [p] t = Sync p t"
  by (cases "Sync p t") (simp_all add: Syncs.simps)


section \<open>The transfer of one file\<close>

lemma TLSRecvRaw_record:
  "r \<noteq> [] \<Longrightarrow> length r \<le> MAX_SIZE \<Longrightarrow> TLSRecvRaw record_read (r # rs) MAX_SIZE = (r, rs)"
  by (simp add: TLSRecvRaw_def)

lemma SyncRecv_loop_over:
  "SyncRecv_loop record_read (sync_over # rs) out = Some out"
proof -
  have "TLSRecvRaw record_read (sync_over # rs) MAX_SIZE = (sync_over, rs)"
    by (rule TLSRecvRaw_record) (simp_all add: sync_over_def MAX_SIZE_def)
  then show ?thesis by (subst SyncRecv_loop.simps) simp
qed

lemma SyncRecv_loop_step:
  "r \<noteq> [] \<Longrightarrow> length r \<le> MAX_SIZE \<Longrightarrow> r \<noteq> sync_over \<Longrightarrow>
     SyncRecv_loop record_read (r # rs) out = SyncRecv_loop record_read rs (out @ r)"
  by (subst SyncRecv_loop.simps) (simp add: TLSRecvRaw_record)

lemma SyncRecv_loop_records:
  "\<forall>r\<in>set rs. r \<noteq> [] \<and> length r \<le> MAX_SIZE \<and> r \<noteq> sync_over \<Longrightarrow>
     SyncRecv_loop record_read (rs @ sync_over # rest) out = Some (out @ concat rs)"
  by (induction rs arbitrary: out) (auto simp: SyncRecv_loop_over SyncRecv_loop_step)

lemma pieces_last:
  "pieces k s \<noteq> [] \<Longrightarrow> last (last (pieces k s)) = last s"
proof (induction s rule: length_induct)
  case (1 s)
  then have s: "s \<noteq> []" "k \<noteq> 0" by (auto simp: pieces.simps [of k s] split: if_splits)
  show ?case
  proof (cases "length s \<le> k")
    case True
    then show ?thesis using s by (simp add: pieces.simps [of k s] pieces.simps [of k "[]"])
  next
    case False
    then have "pieces k (drop k s) \<noteq> []" using s by (simp add: pieces.simps [of k "drop k s"])
    then show ?thesis
      using 1 s False by (simp add: pieces.simps [of k s] last_drop)
  qed
qed

text \<open>Every block but the last is full.\<close>

lemma pieces_full: "r \<in> set (butlast (pieces k s)) \<Longrightarrow> length r = k"
proof (induction s rule: length_induct)
  case (1 s)
  show ?case
  proof (cases "s = [] \<or> k = 0 \<or> length s \<le> k")
    case True
    then show ?thesis
      using "1.prems" by (auto simp: pieces.simps [of k s] pieces.simps [of k "[]"] split: if_splits)
  next
    case False
    then have "length (drop k s) < length s" by simp
    moreover have "r = take k s \<or> r \<in> set (butlast (pieces k (drop k s)))"
      using "1.prems" False by (auto simp: pieces.simps [of k s] split: if_splits)
    ultimately show ?thesis using "1.IH" "1.prems" False by (metis length_take min.absorb2 nat_le_linear)
  qed
qed

lemma pieces_lengths: "r \<in> set (pieces k s) \<Longrightarrow> length r = k \<or> length r = length s mod k"
proof (induction s rule: length_induct)
  case (1 s)
  show ?case
  proof (cases "s = [] \<or> k = 0 \<or> length s < k")
    case True
    then show ?thesis
      using "1.prems" by (auto simp: pieces.simps [of k s] pieces.simps [of k "[]"] split: if_splits)
  next
    case False
    then have "length (drop k s) < length s" "length (drop k s) mod k = length s mod k"
      by (auto simp: le_mod_geq)
    moreover have "r = take k s \<or> r \<in> set (pieces k (drop k s))"
      using "1.prems" False by (auto simp: pieces.simps [of k s] split: if_splits)
    ultimately show ?thesis using "1.IH" False by (metis length_take min.absorb2 not_less)
  qed
qed

lemma pieces_not_over:
  assumes "r \<in> set (pieces k s)" "last s \<noteq> CHR ''r''" "k \<noteq> 9"
  shows "r \<noteq> sync_over"
proof -
  have ne: "pieces k s \<noteq> []" using assms(1) by auto
  then have "set (pieces k s) = insert (last (pieces k s)) (set (butlast (pieces k s)))"
    by (metis append_butlast_last_id list.set(1) list.simps(15) set_append sup_commute
        Un_insert_left sup_bot_left)
  then consider "r = last (pieces k s)" | "r \<in> set (butlast (pieces k s))" using assms(1) by auto
  then show ?thesis
  proof cases
    case 1
    then have "last r = last s" using pieces_last [OF ne] by simp
    then show ?thesis using assms(2) by (auto simp: sync_over_def)
  next
    case 2
    then show ?thesis using pieces_full assms(3) by (fastforce simp: sync_over_def)
  qed
qed

lemma send_records_simps:
  "send_records (ps @ [sync_over]) = send_records ps @ [sync_over]"
  by (simp add: send_records_def sync_over_def TLS_RECORD_def pieces.simps [of _ "_ # _"]
      pieces.simps [of _ "[]"])

lemma last_block: "b \<in> set (pieces k s) \<Longrightarrow> length b \<noteq> k \<Longrightarrow> last b = last s"
proof -
  assume b: "b \<in> set (pieces k s)" and len: "length b \<noteq> k"
  then have ne: "pieces k s \<noteq> []" by auto
  have "b \<notin> set (butlast (pieces k s))" using len pieces_full by blast
  then have "b = last (pieces k s)"
    using b ne by (metis append_butlast_last_id in_set_butlast_appendI set_ConsD set_append
        Un_iff list.set(1) empty_iff rotate1.simps(2) set_rotate1)
  then show ?thesis using pieces_last [OF ne] by simp
qed

text \<open>No record of a terminated file can be taken for the end marker.\<close>

lemma sync_records_not_over:
  assumes "terminated s" "r \<in> set (send_records (pieces MAX_SIZE s))"
  shows "r \<noteq> sync_over"
proof -
  from assms(2) obtain b where b: "b \<in> set (pieces MAX_SIZE s)" "r \<in> set (pieces TLS_RECORD b)"
    by (auto simp: send_records_def)
  have s: "last s = nl" using assms(1) b by (auto simp: terminated_def pieces.simps [of _ "[]"])
  show ?thesis
  proof (cases "length b = MAX_SIZE")
    case False
    then have "last b = nl" using last_block [OF b(1)] s by simp
    then show ?thesis using pieces_not_over [OF b(2)] by (simp add: TLS_RECORD_def)
  next
    case True
    \<comment> \<open>a full block is cut into records of 16384, 16384, 16384 and 16383 bytes\<close>
    have "length r \<noteq> length sync_over"
      using pieces_lengths [OF b(2)] True
      by (auto simp: TLS_RECORD_def MAX_SIZE_def sync_over_def)
    then show ?thesis by auto
  qed
qed

lemma sync_records_bound:
  "r \<in> set (send_records ps) \<Longrightarrow> r \<noteq> [] \<and> length r \<le> MAX_SIZE"
  using pieces_bound by (fastforce simp: send_records_def TLS_RECORD_def MAX_SIZE_def)

lemma concat_send_records: "concat (send_records ps) = concat ps"
  by (induction ps) (auto simp: send_records_def concat_pieces TLS_RECORD_def)

lemma SyncRecv_loop_payloads:
  assumes "terminated s"
  shows "SyncRecv_loop record_read (send_records (sync_payloads s) @ rest) out = Some (out @ s)"
proof -
  have "\<forall>r\<in>set (send_records (pieces MAX_SIZE s)). r \<noteq> [] \<and> length r \<le> MAX_SIZE \<and> r \<noteq> sync_over"
    using sync_records_bound sync_records_not_over [OF assms] by blast
  then show ?thesis
    by (simp add: sync_payloads_def send_records_simps SyncRecv_loop_records concat_send_records
        concat_pieces MAX_SIZE_def)
qed

lemma record_read_all: "\<forall>r\<in>set rs. r \<noteq> sync_over \<and> length r \<le> MAX_SIZE \<Longrightarrow>
   fst (TLSRecvRaw record_read rs MAX_SIZE) \<noteq> sync_over \<and>
   (\<forall>r\<in>set (snd (TLSRecvRaw record_read rs MAX_SIZE)). r \<noteq> sync_over \<and> length r \<le> MAX_SIZE)"
  by (induction rs) (auto simp: TLSRecvRaw_def sync_over_def split: prod.splits)

text \<open>A connection that ends before the end marker keeps the loop going forever.\<close>

lemma SyncRecv_loop_no_end:
  assumes "\<forall>r\<in>set rs. r \<noteq> sync_over \<and> length r \<le> MAX_SIZE"
  shows "SyncRecv_loop record_read rs out = None"
proof (rule ccontr)
  assume "SyncRecv_loop record_read rs out \<noteq> None"
  then obtain y where ret: "SyncRecv_loop record_read rs out = Some y" by auto
  let ?P = "\<lambda>rd c (out :: string) (y :: string).
    rd = record_read \<longrightarrow> \<not> (\<forall>r\<in>set c. r \<noteq> sync_over \<and> length r \<le> MAX_SIZE)"
  have "?P record_read rs out y"
  proof (rule SyncRecv_loop.raw_induct [where P = ?P, OF _ ret])
    fix f :: "(string list \<Rightarrow> nat \<Rightarrow> string \<times> string list) \<Rightarrow> string list \<Rightarrow> string \<Rightarrow> string option"
      and rd c out y
    assume IH: "\<And>rd c out y. f rd c out = Some y \<Longrightarrow> ?P rd c out y"
      and eq: "(if fst (TLSRecvRaw rd c MAX_SIZE) = sync_over then Some out
         else f rd (snd (TLSRecvRaw rd c MAX_SIZE)) (out @ fst (TLSRecvRaw rd c MAX_SIZE))) = Some y"
    show "?P rd c out y"
    proof (intro impI notI)
      assume rd: "rd = record_read" and c: "\<forall>r\<in>set c. r \<noteq> sync_over \<and> length r \<le> MAX_SIZE"
      note step = record_read_all [OF c]
      have "f rd (snd (TLSRecvRaw rd c MAX_SIZE)) (out @ fst (TLSRecvRaw rd c MAX_SIZE)) = Some y"
        using eq step rd by simp
      from IH [OF this] show False using step rd by blast
    qed
  qed
  with assms show False by simp
qed

end
