(* ===== verification/Tracker_Store.thy ===== *)
theory Tracker_Store
  imports Tracker_Sync
begin

text \<open>
  The helpers of tracker/tracker.cpp that the request handlers share: password hashing, deleting
  lines from a file, the searches over a group's list of shared files, and reloading the
  in-memory tables from the disk (\<open>FetchDetails\<close>, \<open>FetchGroupMembers\<close>).
\<close>


section \<open>Definitions\<close>

subsection \<open>Passwords\<close>

definition GenerateSalt :: "env \<Rightarrow> string" where
  "GenerateSalt E = hex (rand_bytes E)"

definition HashPassword :: "env \<Rightarrow> string \<Rightarrow> string \<Rightarrow> string" where
  "HashPassword E salt password = hex (sha256 E (salt @ password))"

text \<open>
  \<open>sep=stored.find(':')\<close>, \<open>stored.substr(0,sep)\<close> and \<open>stored.substr(sep+1)\<close>; without a colon
  \<open>sep\<close> is \<open>npos\<close>, \<open>npos+1\<close> is 0, and both are the whole string.
\<close>

definition split_stored :: "string \<Rightarrow> string \<times> string" where
  "split_stored stored =
     (if CHR '':'' \<in> set stored
      then (takeWhile (\<lambda>c. c \<noteq> CHR '':'') stored, tl (dropWhile (\<lambda>c. c \<noteq> CHR '':'') stored))
      else (stored, stored))"

subsection \<open>Deleting lines\<close>

definition DeleteLine_field :: "string \<Rightarrow> string \<Rightarrow> nat \<Rightarrow> files \<Rightarrow> files option" where
  "DeleteLine_field filename data index f =
     do { kept \<leftarrow> filter_opt (\<lambda>line. map_option (\<lambda>x. x \<noteq> data) (field line index))
                    (file_lines f filename);
          Some (replace_app f filename kept) }"

definition DeleteLine :: "string \<Rightarrow> string \<Rightarrow> files \<Rightarrow> files" where
  "DeleteLine filename data f =
     replace_app f filename (filter (\<lambda>line. line \<noteq> data) (file_lines f filename))"

subsection \<open>Searching a group's shared files\<close>

definition CheckGroupFiles :: "string \<Rightarrow> string \<Rightarrow> string \<Rightarrow> files \<Rightarrow> bool option" where
  "CheckGroupFiles filehash filename username f =
     map_option (\<lambda>r. r \<noteq> None)
       (find_opt
          (\<lambda>line. do { h \<leftarrow> field line 0;
                       if h = filehash then do { u \<leftarrow> field line 2; Some (u = username) }
                       else Some False })
          (file_lines f filename))"

definition GetGroupFileName :: "string \<Rightarrow> string \<Rightarrow> files \<Rightarrow> string option" where
  "GetGroupFileName filehash filename f =
     do { r \<leftarrow> find_opt (\<lambda>line. do { h \<leftarrow> field line 0; Some (h = filehash) })
                 (file_lines f filename);
          case r of None \<Rightarrow> Some [] | Some line \<Rightarrow> field line 3 }"

definition CheckIntegrity :: "string \<Rightarrow> string \<Rightarrow> string \<Rightarrow> files \<Rightarrow> bool option" where
  "CheckIntegrity filehash filename upload_file f =
     map_option (\<lambda>r. r \<noteq> None)
       (find_opt
          (\<lambda>line. do { h \<leftarrow> field line 0;
                       if h \<noteq> filehash then do { n \<leftarrow> field line 3; Some (n = upload_file) }
                       else Some False })
          (file_lines f filename))"

subsection \<open>Reloading the tables\<close>

definition CheckDir :: "files \<Rightarrow> files" where
  "CheckDir f = (if ''.all_files'' \<in> dirs f then f else make_dir f ''.all_files'')"

text \<open>
  \<open>line_object>>line1; line_object>>line2;\<close> per line. The two variables are declared outside the
  loops: a line with fewer than two tokens keeps the values of the line before.
\<close>

fun read_pairs :: "string \<times> string \<Rightarrow> string list \<Rightarrow> (string \<times> string) list \<times> (string \<times> string)" where
  "read_pairs (line1, line2) [] = ([], (line1, line2))"
| "read_pairs (line1, line2) (line # ls) =
     (let (a, rest) = stream_get line1 line;
          b = fst (stream_get line2 rest);
          (ps, last_values) = read_pairs (a, b) ls
      in ((a, b) # ps, last_values))"

text \<open>\<open>m[k]=v\<close> for each pair, in order.\<close>

fun assign_all :: "('k \<times> 'v) list \<Rightarrow> ('k \<rightharpoonup> 'v) \<Rightarrow> ('k \<rightharpoonup> 'v)" where
  "assign_all [] m = m"
| "assign_all ((k, v) # kvs) m = assign_all kvs (m(k \<mapsto> v))"

definition open_or_create :: "string \<Rightarrow> files \<Rightarrow> files" where
  "open_or_create p f = (if content f p = None then file_create f p else f)"

definition online_entry :: "string \<Rightarrow> (string \<times> string \<times> string) option" where
  "online_entry line = do { u \<leftarrow> field line 0; a \<leftarrow> field line 1; b \<leftarrow> field line 2; Some (u, a, b) }"

definition group_entry :: "string \<Rightarrow> (string \<times> string) option" where
  "group_entry line = do { g \<leftarrow> field line 0; u \<leftarrow> field line 1; Some (g, u) }"

definition FetchDetails :: "tracker \<Rightarrow> tracker option" where
  "FetchDetails t =
     (let f0 = CheckDir (disk t);
          (cs, last_values) = read_pairs ([], []) (file_lines f0 credential_path);
          f1 = open_or_create credential_path f0
      in do {
        os \<leftarrow> map_opt online_entry (file_lines f1 online_path);
        let f2 = open_or_create online_path f1;
        gs \<leftarrow> map_opt group_entry (file_lines f2 groups_path);
        let f3 = open_or_create groups_path f2;
        let ps = fst (read_pairs last_values (file_lines f3 pending_path));
        let f4 = open_or_create pending_path f3;
        Some (t\<lparr>credentials := assign_all cs Map.empty,
                online := set (map fst os),
                online_users := assign_all os Map.empty,
                groups := assign_all gs Map.empty,
                pending_group_requests := set ps,
                disk := f4\<rparr>)
      })"

definition FetchGroupMembers :: "string \<Rightarrow> tracker \<Rightarrow> tracker" where
  "FetchGroupMembers group_name t =
     t\<lparr>group_members := set (file_lines (disk t) (members_path group_name))\<rparr>"


subsection \<open>The tables the disk holds\<close>

definition fld :: "string \<Rightarrow> nat \<Rightarrow> string" where
  "fld line i = split_str line sp ! i"

definition disk_credentials :: "files \<Rightarrow> (string \<rightharpoonup> string)" where
  "disk_credentials f = assign_all (fst (read_pairs ([], []) (file_lines f credential_path))) Map.empty"

definition disk_online :: "files \<Rightarrow> string set" where
  "disk_online f = set (map (\<lambda>l. fld l 0) (file_lines f online_path))"

definition disk_online_users :: "files \<Rightarrow> (string \<rightharpoonup> string \<times> string)" where
  "disk_online_users f =
     assign_all (map (\<lambda>l. (fld l 0, fld l 1, fld l 2)) (file_lines f online_path)) Map.empty"

definition disk_groups :: "files \<Rightarrow> (string \<rightharpoonup> string)" where
  "disk_groups f = assign_all (map (\<lambda>l. (fld l 0, fld l 1)) (file_lines f groups_path)) Map.empty"

definition disk_pending :: "files \<Rightarrow> (string \<times> string) set" where
  "disk_pending f =
     set (fst (read_pairs (snd (read_pairs ([], []) (file_lines f credential_path)))
            (file_lines f pending_path)))"

definition disk_members :: "files \<Rightarrow> string \<Rightarrow> string set" where
  "disk_members f g = set (file_lines f (members_path g))"


section \<open>Fields and lines\<close>

lemma field_fld: "i < length (split_str l sp) \<Longrightarrow> field l i = Some (fld l i)"
  by (simp add: field_def fld_def)

lemma field_SomeD: "field l i = Some x \<Longrightarrow> x = fld l i"
  by (auto simp: field_def fld_def vec_at_def split: if_splits)

lemma wf_fld: "wf_disk f \<Longrightarrow> l \<in> set (file_lines f p) \<Longrightarrow> i < min_fields p \<Longrightarrow> field l i = Some (fld l i)"
  by (simp add: wf_field fld_def)

lemma fld_join: "xs \<noteq> [] \<Longrightarrow> \<forall>x\<in>set xs. sp \<notin> set x \<Longrightarrow> fld (join sp xs) i = xs ! i"
  by (simp add: fld_def split_str_join)

lemma fld_sp_free: "i < length (split_str l sp) \<Longrightarrow> sp \<notin> set (fld l i)"
  using split_str_sep_free nth_mem by (fastforce simp: fld_def)

lemma assign_all_map_of: "assign_all kvs m = m ++ map_of (rev kvs)"
  by (induction kvs arbitrary: m) (auto simp: map_add_assoc map_add_upd_left)

lemma dom_assign_all [simp]: "dom (assign_all kvs m) = fst ` set kvs \<union> dom m"
  by (simp add: assign_all_map_of dom_map_of_conv_image_fst)

lemma assign_all_append [simp]: "assign_all (xs @ ys) m = assign_all ys (assign_all xs m)"
  by (induction xs arbitrary: m) auto

lemma assign_all_None: "assign_all kvs Map.empty k = None \<longleftrightarrow> k \<notin> fst ` set kvs"
  using dom_assign_all [of kvs Map.empty] by (metis domIff dom_empty sup_bot.right_neutral)

text \<open>Well-formed lines of two tokens are read back as they were written.\<close>

lemma read_pairs_line:
  assumes "token a" "a \<noteq> []" "token b" "b \<noteq> []"
  shows "read_pairs v (ls @ [join sp [a, b]]) =
    (fst (read_pairs v ls) @ [(a, b)], (a, b))"
proof (induction ls arbitrary: v)
  case Nil
  then show ?case using assms by (cases v) (simp add: Let_def)
next
  case (Cons l ls)
  then show ?case by (cases v) (simp add: Let_def case_prod_unfold)
qed

lemma read_pairs_append:
  "read_pairs v (ls @ ms) =
    (fst (read_pairs v ls) @ fst (read_pairs (snd (read_pairs v ls)) ms),
     snd (read_pairs (snd (read_pairs v ls)) ms))"
  by (induction v ls rule: read_pairs.induct) (simp_all add: Let_def case_prod_unfold)


section \<open>Reloading\<close>

lemma files_ok_CheckDir [simp]: "files_ok f \<Longrightarrow> CheckDir f = f"
  by (simp add: CheckDir_def files_ok_def)

lemma file_lines_CheckDir [simp]: "file_lines (CheckDir f) p = file_lines f p"
  by (simp add: CheckDir_def make_dir_def file_lines_def)

lemma file_lines_open_or_create [simp]: "file_lines (open_or_create p f) q = file_lines f q"
  by (auto simp: open_or_create_def file_lines_def file_create_def)

lemma wf_open_or_create: "wf_disk f \<Longrightarrow> wf_disk (open_or_create p f)"
  by (simp add: open_or_create_def wf_create)

lemma dirs_open_or_create [simp]: "dirs (open_or_create p f) = dirs f"
  by (simp add: open_or_create_def)

lemma open_or_create_exists [simp]: "exists_file f p \<Longrightarrow> open_or_create p f = f"
  by (auto simp: open_or_create_def exists_file_def)

lemma content_open_or_create:
  "content (open_or_create p f) q =
    (if q = p \<and> content f p = None \<and> openable f p then Some [] else content f q)"
  by (auto simp: open_or_create_def file_create_def)

lemma exists_open_or_create [simp]:
  "exists_file (open_or_create p f) q \<longleftrightarrow> exists_file f q \<or> (q = p \<and> openable f p)"
  by (auto simp: exists_file_def content_open_or_create)

text \<open>Only the lines of two files can make a reload fail.\<close>

lemma FetchDetails_tables:
  assumes "files_ok (disk t)" "\<forall>l\<in>set (file_lines (disk t) online_path). 3 \<le> length (split_str l sp)"
    "\<forall>l\<in>set (file_lines (disk t) groups_path). 2 \<le> length (split_str l sp)"
  shows "FetchDetails t = Some (t\<lparr>
    credentials := disk_credentials (disk t), online := disk_online (disk t),
    online_users := disk_online_users (disk t), groups := disk_groups (disk t),
    pending_group_requests := disk_pending (disk t),
    disk := open_or_create pending_path (open_or_create groups_path
      (open_or_create online_path (open_or_create credential_path (disk t))))\<rparr>)"
proof -
  let ?f = "disk t"
  have "map_opt online_entry (file_lines ?f online_path) =
      Some (map (\<lambda>l. (fld l 0, fld l 1, fld l 2)) (file_lines ?f online_path))"
    using assms(2) by (intro map_opt_total) (auto simp: online_entry_def field_def fld_def vec_at_def)
  moreover have "map_opt group_entry (file_lines ?f groups_path) =
      Some (map (\<lambda>l. (fld l 0, fld l 1)) (file_lines ?f groups_path))"
    using assms(3) by (intro map_opt_total) (auto simp: group_entry_def field_def fld_def vec_at_def)
  ultimately show ?thesis
    using assms(1)
    by (simp add: FetchDetails_def Let_def case_prod_unfold disk_credentials_def disk_online_def
        disk_online_users_def disk_groups_def disk_pending_def image_image)
qed

text \<open>The state after a reload, under one name, and what it keeps.\<close>

definition fetched :: "tracker \<Rightarrow> tracker" where
  "fetched t = t\<lparr>
    credentials := disk_credentials (disk t), online := disk_online (disk t),
    online_users := disk_online_users (disk t), groups := disk_groups (disk t),
    pending_group_requests := disk_pending (disk t),
    disk := open_or_create pending_path (open_or_create groups_path
      (open_or_create online_path (open_or_create credential_path (disk t))))\<rparr>"

lemma FetchDetails_fetched: "wf_disk (disk t) \<Longrightarrow> FetchDetails t = Some (fetched t)"
  unfolding fetched_def by (rule FetchDetails_tables) (force simp: wf_disk_def fields_ok_def)+

lemma fetched_simps [simp]:
  "credentials (fetched t) = disk_credentials (disk t)"
  "online (fetched t) = disk_online (disk t)"
  "online_users (fetched t) = disk_online_users (disk t)"
  "groups (fetched t) = disk_groups (disk t)"
  "pending_group_requests (fetched t) = disk_pending (disk t)"
  "group_members (fetched t) = group_members t"
  "link (fetched t) = link t"
  "outbox (fetched t) = outbox t"
  "file_lines (disk (fetched t)) p = file_lines (disk t) p"
  by (simp_all add: fetched_def)

lemma disk_tables_cong:
  assumes "\<And>p. p \<in> {credential_path, online_path, groups_path, pending_path} \<Longrightarrow>
    file_lines f p = file_lines g p"
  shows "disk_credentials f = disk_credentials g" "disk_online f = disk_online g"
    "disk_online_users f = disk_online_users g" "disk_groups f = disk_groups g"
    "disk_pending f = disk_pending g"
  using assms
  by (simp_all add: disk_credentials_def disk_online_def disk_online_users_def disk_groups_def
      disk_pending_def)

lemma disk_fetched [simp]:
  "disk_credentials (disk (fetched t)) = disk_credentials (disk t)"
  "disk_online (disk (fetched t)) = disk_online (disk t)"
  "disk_online_users (disk (fetched t)) = disk_online_users (disk t)"
  "disk_groups (disk (fetched t)) = disk_groups (disk t)"
  "disk_pending (disk (fetched t)) = disk_pending (disk t)"
  "disk_members (disk (fetched t)) g = disk_members (disk t) g"
  by (simp_all add: disk_credentials_def disk_online_def disk_online_users_def disk_groups_def
      disk_pending_def disk_members_def)

lemma wf_fetched [simp]: "wf_disk (disk t) \<Longrightarrow> wf_disk (disk (fetched t))"
  by (simp add: fetched_def wf_open_or_create)

lemma openable_open_or_create [simp]: "openable (open_or_create p f) q = openable f q"
  by (simp add: open_or_create_def)

lemma exists_fetched [simp]:
  "wf_disk (disk t) \<Longrightarrow> exists_file (disk (fetched t)) p \<longleftrightarrow>
     exists_file (disk t) p \<or> p \<in> {credential_path, online_path, groups_path, pending_path}"
  by (auto simp: fetched_def)

lemma openable_fetched [simp]: "openable (disk (fetched t)) p = openable (disk t) p"
  by (simp add: fetched_def)

lemma FetchGroupMembers_simps [simp]:
  "group_members (FetchGroupMembers g t) = disk_members (disk t) g"
  "disk (FetchGroupMembers g t) = disk t"
  "link (FetchGroupMembers g t) = link t"
  "outbox (FetchGroupMembers g t) = outbox t"
  "groups (FetchGroupMembers g t) = groups t"
  "online (FetchGroupMembers g t) = online t"
  "online_users (FetchGroupMembers g t) = online_users t"
  "credentials (FetchGroupMembers g t) = credentials t"
  "pending_group_requests (FetchGroupMembers g t) = pending_group_requests t"
  by (simp_all add: FetchGroupMembers_def disk_members_def)


section \<open>Deleting and searching\<close>

lemma DeleteLine_field_wf:
  assumes "wf_disk f" "index < min_fields p"
  shows "DeleteLine_field p data index f =
    Some (replace_app f p (filter (\<lambda>l. fld l index \<noteq> data) (file_lines f p)))"
proof -
  have "filter_opt (\<lambda>line. map_option (\<lambda>x. x \<noteq> data) (field line index)) (file_lines f p) =
      Some (filter (\<lambda>l. fld l index \<noteq> data) (file_lines f p))"
    using wf_fld [OF assms(1) _ assms(2)] by (intro filter_opt_total) auto
  then show ?thesis by (simp add: DeleteLine_field_def)
qed

lemma file_lines_DeleteLine [simp]:
  assumes "files_ok f" "p \<noteq> temp_path"
  shows "file_lines (DeleteLine p data f) q =
    (if q = p then filter (\<lambda>l. l \<noteq> data) (file_lines f p) else file_lines f q)"
  using assms by (simp add: DeleteLine_def file_lines_replace)

lemma wf_DeleteLine: "wf_disk f \<Longrightarrow> p \<noteq> temp_path \<Longrightarrow> wf_disk (DeleteLine p data f)"
  by (simp add: DeleteLine_def wf_replace)

lemma CheckGroupFiles_wf:
  assumes "wf_disk f"
  shows "CheckGroupFiles h (shares_path g) u f =
    Some (\<exists>l\<in>set (file_lines f (shares_path g)). fld l 0 = h \<and> fld l 2 = u)"
proof -
  have "\<forall>l\<in>set (file_lines f (shares_path g)).
      do { h' \<leftarrow> field l 0; if h' = h then do { u' \<leftarrow> field l 2; Some (u' = u) } else Some False }
      = Some (fld l 0 = h \<and> fld l 2 = u)"
    using wf_fld [OF assms] by simp
  from find_opt_total [OF this] show ?thesis
    by (simp add: CheckGroupFiles_def find_hit)
qed

lemma GetGroupFileName_wf:
  assumes "wf_disk f"
  shows "GetGroupFileName h (shares_path g) f =
    Some (case find (\<lambda>l. fld l 0 = h) (file_lines f (shares_path g)) of
            None \<Rightarrow> [] | Some l \<Rightarrow> fld l 3)"
proof -
  have "\<forall>l\<in>set (file_lines f (shares_path g)).
      do { h' \<leftarrow> field l 0; Some (h' = h) } = Some (fld l 0 = h)"
    using wf_fld [OF assms] by simp
  from find_opt_total [OF this] show ?thesis
    using wf_fld [OF assms]
    by (auto simp: GetGroupFileName_def dest: find_SomeD split: option.splits)
qed

lemma CheckIntegrity_wf:
  assumes "wf_disk f"
  shows "CheckIntegrity h (shares_path g) n f =
    Some (\<exists>l\<in>set (file_lines f (shares_path g)). fld l 0 \<noteq> h \<and> fld l 3 = n)"
proof -
  have "\<forall>l\<in>set (file_lines f (shares_path g)).
      do { h' \<leftarrow> field l 0; if h' \<noteq> h then do { n' \<leftarrow> field l 3; Some (n' = n) } else Some False }
      = Some (fld l 0 \<noteq> h \<and> fld l 3 = n)"
    using wf_fld [OF assms] by simp
  from find_opt_total [OF this] show ?thesis
    by (simp add: CheckIntegrity_def find_hit)
qed

text \<open>The hash parts of a stored credential.\<close>

lemma split_stored_salt: "split_stored (hex s @ CHR '':'' # hex h) = (hex s, hex h)"
proof -
  have "CHR '':'' \<notin> set (hex s)" using hex_alphabet by blast
  then show ?thesis by (simp add: split_stored_def while_sep)
qed

end
