(* ===== verification/Tracker_Users.thy ===== *)
theory Tracker_Users
  imports Tracker_Store
begin

text \<open>
  The account handlers of tracker/tracker.cpp: \<open>UserLogin\<close>, \<open>UserCreate\<close>, \<open>Logout\<close> and
  \<open>SendDetails\<close> (the address of an online user). Passwords are stored as
  \<open>salt:sha256(salt+password)\<close> in hexadecimal. The arguments that a handler never reads (the socket, the
  \<open>Message\<close> pointer) are left out.
\<close>


section \<open>Definitions\<close>

text \<open>\<open>outfile<<command1<<" "<<command4<<" "<<command3<<endl\<close> on the list of online users.\<close>

definition add_online :: "string \<Rightarrow> string \<Rightarrow> string \<Rightarrow> tracker \<Rightarrow> tracker" where
  "add_online command1 command3 command4 t =
     t\<lparr>online := insert command1 (online t),
       disk := file_append (disk t) online_path (endl (join sp [command1, command4, command3]))\<rparr>"

definition UserLogin ::
  "env \<Rightarrow> string \<Rightarrow> string \<Rightarrow> string \<Rightarrow> string \<Rightarrow> tracker \<Rightarrow> (bool \<times> tracker) option" where
  "UserLogin E command1 command2 command3 command4 t =
     do {
       t \<leftarrow> FetchDetails t;
       case credentials t command1 of
         None \<Rightarrow> Some (False, t)
       | Some stored \<Rightarrow>
           let (salt, stored_hash) = split_stored stored in
           if HashPassword E salt command2 = stored_hash then
             if command1 \<notin> online t then
               do { t \<leftarrow> Sync online_path (add_online command1 command3 command4 t);
                    Some (True, t) }
             else Some (True, t)
           else Some (False, t)
     }"

text \<open>The line of \<open>UserCreate\<close> for the credential file.\<close>

definition credential_line :: "env \<Rightarrow> string \<Rightarrow> string \<Rightarrow> string" where
  "credential_line E user password =
     join sp [user, GenerateSalt E @ '':'' @ HashPassword E (GenerateSalt E) password]"

definition UserCreate ::
  "env \<Rightarrow> string \<Rightarrow> string \<Rightarrow> string \<Rightarrow> string \<Rightarrow> tracker \<Rightarrow> (bool \<times> tracker) option" where
  "UserCreate E command1 command2 command3 command4 t =
     do {
       t \<leftarrow> FetchDetails t;
       if credentials t command1 = None then
         let t = add_online command1 command3 command4 t;
             f = file_append (disk t) credential_path (endl (credential_line E command1 command2));
             f = file_create f (user_path command1);
             f = file_create f (downloading_path command1);
             f = file_create f (downloaded_path command1)
         in do {
           t \<leftarrow> Syncs [online_path, credential_path, user_path command1,
                        downloading_path command1, downloaded_path command1] (t\<lparr>disk := f\<rparr>);
           t \<leftarrow> FetchDetails t;
           Some (True, t)
         }
       else Some (False, t)
     }"

definition Logout :: "string \<Rightarrow> tracker \<Rightarrow> (bool \<times> tracker) option" where
  "Logout command1 t =
     do {
       t \<leftarrow> FetchDetails t;
       if command1 \<in> online t then
         do {
           f \<leftarrow> DeleteLine_field online_path command1 0 (disk t);
           t \<leftarrow> Sync online_path (t\<lparr>disk := f\<rparr>);
           t \<leftarrow> FetchDetails t;
           Some (True, t)
         }
       else Some (False, t)
     }"

text \<open>\<open>online_users[command1]\<close> inserts a pair of empty strings for an unknown user.\<close>

definition SendDetails :: "string \<Rightarrow> tracker \<Rightarrow> (string \<times> tracker) option" where
  "SendDetails command1 t =
     do {
       t \<leftarrow> FetchDetails t;
       let (a, b) = (case online_users t command1 of None \<Rightarrow> ([], []) | Some p \<Rightarrow> p);
       Some (a @ [sp] @ b, t\<lparr>online_users := (online_users t)(command1 \<mapsto> (a, b))\<rparr>)
     }"


section \<open>Invariants of a tracker\<close>

text \<open>
  What keeps a handler inside defined behaviour. The four files of the tables exist because
  \<open>main\<close> calls \<open>FetchDetails\<close> before it serves requests.
\<close>

definition base_files :: "string set" where
  "base_files = {credential_path, online_path, groups_path, pending_path}"

definition tracker_inv :: "tracker \<Rightarrow> bool" where
  "tracker_inv t \<longleftrightarrow>
     wf_disk (disk t) \<and> (\<forall>p\<in>base_files. exists_file (disk t) p) \<and> link t \<noteq> Refused"

text \<open>
  What the handlers that do not reload rely on: the cached tables agree with the disk, except that
  the set of pending requests may still hold requests of users who have become members.
\<close>

definition coherent :: "tracker \<Rightarrow> bool" where
  "coherent t \<longleftrightarrow>
     credentials t = disk_credentials (disk t) \<and>
     groups t = disk_groups (disk t) \<and>
     online t = disk_online (disk t) \<and>
     disk_pending (disk t) \<subseteq> pending_group_requests t \<and>
     (\<forall>(u, g) \<in> pending_group_requests t. 
        (u, g) \<in> disk_pending (disk t) \<or> good_group g \<and> u \<in> disk_members (disk t) g)"

lemma coherent_fetched [simp]: "coherent (fetched t)"
  by (auto simp: coherent_def)

text \<open>A change outside the files of the tables that takes no requester's membership away.\<close>

lemma coherent_cong:
  assumes "coherent t"
    and "credentials t' = credentials t" "groups t' = groups t" "online t' = online t"
      "pending_group_requests t' = pending_group_requests t"
    and "\<And>p. p \<in> base_files \<Longrightarrow> file_lines (disk t') p = file_lines (disk t) p"
    and "\<And>u g. (u, g) \<in> pending_group_requests t \<Longrightarrow> good_group g \<Longrightarrow> u \<in> disk_members (disk t) g \<Longrightarrow>
      u \<in> disk_members (disk t') g"
  shows "coherent t'"
proof -
  have "disk_credentials (disk t') = disk_credentials (disk t)"
    "disk_online (disk t') = disk_online (disk t)"
    "disk_groups (disk t') = disk_groups (disk t)" "disk_pending (disk t') = disk_pending (disk t)"
    using assms(6) disk_tables_cong [of "disk t'" "disk t"] by (auto simp: base_files_def)
  then show ?thesis using assms by (fastforce simp: coherent_def)
qed

lemma disk_fetched_inv [simp]: "tracker_inv t \<Longrightarrow> disk (fetched t) = disk t"
  by (simp add: tracker_inv_def base_files_def fetched_def)

lemma tracker_inv_fetched [simp]: "tracker_inv t \<Longrightarrow> tracker_inv (fetched t)"
  by (simp add: tracker_inv_def)

lemma tracker_invD:
  assumes "tracker_inv t"
  shows "wf_disk (disk t)" "files_ok (disk t)" "link t \<noteq> Refused"
    "FetchDetails t = Some (fetched t)" "disk (fetched t) = disk t"
    "p \<in> base_files \<Longrightarrow> exists_file (disk t) p"
  using assms disk_fetched_inv [OF assms] by (simp_all add: tracker_inv_def FetchDetails_fetched)

lemma base_not_temp [simp]: "temp_path \<notin> base_files"
  by (auto simp: base_files_def)

lemma outbox_irrelevant [simp]:
  "tracker_inv (t\<lparr>outbox := ob\<rparr>) = tracker_inv t"
  "coherent (t\<lparr>outbox := ob\<rparr>) = coherent t"
  by (simp_all add: tracker_inv_def coherent_def)


text \<open>
  The three moves handlers are made of: append a line, rewrite a file to some of its lines, and
  push the changed files to the sibling.
\<close>

lemma append_step:
  assumes "wf_disk f" "openable f p" "p \<noteq> temp_path" "nl \<notin> set l" "fields_ok p l"
  shows "wf_disk (file_append f p (endl l))"
    "file_lines (file_append f p (endl l)) = (file_lines f)(p := file_lines f p @ [l])"
    "exists_file f q \<or> q = p \<Longrightarrow> exists_file (file_append f p (endl l)) q"
  using assms by (auto simp: wf_append fun_eq_iff file_lines_append)

lemma replace_step:
  assumes "wf_disk f" "openable f p" "p \<noteq> temp_path" "set ls \<subseteq> set (file_lines f p)"
  shows "wf_disk (replace_app f p ls)"
    "file_lines (replace_app f p ls) = (file_lines f)(p := ls)"
    "q \<noteq> temp_path \<Longrightarrow> exists_file f q \<or> q = p \<Longrightarrow> exists_file (replace_app f p ls) q"
  using assms by (auto simp: wf_replace fun_eq_iff file_lines_replace exists_file_replace)

lemma commit_step:
  assumes "link t \<noteq> Refused" "wf_disk f" "\<forall>p\<in>base_files \<union> set ps. exists_file f p"
  obtains ob where "Syncs ps (t\<lparr>disk := f\<rparr>) = Some (t\<lparr>disk := f, outbox := ob\<rparr>)"
    "tracker_inv (t\<lparr>disk := f, outbox := ob\<rparr>)" "ob = outbox t @ pushed (link t) f ps"
proof -
  have "Syncs ps (t\<lparr>disk := f\<rparr>) = Some (t\<lparr>disk := f, outbox := outbox t @ pushed (link t) f ps\<rparr>)"
    using Syncs_ok [of "t\<lparr>disk := f\<rparr>" ps] assms by simp
  moreover have "tracker_inv (t\<lparr>disk := f, outbox := ob\<rparr>)" for ob
    using assms by (simp add: tracker_inv_def)
  ultimately show thesis using that by blast
qed

text \<open>
  Every file a step changed has been pushed to the sibling, as it is at the end of the step, under a
  name that survives the dispatch message.
\<close>

definition push_ok :: "string \<Rightarrow> bool" where
  "push_ok p \<longleftrightarrow> token p \<and> dirname p = ''.all_files'' \<and> p \<noteq> temp_path"

definition replicates :: "tracker \<Rightarrow> tracker \<Rightarrow> bool" where
  "replicates t t' \<longleftrightarrow>
     link t' = link t \<and>
     (\<exists>ps. outbox t' = outbox t @ pushed (link t) (disk t') ps \<and>
        (\<forall>p\<in>set ps. push_ok p \<and> exists_file (disk t') p) \<and>
        (\<forall>p. p \<notin> set ps \<longrightarrow> file_lines (disk t') p = file_lines (disk t) p))"

lemma push_ok_paths [simp]:
  "push_ok credential_path" "push_ok online_path" "push_ok groups_path" "push_ok pending_path"
  "token g \<Longrightarrow> slash \<notin> set g \<Longrightarrow> push_ok (members_path g)"
  "token g \<Longrightarrow> slash \<notin> set g \<Longrightarrow> push_ok (shares_path g)"
  "token u \<Longrightarrow> slash \<notin> set u \<Longrightarrow> push_ok (user_path u)"
  "token u \<Longrightarrow> slash \<notin> set u \<Longrightarrow> push_ok (downloading_path u)"
  "token u \<Longrightarrow> slash \<notin> set u \<Longrightarrow> push_ok (downloaded_path u)"
proof -
  have lit: "token (''.all_files/'' @ n)" if "token n" for n
    using that by (simp add: token_def is_space_def)
  have ok: "token (''.all_files/'' @ n) \<and> dirname (''.all_files/'' @ n) = ''.all_files''"
    if "token n" "slash \<notin> set n" for n
    using that lit [of n] dirname_flat [of n] by simp
  have tk: "token ''.credential.txt''" "token ''.online.txt''" "token ''.group.txt''"
    "token ''.pending.txt''" "token ''.group_''" "token ''.txt''" "token ''_files.txt''"
    "token ''.files_''" "token ''_downloading.txt''" "token ''_downloaded.txt''"
    by (simp_all add: token_def is_space_def)
  show "push_ok credential_path" "push_ok online_path" "push_ok groups_path" "push_ok pending_path"
    using ok [OF tk(1)] ok [OF tk(2)] ok [OF tk(3)] ok [OF tk(4)] by (simp_all add: push_ok_def) (simp_all add: path_defs)
  show "push_ok (members_path g)" "push_ok (shares_path g)" if "token g" "slash \<notin> set g"
  proof -
    have "token (''.group_'' @ g @ ''.txt'')" "token (''.group_'' @ g @ ''_files.txt'')"
      unfolding token_append using that tk by blast+
    from ok [OF this(1)] ok [OF this(2)] that
    show "push_ok (members_path g)" "push_ok (shares_path g)"
      by (simp_all add: push_ok_def) (simp_all add: path_defs)
  qed
  show "push_ok (user_path u)" "push_ok (downloading_path u)" "push_ok (downloaded_path u)"
    if "token u" "slash \<notin> set u"
  proof -
    have "token (''.files_'' @ u @ ''.txt'')" "token (''.files_'' @ u @ ''_downloading.txt'')"
      "token (''.files_'' @ u @ ''_downloaded.txt'')"
      unfolding token_append using that tk by blast+
    from ok [OF this(1)] ok [OF this(2)] ok [OF this(3)] that
    show "push_ok (user_path u)" "push_ok (downloading_path u)" "push_ok (downloaded_path u)"
      by (simp_all add: push_ok_def) (simp_all add: path_defs)
  qed
qed

lemma replicates_pushed:
  assumes "link t' = link t" "outbox t' = outbox t @ pushed (link t) (disk t') ps"
    "\<forall>p\<in>set ps. push_ok p" "\<forall>p\<in>set ps. exists_file (disk t') p"
    "\<And>p. p \<notin> set ps \<Longrightarrow> file_lines (disk t') p = file_lines (disk t) p"
  shows "replicates t t'"
  using assms by (auto simp: replicates_def)

lemma replicates_same:
  "link t' = link t \<Longrightarrow> outbox t' = outbox t \<Longrightarrow> file_lines (disk t') = file_lines (disk t) \<Longrightarrow>
     replicates t t'"
  by (rule replicates_pushed [where ps = "[]"]) (simp_all add: pushed_def)


section \<open>Login\<close>

definition password_ok :: "env \<Rightarrow> files \<Rightarrow> string \<Rightarrow> string \<Rightarrow> bool" where
  "password_ok E f user password \<longleftrightarrow>
     (case disk_credentials f user of
        None \<Rightarrow> False
      | Some stored \<Rightarrow> HashPassword E (fst (split_stored stored)) password = snd (split_stored stored))"

lemma disk_online_snoc:
  assumes "file_lines f' online_path = file_lines f online_path @ [join sp [u, a, b]]"
    "token u" "token a" "token b"
  shows "disk_online f' = insert u (disk_online f)"
    "disk_online_users f' = (disk_online_users f)(u \<mapsto> (a, b))"
  using assms fld_join [of "[u, a, b]"] by (simp_all add: disk_online_def disk_online_users_def)

lemma UserLogin_spec:
  assumes inv: "tracker_inv t" and args: "token u" "token port" "token ip"
  obtains t' where
    "UserLogin E u pw port ip t = Some (password_ok E (disk t) u pw, t')"
    "tracker_inv t'" "coherent t'" "replicates t t'"
    "\<And>q. file_lines (disk t') q =
      (if q = online_path \<and> password_ok E (disk t) u pw \<and> u \<notin> disk_online (disk t)
       then file_lines (disk t) online_path @ [join sp [u, ip, port]] else file_lines (disk t) q)"
proof (cases "password_ok E (disk t) u pw \<and> u \<notin> disk_online (disk t)")
  case False
  then have "UserLogin E u pw port ip t = Some (password_ok E (disk t) u pw, fetched t)"
    using tracker_invD [OF inv]
    by (auto simp: UserLogin_def password_ok_def case_prod_unfold Let_def split: option.splits)
  then show thesis using that False inv by (simp add: replicates_same)
next
  case True
  let ?a = "add_online u port ip (fetched t)"
  note wf = tracker_invD [OF inv]
  have fo: "fields_ok online_path (join sp [u, ip, port])"
    using args by (intro fields_ok_join) auto
  have nls: "nl \<notin> set (join sp [u, ip, port])" using args by simp
  have lines: "file_lines (disk ?a) q =
      (if q = online_path then file_lines (disk t) online_path @ [join sp [u, ip, port]]
       else file_lines (disk t) q)" for q
    using wf nls by (simp add: add_online_def file_lines_append del: join.simps)
  have wfa: "tracker_inv ?a"
    using wf fo nls by (simp add: tracker_inv_def add_online_def wf_append del: join.simps)
  have "exists_file (disk ?a) online_path" "link ?a \<noteq> Refused"
    using wf by (simp_all add: add_online_def)
  note ob = Sync_ok [OF this(2,1)]
  let ?ob = "outbox ?a @ pushed (link ?a) (disk ?a) [online_path]"
  have "UserLogin E u pw port ip t = Some (True, ?a\<lparr>outbox := ?ob\<rparr>)"
    using True wf ob
    by (auto simp: UserLogin_def password_ok_def case_prod_unfold Let_def split: option.splits)
  moreover have "tracker_inv (?a\<lparr>outbox := ?ob\<rparr>)"
    using wfa by simp
  moreover have "coherent (?a\<lparr>outbox := ?ob\<rparr>)"
  proof -
    have "disk_online (disk ?a) = insert u (disk_online (disk t))"
      using disk_online_snoc(1) [of "disk ?a" "disk t"] lines args by simp
    moreover have "file_lines (disk ?a) q = file_lines (disk (fetched t)) q" if "q \<noteq> online_path" for q
      using that lines by simp
    ultimately show ?thesis
      by (auto simp: coherent_def add_online_def disk_credentials_def disk_groups_def
          disk_pending_def disk_members_def)
  qed
  moreover have "replicates t (?a\<lparr>outbox := ?ob\<rparr>)"
    using lines wf by (intro replicates_pushed [where ps = "[online_path]"]) (simp_all add: add_online_def)
  ultimately show thesis using that True lines by auto
qed


section \<open>Registration\<close>

lemma token_credential:
  "token (GenerateSalt E @ '':'' @ HashPassword E (GenerateSalt E) pw)"
proof -
  have "token '':''" by (simp add: token_def is_space_def)
  then show ?thesis by (simp only: token_append GenerateSalt_def HashPassword_def token_hex)
qed

lemma file_lines_fun:
  "files_ok f \<Longrightarrow> openable f p \<Longrightarrow> nl \<notin> set l \<Longrightarrow>
     file_lines (file_append f p (endl l)) = (file_lines f)(p := file_lines f p @ [l])"
  "openable f p \<Longrightarrow> file_lines (file_create f p) = (file_lines f)(p := [])"
  "files_ok f \<Longrightarrow> p \<noteq> temp_path \<Longrightarrow> set ls \<subseteq> set (file_lines f p) \<Longrightarrow>
     file_lines (replace_app f p ls) = (file_lines f)(p := ls)"
  by (auto simp: fun_eq_iff file_lines_append file_lines_create file_lines_replace)

lemma file_lines_fetched [simp]: "file_lines (disk (fetched t)) = file_lines (disk t)"
  by (simp add: fun_eq_iff)

text \<open>The files of a tracker after a successful registration.\<close>

definition registered :: "env \<Rightarrow> string \<Rightarrow> string \<Rightarrow> string \<Rightarrow> string \<Rightarrow> files \<Rightarrow> files" where
  "registered E u pw port ip f =
     file_create (file_create (file_create
       (file_append (file_append f online_path (endl (join sp [u, ip, port])))
          credential_path (endl (credential_line E u pw)))
       (user_path u)) (downloading_path u)) (downloaded_path u)"

lemma registered_props:
  assumes f: "wf_disk f" and args: "token u" "token port" "token ip" "slash \<notin> set u"
  shows "wf_disk (registered E u pw port ip f)"
    and "file_lines (registered E u pw port ip f) = (file_lines f)
      (online_path := file_lines f online_path @ [join sp [u, ip, port]],
       credential_path := file_lines f credential_path @ [credential_line E u pw],
       user_path u := [], downloading_path u := [], downloaded_path u := [])"
    and "\<forall>p\<in>{online_path, credential_path, user_path u, downloading_path u, downloaded_path u}.
      exists_file (registered E u pw port ip f) p"
    and "exists_file f p \<Longrightarrow> exists_file (registered E u pw port ip f) p"
proof -
  let ?ol = "join sp [u, ip, port]" and ?cl = "credential_line E u pw"
  have nls: "nl \<notin> set ?ol" "nl \<notin> set ?cl"
    using args token_credential [of E pw] by (auto simp: credential_line_def dest: token_nl)
  have fo: "fields_ok online_path ?ol" using args by (intro fields_ok_join) auto
  have ok: "files_ok f" using f by simp
  define f1 where "f1 = file_append f online_path (endl ?ol)"
  define f2 where "f2 = file_append f1 credential_path (endl ?cl)"
  have f1: "wf_disk f1" "files_ok f1"
    using f fo nls by (auto simp: f1_def intro!: wf_append wf_files_ok simp del: join.simps)
  have f2: "wf_disk f2" "files_ok f2"
    using f1 nls by (auto simp: f2_def intro!: wf_append wf_files_ok)
  have reg: "registered E u pw port ip f =
      file_create (file_create (file_create f2 (user_path u)) (downloading_path u)) (downloaded_path u)"
    by (simp add: registered_def f1_def f2_def)
  show "wf_disk (registered E u pw port ip f)"
    using f2 by (simp add: reg wf_create)
  show "\<forall>p\<in>{online_path, credential_path, user_path u, downloading_path u, downloaded_path u}.
      exists_file (registered E u pw port ip f) p"
    using f2 ok args by (simp add: reg f1_def f2_def)
  show "exists_file f p \<Longrightarrow> exists_file (registered E u pw port ip f) p"
    by (simp add: registered_def)
  show "file_lines (registered E u pw port ip f) = (file_lines f)
      (online_path := file_lines f online_path @ [join sp [u, ip, port]],
       credential_path := file_lines f credential_path @ [credential_line E u pw],
       user_path u := [], downloading_path u := [], downloaded_path u := [])"
    using f2 f1 ok args nls
    by (simp add: reg f1_def f2_def file_lines_fun del: join.simps)
qed

lemma UserCreate_spec:
  assumes inv: "tracker_inv t" and args: "token u" "token port" "token ip" "slash \<notin> set u"
  obtains t' where
    "UserCreate E u pw port ip t = Some (disk_credentials (disk t) u = None, t')"
    "tracker_inv t'" "coherent t'" "replicates t t'"
    "file_lines (disk t') =
      (if disk_credentials (disk t) u = None
       then file_lines (registered E u pw port ip (disk t)) else file_lines (disk t))"
proof (cases "disk_credentials (disk t) u = None")
  case False
  then have "UserCreate E u pw port ip t = Some (False, fetched t)"
    using tracker_invD [OF inv] by (auto simp: UserCreate_def)
  then show thesis using that False inv by (simp add: replicates_same)
next
  case True
  note wf = tracker_invD [OF inv]
  let ?a = "add_online u port ip (fetched t)"
  let ?f = "registered E u pw port ip (disk t)"
  note reg = registered_props [OF wf(1) args, where E = E and pw = pw]
  let ?ps = "[online_path, credential_path, user_path u, downloading_path u, downloaded_path u]"
  have files: "\<forall>p\<in>base_files \<union> set ?ps. exists_file ?f p" using reg(3,4) wf(6) by auto
  obtain ob where ob: "Syncs ?ps (?a\<lparr>disk := ?f\<rparr>) = Some (?a\<lparr>disk := ?f, outbox := ob\<rparr>)"
    "tracker_inv (?a\<lparr>disk := ?f, outbox := ob\<rparr>)" "ob = outbox ?a @ pushed (link ?a) ?f ?ps"
    using commit_step [of ?a ?f ?ps] reg(1) wf(3) files by (auto simp: add_online_def)
  let ?b = "?a\<lparr>disk := ?f, outbox := ob\<rparr>"
  have "UserCreate E u pw port ip t = Some (True, fetched ?b)"
    using True wf(4,5) ob(1) tracker_invD(4) [OF ob(2)]
    by (simp add: UserCreate_def Let_def registered_def add_online_def)
  moreover have "replicates t (fetched ?b)"
    using ob(3) files reg(2) tracker_invD(5) [OF ob(2)] args
    by (intro replicates_pushed [where ps = ?ps]) (simp_all add: add_online_def)
  ultimately show thesis using that True ob(2) by simp
qed

lemma disk_credentials_registered:
  assumes f: "wf_disk f" and args: "token u" "token port" "token ip" "slash \<notin> set u" "u \<noteq> []"
  shows "disk_credentials (registered E u pw port ip f) =
    (disk_credentials f)(u \<mapsto> GenerateSalt E @ '':'' @ HashPassword E (GenerateSalt E) pw)"
proof -
  let ?c = "GenerateSalt E @ '':'' @ HashPassword E (GenerateSalt E) pw"
  have "read_pairs ([], []) (file_lines f credential_path @ [join sp [u, ?c]]) =
      (fst (read_pairs ([], []) (file_lines f credential_path)) @ [(u, ?c)], (u, ?c))"
    using args token_credential [of E pw] by (intro read_pairs_line) simp_all
  then show ?thesis
    using registered_props(2) [OF f args(1-4), where E = E and pw = pw]
    by (simp add: disk_credentials_def credential_line_def del: join.simps)
qed

lemma password_ok_registered:
  assumes "wf_disk f" "token u" "token port" "token ip" "slash \<notin> set u" "u \<noteq> []"
    and "file_lines f' = file_lines (registered E u pw port ip f)"
    and "sha256 E' = sha256 E"
  shows "password_ok E' f' u pw' \<longleftrightarrow>
    sha256 E (GenerateSalt E @ pw') = sha256 E (GenerateSalt E @ pw)"
proof -
  have "disk_credentials f' u = Some (GenerateSalt E @ '':'' @ HashPassword E (GenerateSalt E) pw)"
    using disk_credentials_registered [OF assms(1-6), of E pw] assms(7)
    by (simp add: disk_credentials_def)
  then show ?thesis
    using split_stored_salt [of "rand_bytes E" "sha256 E (hex (rand_bytes E) @ pw)"] assms(8)
    by (simp add: password_ok_def HashPassword_def GenerateSalt_def hex_inj)
qed


section \<open>Logout and addresses\<close>

lemma Logout_spec:
  assumes inv: "tracker_inv t"
  obtains t' where
    "Logout u t = Some (u \<in> disk_online (disk t), t')"
    "tracker_inv t'" "coherent t'" "replicates t t'"
    "file_lines (disk t') = (file_lines (disk t))
      (online_path := filter (\<lambda>l. fld l 0 \<noteq> u) (file_lines (disk t) online_path))"
proof (cases "u \<in> disk_online (disk t)")
  case False
  then have "Logout u t = Some (False, fetched t)"
    using tracker_invD [OF inv] by (simp add: Logout_def)
  moreover have "filter (\<lambda>l. fld l 0 \<noteq> u) (file_lines (disk t) online_path) =
      file_lines (disk t) online_path"
    using False by (intro filter_True) (auto simp: disk_online_def)
  ultimately show thesis using that False inv by (simp add: replicates_same)
next
  case True
  note wf = tracker_invD [OF inv]
  let ?ls = "filter (\<lambda>l. fld l 0 \<noteq> u) (file_lines (disk t) online_path)"
  let ?f = "replace_app (disk t) online_path ?ls"
  have del: "DeleteLine_field online_path u 0 (disk t) = Some ?f"
    using wf(1) by (simp add: DeleteLine_field_wf)
  have lines: "wf_disk ?f" "file_lines ?f = (file_lines (disk t))(online_path := ?ls)"
    "q \<noteq> temp_path \<Longrightarrow> exists_file (disk t) q \<or> q = online_path \<Longrightarrow> exists_file ?f q" for q
    using replace_step [of "disk t" online_path ?ls] wf(1,2) by auto
  have files: "\<forall>p\<in>base_files \<union> set [online_path]. exists_file ?f p"
    using lines(3) wf(6) by (auto simp: base_files_def)
  obtain ob where ob: "Syncs [online_path] (fetched t\<lparr>disk := ?f\<rparr>) = Some (fetched t\<lparr>disk := ?f, outbox := ob\<rparr>)"
    "tracker_inv (fetched t\<lparr>disk := ?f, outbox := ob\<rparr>)" "ob = outbox t @ pushed (link t) ?f [online_path]"
    using commit_step [of "fetched t" ?f "[online_path]"] lines(1) wf(3) files by auto
  let ?b = "fetched t\<lparr>disk := ?f, outbox := ob\<rparr>"
  have "Logout u t = Some (True, fetched ?b)"
    using True wf del ob(1) tracker_invD(4) [OF ob(2)] by (simp add: Logout_def)
  moreover have "replicates t (fetched ?b)"
    using ob(3) files lines(2) tracker_invD(5) [OF ob(2)]
    by (intro replicates_pushed [where ps = "[online_path]"]) simp_all
  ultimately show thesis using that True ob(2) lines(2) by simp
qed

definition address :: "files \<Rightarrow> string \<Rightarrow> string" where
  "address f u = (case disk_online_users f u of None \<Rightarrow> [sp] | Some (ip, port) \<Rightarrow> ip @ [sp] @ port)"

lemma SendDetails_spec:
  assumes inv: "tracker_inv t"
  obtains t' where
    "SendDetails u t = Some (address (disk t) u, t')"
    "tracker_inv t'" "coherent t'" "replicates t t'" "file_lines (disk t') = file_lines (disk t)"
proof -
  let ?t = "fetched t\<lparr>online_users := (disk_online_users (disk t))
    (u \<mapsto> (case disk_online_users (disk t) u of None \<Rightarrow> ([], []) | Some p \<Rightarrow> p))\<rparr>"
  have "SendDetails u t = Some (address (disk t) u, ?t)"
    using tracker_invD [OF inv]
    by (auto simp: SendDetails_def address_def case_prod_unfold split: option.splits prod.splits)
  moreover have "tracker_inv ?t" "coherent ?t"
    using tracker_inv_fetched [OF inv] coherent_fetched [of t]
    by (simp_all add: tracker_inv_def coherent_def)
  ultimately show thesis using that by (simp add: replicates_same)
qed


section \<open>A fresh tracker\<close>

text \<open>A tracker started in an empty directory (after the \<open>FetchDetails\<close> of \<open>main\<close>), and an
  environment to evaluate it in.\<close>

definition fresh_tracker :: "link \<Rightarrow> tracker" where
  "fresh_tracker l =
     \<lparr>credentials = Map.empty, online_users = Map.empty, online = {}, group_members = {},
      groups = Map.empty, pending_group_requests = {},
      disk = \<lparr>content = [credential_path \<mapsto> [], online_path \<mapsto> [], groups_path \<mapsto> [], pending_path \<mapsto> []],
              dirs = {''.'', ''.all_files''}\<rparr>,
      link = l, outbox = []\<rparr>"

definition demo_env :: env where
  "demo_env =
     \<lparr>sha256 = (\<lambda>s. take 32 (s @ replicate 32 (CHR ''0''))), rand_bytes = ''0123456789abcdef'',
      map_order = (\<lambda>m. []), dir_entries = []\<rparr>"

lemma fresh_lines [simp]: "file_lines (disk (fresh_tracker l)) p = []"
  by (simp add: fresh_tracker_def file_lines_def)

lemma fresh_inv [simp]: "l \<noteq> Refused \<Longrightarrow> tracker_inv (fresh_tracker l)"
  by (auto simp: tracker_inv_def wf_disk_def files_ok_def base_files_def exists_file_def
      fresh_tracker_def file_lines_def openable_def path_defs dirname_def)

lemma fresh_tables [simp]:
  "disk_credentials (disk (fresh_tracker l)) = Map.empty"
  "disk_groups (disk (fresh_tracker l)) = Map.empty"
  "disk_online (disk (fresh_tracker l)) = {}"
  "disk_online_users (disk (fresh_tracker l)) = Map.empty"
  "disk_pending (disk (fresh_tracker l)) = {}"
  by (simp_all add: disk_credentials_def disk_groups_def disk_online_def disk_online_users_def
      disk_pending_def)

lemma token_literals [simp]:
  "token ''alice''" "token ''bob''" "token ''pw''" "token ''20001''" "token ''20002''"
  "token ''10.0.0.5''" "token ''10.0.0.6''" "token ''demo''" "token ''f.txt''" "token ''carol''"
  by (simp_all add: token_def is_space_def)


section \<open>Properties\<close>

text \<open>After a registration, a login with any password is answered exactly by comparing the
  salted hashes: the right password is accepted, and a wrong one only on a hash collision.\<close>

lemma create_then_login:
  assumes "tracker_inv t" "token u" "token port" "token ip" "slash \<notin> set u" "u \<noteq> []"
    "token port'" "token ip'"
    "disk_credentials (disk t) u = None" "sha256 E' = sha256 E"
  shows "\<exists>t1 t2. UserCreate E u pw port ip t = Some (True, t1) \<and>
    UserLogin E' u pw' port' ip' t1 =
      Some (sha256 E (GenerateSalt E @ pw') = sha256 E (GenerateSalt E @ pw), t2)"
proof -
  obtain t1 where t1: "UserCreate E u pw port ip t = Some (True, t1)" "tracker_inv t1"
    "file_lines (disk t1) = file_lines (registered E u pw port ip (disk t))"
    using UserCreate_spec [OF assms(1-5), of E pw] assms(9) by auto
  obtain t2 where "UserLogin E' u pw' port' ip' t1 = Some (password_ok E' (disk t1) u pw', t2)"
    using UserLogin_spec [OF t1(2) assms(2,7,8), of E' pw'] by metis
  with t1 show ?thesis
    using password_ok_registered [OF _ assms(2-6) t1(3) assms(10)] tracker_invD(1) [OF assms(1)]
    by auto
qed

end
