(* ===== verification/Tracker_Groups.thy ===== *)
theory Tracker_Groups
  imports Tracker_Users
begin

text \<open>
  The group handlers of tracker/tracker.cpp: \<open>GroupCreate\<close>, \<open>GroupList\<close>, \<open>GroupRequestList\<close>,
  \<open>GroupJoin\<close>, \<open>GroupAcceptRequest\<close> and \<open>GroupLeave\<close>. Only some of them reload the tables
  first; the others decide from the tables as the last request left them, and
  \<open>GroupAcceptRequest\<close> does not remove the request it accepts from the cached set.
\<close>


section \<open>Definitions\<close>

definition GroupCreate :: "string \<Rightarrow> string \<Rightarrow> tracker \<Rightarrow> (bool \<times> tracker) option" where
  "GroupCreate command1 command2 t =
     do {
       t \<leftarrow> FetchDetails t;
       if groups t command1 = None then
         let f = file_append (disk t) groups_path (endl (join sp [command1, command2]));
             f = file_create f (members_path command1);
             f = file_append f (members_path command1) (endl command2);
             f = file_create f (shares_path command1)
         in do {
           t \<leftarrow> Syncs [groups_path, members_path command1, shares_path command1] (t\<lparr>disk := f\<rparr>);
           t \<leftarrow> FetchDetails t;
           Some (True, t)
         }
       else Some (False, t)
     }"

text \<open>The reply lists one name per line, in the iteration order of the hash table.\<close>

definition GroupList :: "env \<Rightarrow> tracker \<Rightarrow> (string \<times> tracker) option" where
  "GroupList E t = do { t \<leftarrow> FetchDetails t; Some (unlines (map_order E (groups t)), t) }"

text \<open>A \<open>std::set\<close> is iterated in ascending order.\<close>

definition GroupRequestList :: "string \<Rightarrow> string \<Rightarrow> tracker \<Rightarrow> (string \<times> tracker) option" where
  "GroupRequestList command1 command2 t =
     do {
       t \<leftarrow> FetchDetails t;
       case groups t command1 of
         None \<Rightarrow> Some ([], t)
       | Some owner \<Rightarrow>
           if command2 \<noteq> owner then Some ([], t)
           else Some (unlines (map fst (filter (\<lambda>i. snd i = command1)
                        (sorted_list_of_set (pending_group_requests t)))), t)
     }"

text \<open>
  Both branches append the request to the file and to the cached set; with the owner offline only
  when it is not cached yet, with the owner online always (after \<open>online_users[owner]\<close>, which
  inserts an empty entry when there is none).
\<close>

definition GroupJoin :: "string \<Rightarrow> string \<Rightarrow> tracker \<Rightarrow> (bool \<times> tracker) option" where
  "GroupJoin command1 command2 t =
     (case groups t command1 of
        None \<Rightarrow> Some (False, t)
      | Some owner \<Rightarrow>
          let t = FetchGroupMembers command1 t in
          if command2 \<in> group_members t then Some (True, t)
          else
            let request = t\<lparr>disk := file_append (disk t) pending_path (endl (join sp [command2, command1])),
                            pending_group_requests :=
                              insert (command2, command1) (pending_group_requests t)\<rparr>;
                t = (if owner \<notin> online t
                     then if (command2, command1) \<notin> pending_group_requests t then request else t
                     else request\<lparr>online_users :=
                            (online_users t)(owner \<mapsto>
                               (case online_users t owner of None \<Rightarrow> ([], []) | Some p \<Rightarrow> p))\<rparr>)
            in do { t \<leftarrow> Sync pending_path t; Some (True, t) })"

definition GroupAcceptRequest ::
  "string \<Rightarrow> string \<Rightarrow> string \<Rightarrow> tracker \<Rightarrow> (bool \<times> tracker) option" where
  "GroupAcceptRequest command1 command2 command3 t =
     (if groups t command1 = None \<or> groups t command1 \<noteq> Some command3
         \<or> credentials t command2 = None \<or> (command2, command1) \<notin> pending_group_requests t
      then Some (False, t)
      else
        let t = FetchGroupMembers command1 t in
        if command2 \<in> group_members t then Some (True, t)
        else
          let f = file_append (disk t) (members_path command1) (endl command2);
              f = DeleteLine pending_path (command2 @ [sp] @ command1) f
          in do { t \<leftarrow> Syncs [pending_path, members_path command1] (t\<lparr>disk := f\<rparr>);
                  Some (True, t) })"

definition GroupLeave :: "string \<Rightarrow> string \<Rightarrow> tracker \<Rightarrow> (bool \<times> tracker) option" where
  "GroupLeave command1 command2 t =
     (case groups t command1 of
        None \<Rightarrow> Some (False, t)
      | Some owner \<Rightarrow>
          let t = FetchGroupMembers command1 t in
          if command2 \<notin> group_members t \<or> owner = command2 then Some (False, t)
          else do {
            f \<leftarrow> DeleteLine_field (members_path command1) command2 0 (disk t);
            f \<leftarrow> DeleteLine_field (shares_path command1) command2 2 f;
            f \<leftarrow> DeleteLine_field (user_path command2) command1 0 f;
            t \<leftarrow> Syncs [members_path command1, shares_path command1, user_path command2]
                   (t\<lparr>disk := f\<rparr>);
            t \<leftarrow> FetchDetails t;
            Some (True, t)
          })"


section \<open>Creating a group\<close>

lemma min_fields_pos [simp]: "0 < min_fields p"
  by (simp add: min_fields_def)

lemma disk_groups_snoc:
  assumes "file_lines f' groups_path = file_lines f groups_path @ [join sp [g, u]]" "token g" "token u"
  shows "disk_groups f' = (disk_groups f)(g \<mapsto> u)"
  using assms fld_join [of "[g, u]"] by (simp add: disk_groups_def)

lemma GroupCreate_spec:
  assumes inv: "tracker_inv t" and args: "token g" "token u" "good_group g"
  obtains t' where
    "GroupCreate g u t = Some (disk_groups (disk t) g = None, t')"
    "tracker_inv t'" "coherent t'" "replicates t t'"
    "file_lines (disk t') =
      (if disk_groups (disk t) g = None then (file_lines (disk t))
         (groups_path := file_lines (disk t) groups_path @ [join sp [g, u]],
          members_path g := [u], shares_path g := [])
       else file_lines (disk t))"
proof (cases "disk_groups (disk t) g = None")
  case False
  then have "GroupCreate g u t = Some (False, fetched t)"
    using tracker_invD [OF inv] by (auto simp: GroupCreate_def)
  then show thesis using that False inv by (simp add: replicates_same)
next
  case True
  note wf = tracker_invD [OF inv]
  have slash: "slash \<notin> set g" using args by (simp add: good_group_def)
  let ?gl = "join sp [g, u]"
  define f1 where "f1 = file_append (disk t) groups_path (endl ?gl)"
  define f2 where "f2 = file_create f1 (members_path g)"
  define f3 where "f3 = file_append f2 (members_path g) (endl u)"
  define f4 where "f4 = file_create f3 (shares_path g)"
  have nls: "nl \<notin> set ?gl" "nl \<notin> set u" using args by auto
  have fo: "fields_ok groups_path ?gl" using args by (intro fields_ok_join) auto
  have f1: "wf_disk f1" using wf fo nls by (auto simp: f1_def intro!: wf_append simp del: join.simps)
  then have f2: "wf_disk f2" by (simp add: f2_def wf_create)
  then have f3: "wf_disk f3" using nls args by (auto simp: f3_def intro!: wf_append)
  then have f4: "wf_disk f4" by (simp add: f4_def wf_create)
  have ex: "exists_file f4 p" if "exists_file (disk t) p \<or> p \<in> {groups_path, members_path g, shares_path g}" for p
    using that wf slash by (auto simp: f4_def f3_def f2_def f1_def)
  have lines: "file_lines f4 = (file_lines (disk t))
      (groups_path := file_lines (disk t) groups_path @ [?gl], members_path g := [u], shares_path g := [])"
    using wf f1 f2 f3 nls slash args
    by (simp add: f4_def f3_def f2_def f1_def file_lines_fun del: join.simps)
  let ?ps = "[groups_path, members_path g, shares_path g]"
  have files: "\<forall>p\<in>base_files \<union> set ?ps. exists_file f4 p" using ex wf(6) by auto
  obtain ob where ob: "Syncs ?ps (fetched t\<lparr>disk := f4\<rparr>) = Some (fetched t\<lparr>disk := f4, outbox := ob\<rparr>)"
    "tracker_inv (fetched t\<lparr>disk := f4, outbox := ob\<rparr>)" "ob = outbox t @ pushed (link t) f4 ?ps"
    using commit_step [of "fetched t" f4 ?ps] f4 wf(3) files by auto
  let ?b = "fetched t\<lparr>disk := f4, outbox := ob\<rparr>"
  have "GroupCreate g u t = Some (True, fetched ?b)"
    using True wf(4,5) ob(1) tracker_invD(4) [OF ob(2)]
    by (simp add: GroupCreate_def Let_def f4_def f3_def f2_def f1_def del: join.simps)
  moreover have "replicates t (fetched ?b)"
    using ob(3) files lines tracker_invD(5) [OF ob(2)] args slash
    by (intro replicates_pushed [where ps = ?ps]) (simp_all del: join.simps)
  ultimately show thesis using that True ob(2) lines by simp
qed


section \<open>Listing groups and requests\<close>

lemma GroupList_spec:
  assumes "tracker_inv t"
  shows "GroupList E t = Some (unlines (map_order E (disk_groups (disk t))), fetched t)"
  using tracker_invD [OF assms] by (simp add: GroupList_def)

lemma GroupRequestList_spec:
  assumes "tracker_inv t"
  shows "GroupRequestList g u t = Some
    (if disk_groups (disk t) g = Some u
     then unlines (map fst (filter (\<lambda>i. snd i = g) (sorted_list_of_set (disk_pending (disk t)))))
     else [], fetched t)"
  using tracker_invD [OF assms] by (auto simp: GroupRequestList_def split: option.splits)


section \<open>Joining\<close>

definition join_adds :: "tracker \<Rightarrow> string \<Rightarrow> string \<Rightarrow> bool" where
  "join_adds t g u \<longleftrightarrow>
     (\<exists>owner. groups t g = Some owner \<and> u \<notin> disk_members (disk t) g \<and>
        (owner \<in> online t \<or> (u, g) \<notin> pending_group_requests t))"

lemma GroupJoin_spec:
  assumes inv: "tracker_inv t" and args: "token g" "token u"
  obtains t' where
    "GroupJoin g u t = Some (groups t g \<noteq> None, t')"
    "tracker_inv t'" "replicates t t'"
    "file_lines (disk t') =
      (if join_adds t g u
       then (file_lines (disk t))(pending_path := file_lines (disk t) pending_path @ [join sp [u, g]])
       else file_lines (disk t))"
    "pending_group_requests t' =
      (if join_adds t g u then insert (u, g) (pending_group_requests t) else pending_group_requests t)"
    "credentials t' = credentials t" "groups t' = groups t" "online t' = online t"
proof (cases "\<exists>owner. groups t g = Some owner \<and> u \<notin> disk_members (disk t) g")
  case False
  then have "\<not> join_adds t g u" by (auto simp: join_adds_def)
  moreover have "GroupJoin g u t =
      Some (groups t g \<noteq> None, if groups t g = None then t else FetchGroupMembers g t)"
    using False by (cases "groups t g") (auto simp: GroupJoin_def)
  ultimately show thesis
    using that [of "if groups t g = None then t else FetchGroupMembers g t"] inv
    by (simp add: tracker_inv_def replicates_same)
next
  case True
  then obtain owner where owner: "groups t g = Some owner" "u \<notin> disk_members (disk t) g" by blast
  note wf = tracker_invD [OF inv]
  let ?pl = "join sp [u, g]"
  let ?f = "file_append (disk t) pending_path (endl ?pl)"
  have nls: "nl \<notin> set ?pl" using args by auto
  have wf': "wf_disk ?f" using wf nls by (auto intro!: wf_append simp del: join.simps)
  have lines: "file_lines ?f = (file_lines (disk t))(pending_path := file_lines (disk t) pending_path @ [?pl])"
    using wf nls by (simp add: file_lines_fun del: join.simps)
  define t1 where "t1 = FetchGroupMembers g t"
  define rq where "rq = t1\<lparr>disk := ?f,
    pending_group_requests := insert (u, g) (pending_group_requests t)\<rparr>"
  define t2 where "t2 = (if owner \<notin> online t
      then if (u, g) \<notin> pending_group_requests t then rq else t1
      else rq\<lparr>online_users := (online_users t)(owner \<mapsto>
        (case online_users t owner of None \<Rightarrow> ([], []) | Some p \<Rightarrow> p))\<rparr>)"
  have add: "join_adds t g u \<longleftrightarrow> (owner \<in> online t \<or> (u, g) \<notin> pending_group_requests t)"
    using owner by (simp add: join_adds_def)
  have t2: "disk t2 = (if join_adds t g u then ?f else disk t)"
    "pending_group_requests t2 =
      (if join_adds t g u then insert (u, g) (pending_group_requests t) else pending_group_requests t)"
    "credentials t2 = credentials t" "groups t2 = groups t" "online t2 = online t" "link t2 = link t" "outbox t2 = outbox t"
    using add by (auto simp: t2_def rq_def t1_def simp del: join.simps)
  have files: "exists_file (disk t2) pending_path" "link t2 \<noteq> Refused"
    using t2 wf(3) wf(6) [of pending_path] by (auto simp: base_files_def simp del: join.simps)
  note sync = Sync_ok [OF files(2,1)]
  let ?b = "t2\<lparr>outbox := outbox t2 @ pushed (link t2) (disk t2) [pending_path]\<rparr>"
  have "GroupJoin g u t = do { t \<leftarrow> Sync pending_path t2; Some (True, t) }"
    using owner by (simp add: GroupJoin_def Let_def t2_def rq_def t1_def del: join.simps)
  then have "GroupJoin g u t = Some (True, ?b)" using sync by simp
  moreover have "tracker_inv ?b"
    using t2 wf wf' by (auto simp: tracker_inv_def simp del: join.simps)
  moreover have "replicates t ?b"
    using t2 files lines by (intro replicates_pushed [where ps = "[pending_path]"]) (auto simp del: join.simps)
  moreover have "groups t g \<noteq> None" using owner by simp
  ultimately show thesis using that [of ?b] t2 lines by (auto simp del: join.simps)
qed


section \<open>Accepting\<close>

definition accepts :: "tracker \<Rightarrow> string \<Rightarrow> string \<Rightarrow> string \<Rightarrow> bool" where
  "accepts t g u caller \<longleftrightarrow>
     groups t g = Some caller \<and> credentials t u \<noteq> None \<and> (u, g) \<in> pending_group_requests t"

lemma GroupAcceptRequest_spec:
  assumes inv: "tracker_inv t" and args: "token u" "good_group g" "token g"
  obtains t' where
    "GroupAcceptRequest g u caller t = Some (accepts t g u caller, t')"
    "tracker_inv t'" "replicates t t'"
    "file_lines (disk t') =
      (if accepts t g u caller \<and> u \<notin> disk_members (disk t) g
       then (file_lines (disk t))
         (members_path g := file_lines (disk t) (members_path g) @ [u],
          pending_path := filter (\<lambda>l. l \<noteq> u @ [sp] @ g) (file_lines (disk t) pending_path))
       else file_lines (disk t))"
    "pending_group_requests t' = pending_group_requests t"
    "credentials t' = credentials t" "groups t' = groups t" "online t' = online t"
proof (cases "accepts t g u caller \<and> u \<notin> disk_members (disk t) g")
  case False
  let ?t' = "if accepts t g u caller then FetchGroupMembers g t else t"
  have "GroupAcceptRequest g u caller t = Some (accepts t g u caller, ?t')"
    using False by (auto simp: GroupAcceptRequest_def accepts_def Let_def)
  moreover have "tracker_inv ?t'" using inv by (simp add: tracker_inv_def)
  ultimately show thesis using that [of ?t'] False by (simp add: replicates_same)
next
  case True
  note wf = tracker_invD [OF inv]
  have slash: "slash \<notin> set g" using args by (simp add: good_group_def)
  define f1 where "f1 = file_append (disk t) (members_path g) (endl u)"
  define f2 where "f2 = DeleteLine pending_path (u @ [sp] @ g) f1"
  have f1: "wf_disk f1" using wf args by (auto simp: f1_def intro!: wf_append)
  then have f2: "wf_disk f2" by (simp add: f2_def wf_DeleteLine)
  have lines1: "file_lines f1 = (file_lines (disk t))(members_path g := file_lines (disk t) (members_path g) @ [u])"
    using wf slash args by (simp add: f1_def file_lines_fun)
  then have lines2: "file_lines f2 = (file_lines (disk t))
       (members_path g := file_lines (disk t) (members_path g) @ [u],
        pending_path := filter (\<lambda>l. l \<noteq> u @ [sp] @ g) (file_lines (disk t) pending_path))"
    using f1 by (auto simp: f2_def fun_eq_iff)
  have ex: "exists_file f2 p" if p: "p \<in> base_files \<or> p = members_path g" for p
  proof -
    have "exists_file f1 p" using p wf(2) wf(6) [of p] slash by (auto simp: f1_def)
    then show ?thesis using p f1 by (auto simp: f2_def DeleteLine_def intro!: exists_replace_mono)
  qed
  let ?ps = "[pending_path, members_path g]"
  have files: "\<forall>p\<in>base_files \<union> set ?ps. exists_file f2 p" using ex by (auto simp: base_files_def)
  let ?a = "FetchGroupMembers g t"
  obtain ob where ob: "Syncs ?ps (?a\<lparr>disk := f2\<rparr>) = Some (?a\<lparr>disk := f2, outbox := ob\<rparr>)"
    "tracker_inv (?a\<lparr>disk := f2, outbox := ob\<rparr>)" "ob = outbox t @ pushed (link t) f2 ?ps"
    using commit_step [of ?a f2 ?ps] f2 wf(3) files by auto
  let ?b = "?a\<lparr>disk := f2, outbox := ob\<rparr>"
  have "GroupAcceptRequest g u caller t = Some (True, ?b)"
    using True ob(1) by (auto simp: GroupAcceptRequest_def Let_def accepts_def f1_def f2_def)
  moreover have "replicates t ?b"
    using ob(3) files lines2 args slash by (intro replicates_pushed [where ps = ?ps]) simp_all
  ultimately show thesis using that [of ?b] True ob(2) lines2 by auto
qed


section \<open>Leaving\<close>

definition leaves :: "tracker \<Rightarrow> string \<Rightarrow> string \<Rightarrow> bool" where
  "leaves t g u \<longleftrightarrow> groups t g \<noteq> None \<and> groups t g \<noteq> Some u \<and> u \<in> disk_members (disk t) g"

lemma GroupLeave_spec:
  assumes inv: "tracker_inv t" and args: "good_group g" "slash \<notin> set u" "token g" "token u"
  obtains t' where
    "GroupLeave g u t = Some (leaves t g u, t')"
    "tracker_inv t'" "replicates t t'" "leaves t g u \<Longrightarrow> coherent t'"
    "\<not> leaves t g u \<Longrightarrow> t' = t\<lparr>group_members := group_members t'\<rparr>"
    "file_lines (disk t') =
      (if leaves t g u
       then (file_lines (disk t))
         (members_path g := filter (\<lambda>l. fld l 0 \<noteq> u) (file_lines (disk t) (members_path g)),
          shares_path g := filter (\<lambda>l. fld l 2 \<noteq> u) (file_lines (disk t) (shares_path g)),
          user_path u := filter (\<lambda>l. fld l 0 \<noteq> g) (file_lines (disk t) (user_path u)))
       else file_lines (disk t))"
proof (cases "leaves t g u")
  case False
  show thesis
  proof (cases "groups t g")
    case None
    then have "GroupLeave g u t = Some (False, t)" by (simp add: GroupLeave_def)
    then show thesis using that [of t] False inv by (simp add: replicates_same)
  next
    case (Some owner)
    then have "GroupLeave g u t = Some (False, FetchGroupMembers g t)"
      using False by (auto simp: GroupLeave_def leaves_def)
    moreover have "tracker_inv (FetchGroupMembers g t)" using inv by (simp add: tracker_inv_def)
    moreover have "FetchGroupMembers g t =
        t\<lparr>group_members := group_members (FetchGroupMembers g t)\<rparr>"
      by (simp add: FetchGroupMembers_def)
    ultimately show thesis using that [of "FetchGroupMembers g t"] False by (simp add: replicates_same)
  qed
next
  case True
  note wf = tracker_invD [OF inv]
  have slash: "slash \<notin> set g" using args by (simp add: good_group_def)
  let ?m = "filter (\<lambda>l. fld l 0 \<noteq> u) (file_lines (disk t) (members_path g))"
  let ?s = "filter (\<lambda>l. fld l 2 \<noteq> u) (file_lines (disk t) (shares_path g))"
  let ?u = "filter (\<lambda>l. fld l 0 \<noteq> g) (file_lines (disk t) (user_path u))"
  define f1 where "f1 = replace_app (disk t) (members_path g) ?m"
  define f2 where "f2 = replace_app f1 (shares_path g) ?s"
  define f3 where "f3 = replace_app f2 (user_path u) ?u"
  have f1: "wf_disk f1" using wf by (auto simp: f1_def intro!: wf_replace)
  have l1: "file_lines f1 = (file_lines (disk t))(members_path g := ?m)"
    using wf by (simp add: f1_def file_lines_fun)
  have f2: "wf_disk f2" using f1 l1 args by (auto simp: f2_def intro!: wf_replace)
  have l2: "file_lines f2 = (file_lines (disk t))(members_path g := ?m, shares_path g := ?s)"
    using f1 l1 args by (simp add: f2_def file_lines_fun)
  have f3: "wf_disk f3" using f2 l2 by (auto simp: f3_def intro!: wf_replace)
  have l3: "file_lines f3 =
      (file_lines (disk t))(members_path g := ?m, shares_path g := ?s, user_path u := ?u)"
    using f2 l2 by (simp add: f3_def file_lines_fun)
  have ex: "exists_file f3 p" if "p \<in> base_files \<or> p \<in> {members_path g, shares_path g, user_path u}" for p
  proof -
    have p: "p \<noteq> temp_path" using that by auto
    have op: "openable f1 (shares_path g)" "openable f2 (user_path u)"
      using wf(2) slash args by (simp_all add: f1_def f2_def)
    have e1: "exists_file f1 p" if "p \<in> base_files \<or> p = members_path g"
      using that wf(2) wf(6) [of p] p slash
      by (auto simp: f1_def intro: exists_replace_mono exists_replace_self)
    have e2: "exists_file f2 p" if "p \<in> base_files \<or> p \<in> {members_path g, shares_path g}"
      using that e1 f1 op p by (auto simp: f2_def intro: exists_replace_mono exists_replace_self)
    show ?thesis
      using that e2 f2 op p by (auto simp: f3_def intro: exists_replace_mono exists_replace_self)
  qed
  have d1: "DeleteLine_field (members_path g) u 0 (disk t) = Some f1"
    using wf by (simp add: f1_def DeleteLine_field_wf)
  have d2: "DeleteLine_field (shares_path g) u 2 f1 = Some f2"
    using f1 l1 args by (simp add: f2_def DeleteLine_field_wf)
  have d3: "DeleteLine_field (user_path u) g 0 f2 = Some f3"
    using f2 l2 by (simp add: f3_def DeleteLine_field_wf)
  let ?ps = "[members_path g, shares_path g, user_path u]"
  have files: "\<forall>p\<in>base_files \<union> set ?ps. exists_file f3 p" using ex by auto
  let ?a = "FetchGroupMembers g t"
  obtain ob where ob: "Syncs ?ps (?a\<lparr>disk := f3\<rparr>) = Some (?a\<lparr>disk := f3, outbox := ob\<rparr>)"
    "tracker_inv (?a\<lparr>disk := f3, outbox := ob\<rparr>)" "ob = outbox t @ pushed (link t) f3 ?ps"
    using commit_step [of ?a f3 ?ps] f3 wf(3) files by auto
  let ?b = "?a\<lparr>disk := f3, outbox := ob\<rparr>"
  obtain owner where "groups t g = Some owner" "owner \<noteq> u" "u \<in> disk_members (disk t) g"
    using True by (auto simp: leaves_def)
  then have "GroupLeave g u t = Some (True, fetched ?b)"
    using d1 d2 d3 ob(1) tracker_invD(4) [OF ob(2)] by (simp add: GroupLeave_def)
  moreover have "replicates t (fetched ?b)"
    using ob(3) files l3 tracker_invD(5) [OF ob(2)] args slash
    by (intro replicates_pushed [where ps = ?ps]) simp_all
  ultimately show thesis using that [of "fetched ?b"] True ob(2) l3 by simp
qed

end
