(* ===== verification/Tracker_Shares.thy ===== *)
theory Tracker_Shares
  imports Tracker_Groups
begin

text \<open>
  The file handlers of tracker/tracker.cpp: \<open>GroupFileUpload\<close>, \<open>GroupStopShare\<close>, \<open>GroupFileList\<close>,
  \<open>SendSHA\<close>, \<open>SendSeeders\<close>, \<open>GetFullPath\<close>, \<open>UpdateDownload\<close>, \<open>ShowDownloads\<close> and
  \<open>CompleteDownload\<close>. A group's shares file has lines \<open>hash size user name\<close>, a user's file has
  lines \<open>group name path\<close>; every handler finds fields by \<open>split(line,' ')[i]\<close>.
\<close>


section \<open>Definitions\<close>

definition GroupFileUpload ::
  "string \<Rightarrow> string \<Rightarrow> string \<Rightarrow> string \<Rightarrow> string \<Rightarrow> string \<Rightarrow> tracker \<Rightarrow> (bool \<times> tracker) option" where
  "GroupFileUpload command1 command2 command3 command4 command5 command6 t =
     (if groups t command3 = None then Some (False, t)
      else
        let t = FetchGroupMembers command3 t in
        if command4 \<notin> group_members t then Some (False, t)
        else do {
          already \<leftarrow> CheckGroupFiles command1 (shares_path command3) command4 (disk t);
          if already then Some (True, t)
          else do {
            file_name \<leftarrow> GetGroupFileName command1 (shares_path command3) (disk t);
            let command5 = (if file_name \<noteq> [] then file_name else command5);
            clash \<leftarrow> CheckIntegrity command1 (shares_path command3) command5 (disk t);
            if clash then Some (False, t)
            else
              let f = file_append (disk t) (shares_path command3)
                        (endl (join sp [command1, command2, command4, command5]));
                  f = file_append f (user_path command4) (endl (join sp [command3, command5, command6]))
              in do {
                t \<leftarrow> Syncs [shares_path command3, user_path command4] (t\<lparr>disk := f\<rparr>);
                Some (True, t)
              }
          }
        })"

definition GroupStopShare ::
  "string \<Rightarrow> string \<Rightarrow> string \<Rightarrow> tracker \<Rightarrow> (bool \<times> tracker) option" where
  "GroupStopShare command1 command2 command3 t =
     (if groups t command1 = None \<or> credentials t command3 = None then Some (False, t)
      else
        let t = FetchGroupMembers command1 t in
        if command3 \<notin> group_members t then Some (False, t)
        else do {
          kept \<leftarrow> filter_opt
            (\<lambda>line. do { n \<leftarrow> field line 3;
                         if n = command2 then do { u \<leftarrow> field line 2; Some (u \<noteq> command3) }
                         else Some True })
            (file_lines (disk t) (shares_path command1));
          let f = replace_out (disk t) (shares_path command1) kept;
          kept2 \<leftarrow> filter_opt
            (\<lambda>line. do { g \<leftarrow> field line 0;
                         if g = command1 then do { n \<leftarrow> field line 1; Some (n \<noteq> command2) }
                         else Some True })
            (file_lines f (user_path command3));
          let f = replace_out f (user_path command3) kept2;
          t \<leftarrow> Syncs [shares_path command1, user_path command3] (t\<lparr>disk := f\<rparr>);
          Some (True, t)
        })"

text \<open>The names go through a \<open>set<string>\<close>: the reply lists them once each, in ascending order.\<close>

definition GroupFileList :: "string \<Rightarrow> tracker \<Rightarrow> (string \<times> tracker) option" where
  "GroupFileList command1 t =
     do {
       t \<leftarrow> FetchDetails t;
       if groups t command1 = None then Some ([], t)
       else do {
         names \<leftarrow> map_opt (\<lambda>line. field line 3) (file_lines (disk t) (shares_path command1));
         Some (unlines (sorted_list_of_set (set names)), t)
       }
     }"

text \<open>
  \<open>file_hash.insert\<close> keeps the first entry of a key, as \<open>map_of\<close> does. The download is recorded
  before the file is looked up.
\<close>

definition SendSHA :: "string \<Rightarrow> string \<Rightarrow> string \<Rightarrow> tracker \<Rightarrow> (string \<times> tracker) option" where
  "SendSHA command1 command2 command3 t =
     do {
       t \<leftarrow> FetchDetails t;
       if groups t command1 = None then Some ([], t)
       else
         let t = FetchGroupMembers command1 t in
         if command3 \<notin> group_members t then Some ([], t)
         else do {
           file_hash \<leftarrow> map_opt (\<lambda>line. do { n \<leftarrow> field line 3; h \<leftarrow> field line 0; Some (n, h) })
                          (file_lines (disk t) (shares_path command1));
           t \<leftarrow> Sync (downloading_path command3)
                  (t\<lparr>disk := file_append (disk t) (downloading_path command3)
                              (endl (join sp [command1, command2]))\<rparr>);
           Some (case map_of file_hash command2 of None \<Rightarrow> [] | Some h \<Rightarrow> h, t)
         }
     }"

text \<open>The loop of \<open>SendSeeders\<close> with its two variables.\<close>

fun SendSeeders_loop ::
  "string set \<Rightarrow> string \<Rightarrow> string list \<Rightarrow> string \<times> string set \<Rightarrow> (string \<times> string set) option" where
  "SendSeeders_loop on command2 [] (size', seeders) = Some (size', seeders)"
| "SendSeeders_loop on command2 (line # ls) (size', seeders) =
     do {
       n \<leftarrow> field line 3;
       if n = command2 then do {
         size' \<leftarrow> field line 1;
         u \<leftarrow> field line 2;
         SendSeeders_loop on command2 ls (size', if u \<in> on then insert u seeders else seeders)
       }
       else SendSeeders_loop on command2 ls (size', seeders)
     }"

definition SendSeeders :: "string \<Rightarrow> string \<Rightarrow> string \<Rightarrow> tracker \<Rightarrow> (string \<times> tracker) option" where
  "SendSeeders command1 command2 command3 t =
     do {
       t \<leftarrow> FetchDetails t;
       (size', seeders) \<leftarrow> SendSeeders_loop (online t) command2
                            (file_lines (disk t) (shares_path command1)) ([], {});
       let data = concat (map (\<lambda>i. i @ [sp]) (sorted_list_of_set seeders));
       Some (if data \<noteq> [] then data @ size' else data, t)
     }"

text \<open>The only handler that neither reloads nor takes the lock.\<close>

definition GetFullPath :: "string \<Rightarrow> string \<Rightarrow> string \<Rightarrow> tracker \<Rightarrow> (string \<times> tracker) option" where
  "GetFullPath command1 command2 command3 t =
     do {
       r \<leftarrow> find_opt
         (\<lambda>line. do { g \<leftarrow> field line 0;
                      if g = command2 then do { n \<leftarrow> field line 1; Some (n = command3) }
                      else Some False })
         (file_lines (disk t) (user_path command1));
       case r of None \<Rightarrow> Some ([], t) | Some line \<Rightarrow> do { p \<leftarrow> field line 2; Some (p, t) }
     }"

definition UpdateDownload ::
  "string \<Rightarrow> string \<Rightarrow> string \<Rightarrow> string \<Rightarrow> tracker \<Rightarrow> tracker option" where
  "UpdateDownload command1 command2 command3 command4 t =
     do {
       t \<leftarrow> FetchDetails t;
       r \<leftarrow> find_opt (\<lambda>line. do { n \<leftarrow> field line 3; Some (n = command2) })
              (file_lines (disk t) (shares_path command1));
       (data, size') \<leftarrow> (case r of None \<Rightarrow> Some ([], [])
                        | Some line \<Rightarrow> do { h \<leftarrow> field line 0; s \<leftarrow> field line 1; Some (h, s) });
       have \<leftarrow> find_opt (\<lambda>line. do { n \<leftarrow> field line 1; Some (n = command2) })
                 (file_lines (disk t) (user_path command4));
       if have \<noteq> None then Some t
       else
         let f = file_append (disk t) (user_path command4)
                   (endl (join sp [command1, command2, command3]));
             f = file_append f (shares_path command1) (endl (join sp [data, size', command4, command2]))
         in Syncs [shares_path command1, user_path command4] (t\<lparr>disk := f\<rparr>)
     }"

definition ShowDownloads :: "string \<Rightarrow> tracker \<Rightarrow> (string \<times> tracker) option" where
  "ShowDownloads command1 t =
     do {
       t \<leftarrow> FetchDetails t;
       Some (unlines (map (\<lambda>line. ''[D] '' @ line) (file_lines (disk t) (downloading_path command1))
                      @ map (\<lambda>line. ''[C] '' @ line) (file_lines (disk t) (downloaded_path command1))),
             t)
     }"

definition CompleteDownload ::
  "string \<Rightarrow> string \<Rightarrow> string \<Rightarrow> string \<Rightarrow> tracker \<Rightarrow> tracker option" where
  "CompleteDownload command1 command2 command3 command4 t =
     do {
       t \<leftarrow> FetchDetails t;
       let target = command1 @ [sp] @ command2;
       let f = DeleteLine (downloading_path command4) target (disk t);
       let f = file_append f (downloaded_path command4) (endl target);
       Syncs [downloaded_path command4, downloading_path command4] (t\<lparr>disk := f\<rparr>)
     }"


section \<open>Fields of stored lines\<close>

lemma split_loop_subset: "x \<in> set (split_loop d s temp []) \<Longrightarrow> set x \<subseteq> set temp \<union> set s"
proof (induction s arbitrary: temp)
  case (Cons c s)
  show ?case
  proof (cases "c = d")
    case True
    then have "x = temp \<or> x \<in> set (split_loop d s [] [])"
      using Cons.prems split_loop_acc [of d s "[]" "[temp]"] by simp
    then show ?thesis using Cons.IH [of "[]"] by auto
  next
    case False
    then show ?thesis using Cons.IH [of "temp @ [c]"] Cons.prems by auto
  qed
qed simp

lemma fld_subset: "i < length (split_str l sp) \<Longrightarrow> set (fld l i) \<subseteq> set l"
  using split_loop_subset [of "fld l i" sp l "[]"] by (simp add: fld_def split_str_def)

lemma file_lines_nl: "l \<in> set (file_lines f p) \<Longrightarrow> nl \<notin> set l"
  by (auto simp: file_lines_def split: option.splits dest: getlines_nl_free)

lemma wf_fld_clean:
  assumes "wf_disk f" "l \<in> set (file_lines f p)" "i < min_fields p"
  shows "sp \<notin> set (fld l i)" "nl \<notin> set (fld l i)"
proof -
  have "i < length (split_str l sp)" using assms by (force simp: wf_disk_def fields_ok_def)
  then show "sp \<notin> set (fld l i)" "nl \<notin> set (fld l i)"
    using fld_sp_free fld_subset file_lines_nl [OF assms(2)] by blast+
qed

lemma min_fields_user_le [simp]: "min_fields (user_path u) \<le> Suc (Suc (Suc 0))"
  by (auto simp: min_fields_def between_iff path_defs)

lemma clean_join [simp]:
  "nl \<notin> set (join sp xs) \<longleftrightarrow> (\<forall>x\<in>set xs. nl \<notin> set x)"
  by (induction sp xs rule: join.induct) auto


section \<open>Uploading\<close>

definition has_share :: "files \<Rightarrow> string \<Rightarrow> string \<Rightarrow> string \<Rightarrow> bool" where
  "has_share f g h u \<longleftrightarrow> (\<exists>l\<in>set (file_lines f (shares_path g)). fld l 0 = h \<and> fld l 2 = u)"

text \<open>The name under which a hash is shared: the one of its first share, if that is not empty.\<close>

definition share_name :: "files \<Rightarrow> string \<Rightarrow> string \<Rightarrow> string \<Rightarrow> string" where
  "share_name f g h n =
     (case find (\<lambda>l. fld l 0 = h) (file_lines f (shares_path g)) of
        None \<Rightarrow> n
      | Some l \<Rightarrow> if fld l 3 \<noteq> [] then fld l 3 else n)"

definition name_clash :: "files \<Rightarrow> string \<Rightarrow> string \<Rightarrow> string \<Rightarrow> bool" where
  "name_clash f g h n \<longleftrightarrow> (\<exists>l\<in>set (file_lines f (shares_path g)). fld l 0 \<noteq> h \<and> fld l 3 = n)"

definition uploads :: "tracker \<Rightarrow> string \<Rightarrow> string \<Rightarrow> string \<Rightarrow> string \<Rightarrow> bool" where
  "uploads t h g u n \<longleftrightarrow>
     groups t g \<noteq> None \<and> u \<in> disk_members (disk t) g \<and> \<not> has_share (disk t) g h u \<and>
     \<not> name_clash (disk t) g h (share_name (disk t) g h n)"

lemma share_name_clean:
  assumes "wf_disk f" "token n"
  shows "sp \<notin> set (share_name f g h n)" "nl \<notin> set (share_name f g h n)"
  using assms wf_fld_clean [OF assms(1), of _ "shares_path g" 3]
  by (auto simp: share_name_def split: option.splits dest: find_SomeD)

lemma GroupFileUpload_wf:
  assumes "wf_disk (disk t)"
  shows "GroupFileUpload h s g u n path t =
    (if groups t g = None then Some (False, t)
     else if u \<notin> disk_members (disk t) g then Some (False, FetchGroupMembers g t)
     else if has_share (disk t) g h u then Some (True, FetchGroupMembers g t)
     else if name_clash (disk t) g h (share_name (disk t) g h n) then Some (False, FetchGroupMembers g t)
     else do {
       t \<leftarrow> Syncs [shares_path g, user_path u]
         (FetchGroupMembers g t\<lparr>disk :=
           file_append (file_append (disk t) (shares_path g)
               (endl (join sp [h, s, u, share_name (disk t) g h n])))
             (user_path u) (endl (join sp [g, share_name (disk t) g h n, path]))\<rparr>);
       Some (True, t) })"
proof -
  have "(if x \<noteq> [] then x else n) = share_name (disk t) g h n"
    if "x = (case find (\<lambda>l. fld l 0 = h) (file_lines (disk t) (shares_path g)) of
            None \<Rightarrow> [] | Some l \<Rightarrow> fld l 3)" for x
    using that by (auto simp: share_name_def split: option.splits)
  from this [OF refl] show ?thesis
    using CheckGroupFiles_wf [OF assms, of h g u, folded has_share_def]
      GetGroupFileName_wf [OF assms, of h g] CheckIntegrity_wf [OF assms, of h g, folded name_clash_def]
    by (simp add: GroupFileUpload_def Let_def del: join.simps)
qed

lemma GroupFileUpload_spec:
  assumes inv: "tracker_inv t" and args: "token h" "token s" "token g" "token u" "token n" "token path"
    "slash \<notin> set g" "slash \<notin> set u"
  obtains t' where
    "GroupFileUpload h s g u n path t = Some
      (groups t g \<noteq> None \<and> u \<in> disk_members (disk t) g \<and>
       (has_share (disk t) g h u \<or> \<not> name_clash (disk t) g h (share_name (disk t) g h n)), t')"
    "tracker_inv t'" "replicates t t'"
    "file_lines (disk t') =
      (if uploads t h g u n
       then (file_lines (disk t))
         (shares_path g := file_lines (disk t) (shares_path g) @ [join sp [h, s, u, share_name (disk t) g h n]],
          user_path u := file_lines (disk t) (user_path u) @ [join sp [g, share_name (disk t) g h n, path]])
       else file_lines (disk t))"
    "pending_group_requests t' = pending_group_requests t"
    "credentials t' = credentials t" "groups t' = groups t" "online t' = online t"
proof (cases "uploads t h g u n")
  case False
  let ?t' = "if groups t g = None then t else FetchGroupMembers g t"
  have "GroupFileUpload h s g u n path t = Some
      (groups t g \<noteq> None \<and> u \<in> disk_members (disk t) g \<and>
       (has_share (disk t) g h u \<or> \<not> name_clash (disk t) g h (share_name (disk t) g h n)), ?t')"
    using False by (auto simp: GroupFileUpload_wf [OF tracker_invD(1) [OF inv]] uploads_def)
  moreover have "tracker_inv ?t'" using inv by (simp add: tracker_inv_def)
  ultimately show thesis using that [of ?t'] False by (simp add: replicates_same)
next
  case True
  note wf = tracker_invD(1-3) [OF inv]
  let ?n = "share_name (disk t) g h n"
  let ?sl = "join sp [h, s, u, ?n]" and ?ul = "join sp [g, ?n, path]"
  define f1 where "f1 = file_append (disk t) (shares_path g) (endl ?sl)"
  define f2 where "f2 = file_append f1 (user_path u) (endl ?ul)"
  note clean = share_name_clean [OF wf(1) args(5), of g h]
  have "fields_ok (shares_path g) ?sl" using clean args by (intro fields_ok_join) auto
  then have f1: "wf_disk f1" "file_lines f1 = (file_lines (disk t))
      (shares_path g := file_lines (disk t) (shares_path g) @ [?sl])"
    "exists_file (disk t) q \<or> q = shares_path g \<Longrightarrow> exists_file f1 q" for q
    using append_step [of "disk t" "shares_path g" ?sl] wf clean args
    by (simp_all add: f1_def del: join.simps)
  have "fields_ok (user_path u) ?ul" using clean args by (intro fields_ok_join) auto
  then have f2: "wf_disk f2" "file_lines f2 = (file_lines f1)(user_path u := file_lines f1 (user_path u) @ [?ul])"
    "exists_file f1 q \<or> q = user_path u \<Longrightarrow> exists_file f2 q" for q
    using append_step [of f1 "user_path u" ?ul] f1(1) clean args
    by (simp_all add: f2_def del: join.simps)
  obtain ob where ob:
    "Syncs [shares_path g, user_path u] (FetchGroupMembers g t\<lparr>disk := f2\<rparr>) =
      Some (FetchGroupMembers g t\<lparr>disk := f2, outbox := ob\<rparr>)"
    "tracker_inv (FetchGroupMembers g t\<lparr>disk := f2, outbox := ob\<rparr>)"
    "ob = outbox t @ pushed (link t) f2 [shares_path g, user_path u]"
    using commit_step [of "FetchGroupMembers g t" f2 "[shares_path g, user_path u]"]
      f2(1,3) f1(3) tracker_invD(6) [OF inv] wf(3) by auto
  have "GroupFileUpload h s g u n path t = Some (True, FetchGroupMembers g t\<lparr>disk := f2, outbox := ob\<rparr>)"
    using True ob(1)
    by (simp add: GroupFileUpload_wf [OF wf(1)] uploads_def f1_def f2_def del: join.simps)
  moreover have "groups t g \<noteq> None \<and> u \<in> disk_members (disk t) g \<and>
       (has_share (disk t) g h u \<or> \<not> name_clash (disk t) g h (share_name (disk t) g h n))"
    using True by (simp add: uploads_def)
  moreover have "replicates t (FetchGroupMembers g t\<lparr>disk := f2, outbox := ob\<rparr>)"
    using ob(3) f1 f2 args
    by (intro replicates_pushed [where ps = "[shares_path g, user_path u]"]) (auto simp del: join.simps)
  ultimately show thesis
    using that [of "FetchGroupMembers g t\<lparr>disk := f2, outbox := ob\<rparr>"] ob(2) True f1(2) f2(2)
    by (simp del: join.simps)
qed


section \<open>Stopping a share\<close>

definition stops :: "tracker \<Rightarrow> string \<Rightarrow> string \<Rightarrow> bool" where
  "stops t g u \<longleftrightarrow> groups t g \<noteq> None \<and> credentials t u \<noteq> None \<and> u \<in> disk_members (disk t) g"

lemma GroupStopShare_spec:
  assumes inv: "tracker_inv t" and args: "slash \<notin> set g" "good_user u" "token g" "token u"
  obtains t' where
    "GroupStopShare g n u t = Some (stops t g u, t')"
    "tracker_inv t'" "replicates t t'"
    "file_lines (disk t') =
      (if stops t g u
       then (file_lines (disk t))
         (shares_path g := filter (\<lambda>l. \<not> (fld l 3 = n \<and> fld l 2 = u)) (file_lines (disk t) (shares_path g)),
          user_path u := filter (\<lambda>l. \<not> (fld l 0 = g \<and> fld l 1 = n)) (file_lines (disk t) (user_path u)))
       else file_lines (disk t))"
    "pending_group_requests t' = pending_group_requests t"
    "credentials t' = credentials t" "groups t' = groups t" "online t' = online t"
proof (cases "stops t g u")
  case False
  let ?t' = "if groups t g = None \<or> credentials t u = None then t else FetchGroupMembers g t"
  have "GroupStopShare g n u t = Some (False, ?t')"
    using False by (auto simp: GroupStopShare_def stops_def)
  moreover have "tracker_inv ?t'" using inv by (simp add: tracker_inv_def)
  ultimately show thesis using that [of ?t'] False by (simp add: replicates_same)
next
  case True
  note wf = tracker_invD(1-3) [OF inv]
  have slash: "slash \<notin> set u" using args by (simp add: good_user_def)
  let ?s = "filter (\<lambda>l. \<not> (fld l 3 = n \<and> fld l 2 = u)) (file_lines (disk t) (shares_path g))"
  let ?u = "filter (\<lambda>l. \<not> (fld l 0 = g \<and> fld l 1 = n)) (file_lines (disk t) (user_path u))"
  define f1 where "f1 = replace_app (disk t) (shares_path g) ?s"
  define f2 where "f2 = replace_app f1 (user_path u) ?u"
  have f1: "wf_disk f1" "file_lines f1 = (file_lines (disk t))(shares_path g := ?s)"
    "q \<noteq> temp_path \<Longrightarrow> exists_file (disk t) q \<or> q = shares_path g \<Longrightarrow> exists_file f1 q" for q
    using replace_step [of "disk t" "shares_path g" ?s] wf args by (auto simp: f1_def)
  have f2: "wf_disk f2" "file_lines f2 = (file_lines f1)(user_path u := ?u)"
    "q \<noteq> temp_path \<Longrightarrow> exists_file f1 q \<or> q = user_path u \<Longrightarrow> exists_file f2 q" for q
    using replace_step [of f1 "user_path u" ?u] f1 slash by (auto simp: f2_def)
  obtain ob where ob:
    "Syncs [shares_path g, user_path u] (FetchGroupMembers g t\<lparr>disk := f2\<rparr>) =
      Some (FetchGroupMembers g t\<lparr>disk := f2, outbox := ob\<rparr>)"
    "tracker_inv (FetchGroupMembers g t\<lparr>disk := f2, outbox := ob\<rparr>)"
    "ob = outbox t @ pushed (link t) f2 [shares_path g, user_path u]"
    using commit_step [of "FetchGroupMembers g t" f2 "[shares_path g, user_path u]"]
      f2(1,3) f1(3) tracker_invD(6) [OF inv] wf(3) by (auto simp: base_files_def)
  have k1: "filter_opt (\<lambda>l. do { m \<leftarrow> field l 3;
        if m = n then do { v \<leftarrow> field l 2; Some (v \<noteq> u) } else Some True })
      (file_lines (disk t) (shares_path g)) = Some ?s"
    using wf_fld [OF wf(1)] by (intro filter_opt_total) auto
  have k2: "filter_opt (\<lambda>l. do { h \<leftarrow> field l 0;
        if h = g then do { m \<leftarrow> field l 1; Some (m \<noteq> n) } else Some True })
      (file_lines f1 (user_path u)) = Some ?u"
    using wf_fld [OF wf(1)] args f1(2) by (subst filter_opt_total) auto
  have r1: "replace_out (disk t) (shares_path g) ?s = f1" and r2: "replace_out f1 (user_path u) ?u = f2"
    using wf(2) f1(1) by (simp_all only: f1_def f2_def replace_out_app wf_files_ok)
  have "GroupStopShare g n u t = Some (True, FetchGroupMembers g t\<lparr>disk := f2, outbox := ob\<rparr>)"
    using True ob(1) k1 k2 r1 r2 by (simp add: GroupStopShare_def stops_def Let_def)
  moreover have "replicates t (FetchGroupMembers g t\<lparr>disk := f2, outbox := ob\<rparr>)"
    using ob(3) f1 f2 args slash
    by (intro replicates_pushed [where ps = "[shares_path g, user_path u]"]) auto
  ultimately show thesis
    using that [of "FetchGroupMembers g t\<lparr>disk := f2, outbox := ob\<rparr>"] ob(2) True f1(2) f2(2) by simp
qed


section \<open>Queries\<close>

lemma GroupFileList_spec:
  assumes inv: "tracker_inv t"
  shows "GroupFileList g t = Some
    (if disk_groups (disk t) g = None then []
     else unlines (sorted_list_of_set ((\<lambda>l. fld l 3) ` set (file_lines (disk t) (shares_path g)))),
     fetched t)"
proof -
  have "map_opt (\<lambda>l. field l 3) (file_lines (disk t) (shares_path g)) =
      Some (map (\<lambda>l. fld l 3) (file_lines (disk t) (shares_path g)))"
    using wf_fld [OF tracker_invD(1) [OF inv]] by (intro map_opt_total) auto
  then show ?thesis using tracker_invD(4,5) [OF inv] by (simp add: GroupFileList_def)
qed

text \<open>The hash a group lists for a file name: that of the first share with the name.\<close>

definition listed_hash :: "files \<Rightarrow> string \<Rightarrow> string \<Rightarrow> string option" where
  "listed_hash f g n =
     map_of (map (\<lambda>l. (fld l 3, fld l 0)) (file_lines f (shares_path g))) n"

definition may_read :: "files \<Rightarrow> string \<Rightarrow> string \<Rightarrow> bool" where
  "may_read f g u \<longleftrightarrow> disk_groups f g \<noteq> None \<and> u \<in> disk_members f g"

lemma SendSHA_spec:
  assumes inv: "tracker_inv t" and args: "token g" "token n" "slash \<notin> set u" "token u"
  obtains t' where
    "SendSHA g n u t = Some
      (if may_read (disk t) g u then (case listed_hash (disk t) g n of None \<Rightarrow> [] | Some h \<Rightarrow> h) else [], t')"
    "tracker_inv t'" "coherent t'" "replicates t t'"
    "file_lines (disk t') =
      (if may_read (disk t) g u
       then (file_lines (disk t))
         (downloading_path u := file_lines (disk t) (downloading_path u) @ [join sp [g, n]])
       else file_lines (disk t))"
proof (cases "may_read (disk t) g u")
  case False
  let ?t' = "if disk_groups (disk t) g = None then fetched t else FetchGroupMembers g (fetched t)"
  have "SendSHA g n u t = Some ([], ?t')"
    using False tracker_invD(4,5) [OF inv] by (auto simp: SendSHA_def may_read_def)
  moreover have "tracker_inv ?t'" "coherent ?t'"
    using tracker_inv_fetched [OF inv] coherent_fetched [of t]
    by (simp_all add: tracker_inv_def coherent_def)
  ultimately show thesis using that [of ?t'] False inv by (simp add: replicates_same)
next
  case True
  note wf = tracker_invD(1-5) [OF inv]
  let ?l = "join sp [g, n]"
  define f where "f = file_append (disk t) (downloading_path u) (endl ?l)"
  have f: "wf_disk f" "file_lines f = (file_lines (disk t))
      (downloading_path u := file_lines (disk t) (downloading_path u) @ [?l])"
    "exists_file (disk t) q \<or> q = downloading_path u \<Longrightarrow> exists_file f q" for q
    using append_step [of "disk t" "downloading_path u" ?l] wf args
    by (simp_all add: f_def del: join.simps)
  let ?a = "FetchGroupMembers g (fetched t)"
  obtain ob where ob: "Syncs [downloading_path u] (?a\<lparr>disk := f\<rparr>) = Some (?a\<lparr>disk := f, outbox := ob\<rparr>)"
    "tracker_inv (?a\<lparr>disk := f, outbox := ob\<rparr>)" "ob = outbox t @ pushed (link t) f [downloading_path u]"
    using commit_step [of ?a f "[downloading_path u]"] f(1,3) tracker_invD(6) [OF inv] wf(3) by auto
  have sy: "Sync (downloading_path u) (?a\<lparr>disk := f\<rparr>) = Some (?a\<lparr>disk := f, outbox := ob\<rparr>)"
    using ob(1) by simp
  have k: "map_opt (\<lambda>l. do { m \<leftarrow> field l 3; h \<leftarrow> field l 0; Some (m, h) })
      (file_lines (disk t) (shares_path g)) =
      Some (map (\<lambda>l. (fld l 3, fld l 0)) (file_lines (disk t) (shares_path g)))"
    using wf_fld [OF wf(1)] by (intro map_opt_total) auto
  have "SendSHA g n u t = Some
      (case listed_hash (disk t) g n of None \<Rightarrow> [] | Some h \<Rightarrow> h, ?a\<lparr>disk := f, outbox := ob\<rparr>)"
    using True sy k wf
    by (auto simp: SendSHA_def may_read_def listed_hash_def f_def [symmetric] simp del: join.simps)
  moreover have "coherent (?a\<lparr>disk := f, outbox := ob\<rparr>)"
    using f(2) by (intro coherent_cong [OF coherent_fetched [of t]]) (auto simp: base_files_def disk_members_def)
  moreover have "replicates t (?a\<lparr>disk := f, outbox := ob\<rparr>)"
    using ob(3) f args
    by (intro replicates_pushed [where ps = "[downloading_path u]"]) (auto simp del: join.simps)
  ultimately show thesis
    using that [of "?a\<lparr>disk := f, outbox := ob\<rparr>"] ob(2) True f(2) by (simp del: join.simps)
qed


definition shares_named :: "files \<Rightarrow> string \<Rightarrow> string \<Rightarrow> string list" where
  "shares_named f g n = filter (\<lambda>l. fld l 3 = n) (file_lines f (shares_path g))"

definition online_seeders :: "files \<Rightarrow> string \<Rightarrow> string \<Rightarrow> string set" where
  "online_seeders f g n = (\<lambda>l. fld l 2) ` set (shares_named f g n) \<inter> disk_online f"

definition listed_size :: "files \<Rightarrow> string \<Rightarrow> string \<Rightarrow> string" where
  "listed_size f g n =
     (if shares_named f g n = [] then [] else fld (last (shares_named f g n)) 1)"

lemma SendSeeders_loop_total:
  assumes "\<forall>l\<in>set ls. 4 \<le> length (split_str l sp)"
  shows "SendSeeders_loop on n ls (s, S) = Some
    (if filter (\<lambda>l. fld l 3 = n) ls = [] then s else fld (last (filter (\<lambda>l. fld l 3 = n) ls)) 1,
     S \<union> ((\<lambda>l. fld l 2) ` set (filter (\<lambda>l. fld l 3 = n) ls) \<inter> on))"
  using assms
proof (induction ls arbitrary: s S)
  case (Cons l ls)
  then have "field l 3 = Some (fld l 3)" "field l 1 = Some (fld l 1)" "field l 2 = Some (fld l 2)"
    by (auto intro!: field_fld)
  then show ?case using Cons by auto
qed simp

lemma SendSeeders_spec:
  assumes inv: "tracker_inv t"
  shows "SendSeeders g n x t = Some
    (let data = concat (map (\<lambda>u. u @ [sp]) (sorted_list_of_set (online_seeders (disk t) g n)))
     in if data \<noteq> [] then data @ listed_size (disk t) g n else [], fetched t)"
proof -
  have "\<forall>l\<in>set (file_lines (disk t) (shares_path g)). 4 \<le> length (split_str l sp)"
    using tracker_invD(1) [OF inv] min_fields_simps(3) [of g]
    by (auto simp: wf_disk_def fields_ok_def dest!: spec [of _ "shares_path g"])
  from SendSeeders_loop_total [OF this, of "disk_online (disk t)" n "[]" "{}"]
  have "SendSeeders_loop (disk_online (disk t)) n (file_lines (disk t) (shares_path g)) ([], {}) =
      Some (listed_size (disk t) g n, online_seeders (disk t) g n)"
    by (simp only: online_seeders_def listed_size_def shares_named_def Un_empty_left)
  then show ?thesis using tracker_invD(4,5) [OF inv] by (simp add: SendSeeders_def Let_def)
qed

definition recorded_path :: "files \<Rightarrow> string \<Rightarrow> string \<Rightarrow> string \<Rightarrow> string" where
  "recorded_path f u g n =
     (case find (\<lambda>l. fld l 0 = g \<and> fld l 1 = n) (file_lines f (user_path u)) of
        None \<Rightarrow> [] | Some l \<Rightarrow> fld l 2)"

lemma GetFullPath_spec:
  assumes inv: "tracker_inv t" and args: "good_user u"
  shows "GetFullPath u g n t = Some (recorded_path (disk t) u g n, t)"
proof -
  note wf = tracker_invD(1) [OF inv]
  have "\<forall>l\<in>set (file_lines (disk t) (user_path u)).
      do { h \<leftarrow> field l 0; if h = g then do { m \<leftarrow> field l 1; Some (m = n) } else Some False }
      = Some (fld l 0 = g \<and> fld l 1 = n)"
    using wf_fld [OF wf] args by simp
  from find_opt_total [OF this] show ?thesis
    using wf_fld [OF wf] args
    by (auto simp: GetFullPath_def recorded_path_def dest: find_SomeD split: option.splits)
qed

lemma ShowDownloads_spec:
  assumes "tracker_inv t"
  shows "ShowDownloads u t = Some
    (unlines (map (\<lambda>l. ''[D] '' @ l) (file_lines (disk t) (downloading_path u)) @
              map (\<lambda>l. ''[C] '' @ l) (file_lines (disk t) (downloaded_path u))), fetched t)"
  using tracker_invD(4,5) [OF assms] by (simp add: ShowDownloads_def)


section \<open>Recording downloads\<close>

definition records_file :: "files \<Rightarrow> string \<Rightarrow> string \<Rightarrow> bool" where
  "records_file f u n \<longleftrightarrow> (\<exists>l\<in>set (file_lines f (user_path u)). fld l 1 = n)"

definition first_share :: "files \<Rightarrow> string \<Rightarrow> string \<Rightarrow> string \<times> string" where
  "first_share f g n =
     (case find (\<lambda>l. fld l 3 = n) (file_lines f (shares_path g)) of
        None \<Rightarrow> ([], []) | Some l \<Rightarrow> (fld l 0, fld l 1))"

lemma first_share_clean:
  assumes "wf_disk f"
  shows "sp \<notin> set (fst (first_share f g n))" "nl \<notin> set (fst (first_share f g n))"
    "sp \<notin> set (snd (first_share f g n))" "nl \<notin> set (snd (first_share f g n))"
  using wf_fld_clean [OF assms, of _ "shares_path g" 0] wf_fld_clean [OF assms, of _ "shares_path g" 1]
  by (auto simp: first_share_def split: option.splits dest: find_SomeD)

lemma UpdateDownload_wf:
  assumes inv: "tracker_inv t" and args: "good_user u"
  shows "UpdateDownload g n path u t =
    (if records_file (disk t) u n then Some (fetched t)
     else Syncs [shares_path g, user_path u] (fetched t\<lparr>disk :=
       file_append (file_append (disk t) (user_path u) (endl (join sp [g, n, path])))
         (shares_path g)
         (endl (join sp [fst (first_share (disk t) g n), snd (first_share (disk t) g n), u, n]))\<rparr>))"
proof -
  note wf = tracker_invD [OF inv]
  let ?ss = "file_lines (disk t) (shares_path g)" and ?us = "file_lines (disk t) (user_path u)"
  have "\<forall>l\<in>set ?ss. do { m \<leftarrow> field l 3; Some (m = n) } = Some (fld l 3 = n)"
    using wf_fld [OF wf(1)] by simp
  note k1 = find_opt_total [OF this]
  have "\<forall>l\<in>set ?us. do { m \<leftarrow> field l 1; Some (m = n) } = Some (fld l 1 = n)"
    using wf_fld [OF wf(1)] args by simp
  note k2 = find_opt_total [OF this]
  have k3: "(case find (\<lambda>l. fld l 3 = n) ?ss of None \<Rightarrow> Some ([], [])
      | Some l \<Rightarrow> do { h \<leftarrow> field l 0; s \<leftarrow> field l 1; Some (h, s) }) = Some (first_share (disk t) g n)"
    using wf_fld [OF wf(1)]
    by (auto simp: first_share_def dest: find_SomeD split: option.splits)
  have "find (\<lambda>l. fld l 1 = n) ?us \<noteq> None \<longleftrightarrow> records_file (disk t) u n"
    using find_hit [of "\<lambda>l. fld l 1 = n" ?us] by (simp add: records_file_def)
  then show ?thesis
    using k1 k2 k3 wf(4,5)
    by (simp add: UpdateDownload_def Let_def case_prod_unfold del: join.simps not_None_eq)
qed

lemma UpdateDownload_spec:
  assumes inv: "tracker_inv t" and args: "token g" "token n" "token path" "token u"
    "slash \<notin> set g" "good_user u"
  obtains t' where
    "UpdateDownload g n path u t = Some t'"
    "tracker_inv t'" "replicates t t'"
    "credentials t' = disk_credentials (disk t)" "groups t' = disk_groups (disk t)"
    "online t' = disk_online (disk t)" "pending_group_requests t' = disk_pending (disk t)"
    "file_lines (disk t') =
      (if records_file (disk t) u n then file_lines (disk t)
       else (file_lines (disk t))
         (user_path u := file_lines (disk t) (user_path u) @ [join sp [g, n, path]],
          shares_path g := file_lines (disk t) (shares_path g) @
            [join sp [fst (first_share (disk t) g n), snd (first_share (disk t) g n), u, n]]))"
proof (cases "records_file (disk t) u n")
  case True
  then show thesis using that [of "fetched t"] UpdateDownload_wf [OF inv args(6)] inv
    by (simp add: replicates_same)
next
  case False
  note wf = tracker_invD(1-3) [OF inv]
  have slash: "slash \<notin> set u" using args by (simp add: good_user_def)
  note clean = first_share_clean [OF wf(1), of g n]
  let ?ul = "join sp [g, n, path]"
  let ?sl = "join sp [fst (first_share (disk t) g n), snd (first_share (disk t) g n), u, n]"
  define f1 where "f1 = file_append (disk t) (user_path u) (endl ?ul)"
  define f2 where "f2 = file_append f1 (shares_path g) (endl ?sl)"
  have "fields_ok (user_path u) ?ul" using args by (intro fields_ok_join) auto
  then have f1: "wf_disk f1"
    "file_lines f1 = (file_lines (disk t))(user_path u := file_lines (disk t) (user_path u) @ [?ul])"
    "exists_file (disk t) q \<or> q = user_path u \<Longrightarrow> exists_file f1 q" for q
    using append_step [of "disk t" "user_path u" ?ul] wf args slash
    by (simp_all add: f1_def del: join.simps)
  have "fields_ok (shares_path g) ?sl" using args clean by (intro fields_ok_join) auto
  then have f2: "wf_disk f2"
    "file_lines f2 = (file_lines f1)(shares_path g := file_lines f1 (shares_path g) @ [?sl])"
    "exists_file f1 q \<or> q = shares_path g \<Longrightarrow> exists_file f2 q" for q
    using append_step [of f1 "shares_path g" ?sl] f1(1) args clean
    by (simp_all add: f2_def del: join.simps)
  obtain ob where ob:
    "Syncs [shares_path g, user_path u] (fetched t\<lparr>disk := f2\<rparr>) = Some (fetched t\<lparr>disk := f2, outbox := ob\<rparr>)"
    "tracker_inv (fetched t\<lparr>disk := f2, outbox := ob\<rparr>)"
    "ob = outbox t @ pushed (link t) f2 [shares_path g, user_path u]"
    using commit_step [of "fetched t" f2 "[shares_path g, user_path u]"]
      f2(1,3) f1(3) tracker_invD(6) [OF inv] wf(3) by auto
  have "UpdateDownload g n path u t = Some (fetched t\<lparr>disk := f2, outbox := ob\<rparr>)"
    using False ob(1) UpdateDownload_wf [OF inv args(6)]
    by (simp add: f1_def f2_def del: join.simps)
  moreover have "replicates t (fetched t\<lparr>disk := f2, outbox := ob\<rparr>)"
    using ob(3) f1 f2 wf args slash
    by (intro replicates_pushed [where ps = "[shares_path g, user_path u]"]) (auto simp del: join.simps)
  ultimately show thesis
    using that [of "fetched t\<lparr>disk := f2, outbox := ob\<rparr>"] ob(2) False f1(2) f2(2)
    by (simp del: join.simps)
qed

lemma CompleteDownload_spec:
  assumes inv: "tracker_inv t" and args: "token g" "token n" "slash \<notin> set u" "token u"
  obtains t' where
    "CompleteDownload g n x u t = Some t'"
    "tracker_inv t'" "coherent t'" "replicates t t'"
    "file_lines (disk t') = (file_lines (disk t))
      (downloading_path u := filter (\<lambda>l. l \<noteq> join sp [g, n]) (file_lines (disk t) (downloading_path u)),
       downloaded_path u := file_lines (disk t) (downloaded_path u) @ [join sp [g, n]])"
proof -
  note wf = tracker_invD(1-5) [OF inv]
  let ?l = "join sp [g, n]"
  let ?d = "filter (\<lambda>l. l \<noteq> ?l) (file_lines (disk t) (downloading_path u))"
  define f1 where "f1 = replace_app (disk t) (downloading_path u) ?d"
  define f2 where "f2 = file_append f1 (downloaded_path u) (endl ?l)"
  have f1: "wf_disk f1" "file_lines f1 = (file_lines (disk t))(downloading_path u := ?d)"
    "q \<noteq> temp_path \<Longrightarrow> exists_file (disk t) q \<or> q = downloading_path u \<Longrightarrow> exists_file f1 q" for q
    using replace_step [of "disk t" "downloading_path u" ?d] wf args by (auto simp: f1_def)
  have f2: "wf_disk f2"
    "file_lines f2 = (file_lines f1)(downloaded_path u := file_lines f1 (downloaded_path u) @ [?l])"
    "exists_file f1 q \<or> q = downloaded_path u \<Longrightarrow> exists_file f2 q" for q
    using append_step [of f1 "downloaded_path u" ?l] f1(1) args by (simp_all add: f2_def del: join.simps)
  obtain ob where ob:
    "Syncs [downloaded_path u, downloading_path u] (fetched t\<lparr>disk := f2\<rparr>) =
      Some (fetched t\<lparr>disk := f2, outbox := ob\<rparr>)"
    "tracker_inv (fetched t\<lparr>disk := f2, outbox := ob\<rparr>)"
    "ob = outbox t @ pushed (link t) f2 [downloaded_path u, downloading_path u]"
    using commit_step [of "fetched t" f2 "[downloaded_path u, downloading_path u]"]
      f2(1,3) f1(3) tracker_invD(6) [OF inv] wf(3) by (auto simp: base_files_def)
  have "CompleteDownload g n x u t = Some (fetched t\<lparr>disk := f2, outbox := ob\<rparr>)"
    using ob(1) wf(4,5) by (simp add: CompleteDownload_def DeleteLine_def f1_def f2_def Let_def)
  moreover have "coherent (fetched t\<lparr>disk := f2, outbox := ob\<rparr>)"
    using f1(2) f2(2)
    by (intro coherent_cong [OF coherent_fetched [of t]]) (auto simp: base_files_def disk_members_def)
  moreover have "replicates t (fetched t\<lparr>disk := f2, outbox := ob\<rparr>)"
    using ob(3) f1 f2 wf args
    by (intro replicates_pushed [where ps = "[downloaded_path u, downloading_path u]"])
      (auto simp del: join.simps)
  ultimately show thesis
    using that [of "fetched t\<lparr>disk := f2, outbox := ob\<rparr>"] ob(2) f1(2) f2(2) by (simp del: join.simps)
qed

end
