(* ===== verification/Tracker_Kernel.thy ===== *)
theory Tracker_Kernel
  imports Tracker_Shares
begin

text \<open>
  \<open>TrackerKernel\<close> of tracker/tracker.cpp: one connection, one message, one handler, one reply.
  The datatype \<open>request\<close> lists the messages the peers send (peer/peer.cpp, peer/peerdownload.cpp),
  and \<open>message\<close> is their text; the dispatch of a message whose arguments are non-empty tokens is
  the call of its handler.
\<close>


section \<open>Definitions\<close>

definition reply_bool :: "(bool \<times> tracker) option \<Rightarrow> (string option \<times> tracker) option" where
  "reply_bool r = map_option (\<lambda>(b, t). (Some (if b then ''1'' else ''0''), t)) r"

definition reply_text :: "(string \<times> tracker) option \<Rightarrow> (string option \<times> tracker) option" where
  "reply_text r = map_option (\<lambda>(s, t). (Some s, t)) r"

definition no_reply :: "tracker option \<Rightarrow> (string option \<times> tracker) option" where
  "no_reply r = map_option (\<lambda>t. (None, t)) r"

text \<open>
  The dispatch. \<open>command_split\<close> starts as empty strings and \<open>operator>>\<close> leaves a string alone
  when no token is left, so a missing argument is empty.
\<close>

definition dispatch ::
  "env \<Rightarrow> ('c \<Rightarrow> nat \<Rightarrow> string \<times> 'c) \<Rightarrow> 'c \<Rightarrow> string \<Rightarrow> tracker \<Rightarrow> (string option \<times> tracker) option" where
  "dispatch E rd c command t =
     (let command_split = stream_gets 7 command; a = (\<lambda>i. command_split ! i) in
      if a 0 = ''login'' then reply_bool (UserLogin E (a 1) (a 2) (a 3) (a 4) t)
      else if a 0 = ''create_user'' then reply_bool (UserCreate E (a 1) (a 2) (a 3) (a 4) t)
      else if a 0 = ''create_group'' then reply_bool (GroupCreate (a 1) (a 2) t)
      else if a 0 = ''list_groups'' then reply_text (GroupList E t)
      else if a 0 = ''join_group'' then reply_bool (GroupJoin (a 1) (a 2) t)
      else if a 0 = ''list_requests'' then reply_text (GroupRequestList (a 1) (a 2) t)
      else if a 0 = ''accept_request'' then reply_bool (GroupAcceptRequest (a 1) (a 2) (a 3) t)
      else if a 0 = ''upload_file''
        then reply_bool (GroupFileUpload (a 1) (a 2) (a 3) (a 4) (a 5) (a 6) t)
      else if a 0 = ''list_files'' then reply_text (GroupFileList (a 1) t)
      else if a 0 = ''stop_share'' then reply_bool (GroupStopShare (a 1) (a 2) (a 3) t)
      else if a 0 = ''leave_group'' then reply_bool (GroupLeave (a 1) (a 2) t)
      else if a 0 = ''logout'' then reply_bool (Logout (a 1) t)
      else if a 0 = ''Sync'' then no_reply (SyncRecv rd c (a 1) t)
      else if a 0 = ''SyncAll'' then no_reply (SyncAllHandler (dir_entries E) t)
      else if a 0 = ''give_sha'' then reply_text (SendSHA (a 1) (a 2) (a 3) t)
      else if a 0 = ''give_seeders'' then reply_text (SendSeeders (a 1) (a 2) (a 3) t)
      else if a 0 = ''give_details'' then reply_text (SendDetails (a 1) t)
      else if a 0 = ''send_full_path'' then reply_text (GetFullPath (a 1) (a 2) (a 3) t)
      else if a 0 = ''add_file'' then no_reply (UpdateDownload (a 1) (a 2) (a 3) (a 4) t)
      else if a 0 = ''complete'' then no_reply (CompleteDownload (a 1) (a 2) (a 3) (a 4) t)
      else if a 0 = ''show_downloads'' then reply_text (ShowDownloads (a 1) t)
      else Some (None, t))"

text \<open>The whole connection; \<open>accepted\<close> is the outcome of the TLS handshake.\<close>

definition TrackerKernel ::
  "bool \<Rightarrow> env \<Rightarrow> ('c \<Rightarrow> nat \<Rightarrow> string \<times> 'c) \<Rightarrow> 'c \<Rightarrow> tracker \<Rightarrow> (string option \<times> tracker) option" where
  "TrackerKernel accepted E rd c t =
     (if \<not> accepted then Some (None, t)
      else let (command, c') = TLSRecvMsg rd c in dispatch E rd c' command t)"

text \<open>
  What \<open>main\<close> does before it starts the server thread: the global tables are empty, they are read
  from the disk, and the sibling is asked for its files. Nobody can connect to this tracker yet; what that
  means for the answer is in \<open>SyncAllHandler_racing\<close>.
\<close>

definition tracker_start :: "link \<Rightarrow> files \<Rightarrow> tracker option" where
  "tracker_start l f =
     do {
       t \<leftarrow> FetchDetails
         \<lparr>credentials = Map.empty, online_users = Map.empty, online = {}, group_members = {},
          groups = Map.empty, pending_group_requests = {}, disk = f, link = l, outbox = []\<rparr>;
       SyncAll t
     }"

subsection \<open>Requests\<close>

datatype request =
    Login string string string string
  | CreateUser string string string string
  | CreateGroup string string
  | ListGroups
  | JoinGroup string string
  | ListRequests string string
  | AcceptRequest string string string
  | UploadFile string string string string string string
  | ListFiles string
  | StopShare string string string
  | LeaveGroup string string
  | LogOut string
  | GiveSha string string string
  | GiveSeeders string string string
  | GiveDetails string
  | SendFullPath string string string
  | AddFile string string string string
  | Complete string string string string
  | ShowDownload string

fun request_words :: "request \<Rightarrow> string list" where
  "request_words (Login u pw port ip) = [''login'', u, pw, port, ip]"
| "request_words (CreateUser u pw port ip) = [''create_user'', u, pw, port, ip]"
| "request_words (CreateGroup g u) = [''create_group'', g, u]"
| "request_words ListGroups = [''list_groups'']"
| "request_words (JoinGroup g u) = [''join_group'', g, u]"
| "request_words (ListRequests g u) = [''list_requests'', g, u]"
| "request_words (AcceptRequest g u caller) = [''accept_request'', g, u, caller]"
| "request_words (UploadFile h s g u n path) = [''upload_file'', h, s, g, u, n, path]"
| "request_words (ListFiles g) = [''list_files'', g]"
| "request_words (StopShare g n u) = [''stop_share'', g, n, u]"
| "request_words (LeaveGroup g u) = [''leave_group'', g, u]"
| "request_words (LogOut u) = [''logout'', u]"
| "request_words (GiveSha g n u) = [''give_sha'', g, n, u]"
| "request_words (GiveSeeders g n u) = [''give_seeders'', g, n, u]"
| "request_words (GiveDetails u) = [''give_details'', u]"
| "request_words (SendFullPath u g n) = [''send_full_path'', u, g, n]"
| "request_words (AddFile g n path u) = [''add_file'', g, n, path, u]"
| "request_words (Complete g n path u) = [''complete'', g, n, path, u]"
| "request_words (ShowDownload u) = [''show_downloads'', u]"

definition message :: "request \<Rightarrow> string" where
  "message r = join sp (request_words r)"

text \<open>The handler of a request.\<close>

fun handle :: "env \<Rightarrow> request \<Rightarrow> tracker \<Rightarrow> (string option \<times> tracker) option" where
  "handle E (Login u pw port ip) t = reply_bool (UserLogin E u pw port ip t)"
| "handle E (CreateUser u pw port ip) t = reply_bool (UserCreate E u pw port ip t)"
| "handle E (CreateGroup g u) t = reply_bool (GroupCreate g u t)"
| "handle E ListGroups t = reply_text (GroupList E t)"
| "handle E (JoinGroup g u) t = reply_bool (GroupJoin g u t)"
| "handle E (ListRequests g u) t = reply_text (GroupRequestList g u t)"
| "handle E (AcceptRequest g u caller) t = reply_bool (GroupAcceptRequest g u caller t)"
| "handle E (UploadFile h s g u n path) t = reply_bool (GroupFileUpload h s g u n path t)"
| "handle E (ListFiles g) t = reply_text (GroupFileList g t)"
| "handle E (StopShare g n u) t = reply_bool (GroupStopShare g n u t)"
| "handle E (LeaveGroup g u) t = reply_bool (GroupLeave g u t)"
| "handle E (LogOut u) t = reply_bool (Logout u t)"
| "handle E (GiveSha g n u) t = reply_text (SendSHA g n u t)"
| "handle E (GiveSeeders g n u) t = reply_text (SendSeeders g n u t)"
| "handle E (GiveDetails u) t = reply_text (SendDetails u t)"
| "handle E (SendFullPath u g n) t = reply_text (GetFullPath u g n t)"
| "handle E (AddFile g n path u) t = no_reply (UpdateDownload g n path u t)"
| "handle E (Complete g n path u) t = no_reply (CompleteDownload g n path u t)"
| "handle E (ShowDownload u) t = reply_text (ShowDownloads u t)"

text \<open>
  The users and groups a request names, and the requests whose names stay clear of the file name
  schemes: every argument a non-empty token, no directory separator, no reserved suffix.
\<close>

fun request_users :: "request \<Rightarrow> string list" where
  "request_users (Login u pw port ip) = [u]"
| "request_users (CreateUser u pw port ip) = [u]"
| "request_users (CreateGroup g u) = [u]"
| "request_users ListGroups = []"
| "request_users (JoinGroup g u) = [u]"
| "request_users (ListRequests g u) = [u]"
| "request_users (AcceptRequest g u caller) = [u, caller]"
| "request_users (UploadFile h s g u n path) = [u]"
| "request_users (ListFiles g) = []"
| "request_users (StopShare g n u) = [u]"
| "request_users (LeaveGroup g u) = [u]"
| "request_users (LogOut u) = [u]"
| "request_users (GiveSha g n u) = [u]"
| "request_users (GiveSeeders g n u) = [u]"
| "request_users (GiveDetails u) = [u]"
| "request_users (SendFullPath u g n) = [u]"
| "request_users (AddFile g n path u) = [u]"
| "request_users (Complete g n path u) = [u]"
| "request_users (ShowDownload u) = [u]"

fun request_groups :: "request \<Rightarrow> string list" where
  "request_groups (CreateGroup g u) = [g]"
| "request_groups (JoinGroup g u) = [g]"
| "request_groups (ListRequests g u) = [g]"
| "request_groups (AcceptRequest g u caller) = [g]"
| "request_groups (UploadFile h s g u n path) = [g]"
| "request_groups (ListFiles g) = [g]"
| "request_groups (StopShare g n u) = [g]"
| "request_groups (LeaveGroup g u) = [g]"
| "request_groups (GiveSha g n u) = [g]"
| "request_groups (GiveSeeders g n u) = [g]"
| "request_groups (SendFullPath u g n) = [g]"
| "request_groups (AddFile g n path u) = [g]"
| "request_groups (Complete g n path u) = [g]"
| "request_groups r = []"

definition words_ok :: "request \<Rightarrow> bool" where
  "words_ok r \<longleftrightarrow> (\<forall>x\<in>set (request_words r). token x \<and> x \<noteq> [])"

definition benign :: "request \<Rightarrow> bool" where
  "benign r \<longleftrightarrow>
     words_ok r \<and> (\<forall>u\<in>set (request_users r). good_user u) \<and> (\<forall>g\<in>set (request_groups r). good_group g)"


section \<open>Dispatch\<close>

text \<open>Every message reaches the handler of its request, with its arguments in place.\<close>

lemma dispatch_message:
  assumes "words_ok r"
  shows "dispatch E rd c (message r) t = handle E r t"
proof -
  have len: "length (request_words r) \<le> 7" by (cases r) auto
  then have "stream_gets 7 (message r) = request_words r @ replicate (7 - length (request_words r)) []"
    using stream_gets_join_more [of "request_words r" "7 - length (request_words r)"] assms
    by (simp add: words_ok_def message_def)
  then show ?thesis by (cases r) (simp_all add: dispatch_def Let_def)
qed

lemma reply_simps [simp]:
  "reply_bool (Some (b, t)) = Some (Some (if b then ''1'' else ''0''), t)"
  "reply_text (Some (s, t)) = Some (Some s, t)"
  "no_reply (Some t) = Some (None, t)"
  "reply_bool None = None" "reply_text None = None" "no_reply None = None"
  by (simp_all add: reply_bool_def reply_text_def no_reply_def)

end
