(* ===== verification/Tracker_Spec.thy ===== *)
theory Tracker_Spec
  imports Tracker_Kernel
begin

text \<open>
  The abstract tracker: accounts, who is online where, groups with their owner, members and
  pending requests, and what is shared in a group, as plain maps, sets and lists with no files, no
  text and no caches. \<open>spec_state\<close> and \<open>spec_reply\<close> say what each request does to it and
  answers; \<open>view\<close> reads it off a disk. The lemma \<open>handle_refines\<close> shows that the handlers
  implement it, and \<open>swarm_wf\<close> is what every run keeps true of it.
\<close>


section \<open>Definitions\<close>

datatype share = Share (s_hash: string) (s_size: string) (s_user: string) (s_name: string)

datatype entry = Entry (e_group: string) (e_name: string) (e_path: string)

record swarm =
  accounts :: "string \<rightharpoonup> string"
  addresses :: "string \<rightharpoonup> string \<times> string"
  owners :: "string \<rightharpoonup> string"
  roster :: "string \<Rightarrow> string set"
  requests :: "(string \<times> string) set"
  shares :: "string \<Rightarrow> share list"
  library :: "string \<Rightarrow> entry list"
  started :: "string \<Rightarrow> string list"
  finished :: "string \<Rightarrow> string list"

definition login_ok :: "env \<Rightarrow> swarm \<Rightarrow> string \<Rightarrow> string \<Rightarrow> bool" where
  "login_ok E a u pw \<longleftrightarrow>
     (case accounts a u of
        None \<Rightarrow> False
      | Some stored \<Rightarrow> HashPassword E (fst (split_stored stored)) pw = snd (split_stored stored))"

definition chosen_name :: "swarm \<Rightarrow> string \<Rightarrow> string \<Rightarrow> string \<Rightarrow> string" where
  "chosen_name a g h n =
     (case find (\<lambda>s. s_hash s = h) (shares a g) of
        None \<Rightarrow> n
      | Some s \<Rightarrow> if s_name s \<noteq> [] then s_name s else n)"

definition shared_by :: "swarm \<Rightarrow> string \<Rightarrow> string \<Rightarrow> string \<Rightarrow> bool" where
  "shared_by a g h u \<longleftrightarrow> (\<exists>s\<in>set (shares a g). s_hash s = h \<and> s_user s = u)"

definition taken :: "swarm \<Rightarrow> string \<Rightarrow> string \<Rightarrow> string \<Rightarrow> bool" where
  "taken a g h n \<longleftrightarrow> (\<exists>s\<in>set (shares a g). s_hash s \<noteq> h \<and> s_name s = n)"

definition has_member :: "swarm \<Rightarrow> string \<Rightarrow> string \<Rightarrow> bool" where
  "has_member a g u \<longleftrightarrow> owners a g \<noteq> None \<and> u \<in> roster a g"

definition first_source :: "swarm \<Rightarrow> string \<Rightarrow> string \<Rightarrow> string \<times> string" where
  "first_source a g n =
     (case find (\<lambda>s. s_name s = n) (shares a g) of
        None \<Rightarrow> ([], []) | Some s \<Rightarrow> (s_hash s, s_size s))"

fun spec_state :: "env \<Rightarrow> request \<Rightarrow> swarm \<Rightarrow> swarm" where
  "spec_state E (Login u pw port ip) a =
     (if login_ok E a u pw \<and> addresses a u = None
      then a\<lparr>addresses := (addresses a)(u \<mapsto> (ip, port))\<rparr> else a)"
| "spec_state E (CreateUser u pw port ip) a =
     (if accounts a u = None
      then a\<lparr>accounts := (accounts a)(u \<mapsto> GenerateSalt E @ '':'' @ HashPassword E (GenerateSalt E) pw),
             addresses := (addresses a)(u \<mapsto> (ip, port)),
             library := (library a)(u := []), started := (started a)(u := []),
             finished := (finished a)(u := [])\<rparr>
      else a)"
| "spec_state E (CreateGroup g u) a =
     (if owners a g = None
      then a\<lparr>owners := (owners a)(g \<mapsto> u), roster := (roster a)(g := {u}),
             shares := (shares a)(g := [])\<rparr>
      else a)"
| "spec_state E (JoinGroup g u) a =
     (if owners a g \<noteq> None \<and> u \<notin> roster a g then a\<lparr>requests := insert (u, g) (requests a)\<rparr> else a)"
| "spec_state E (AcceptRequest g u caller) a =
     (if owners a g = Some caller \<and> accounts a u \<noteq> None \<and> (u, g) \<in> requests a \<and> u \<notin> roster a g
      then a\<lparr>roster := (roster a)(g := insert u (roster a g)), requests := requests a - {(u, g)}\<rparr>
      else a)"
| "spec_state E (UploadFile h s g u n path) a =
     (if has_member a g u \<and> \<not> shared_by a g h u \<and> \<not> taken a g h (chosen_name a g h n)
      then a\<lparr>shares := (shares a)(g := shares a g @ [Share h s u (chosen_name a g h n)]),
             library := (library a)(u := library a u @ [Entry g (chosen_name a g h n) path])\<rparr>
      else a)"
| "spec_state E (StopShare g n u) a =
     (if has_member a g u \<and> accounts a u \<noteq> None
      then a\<lparr>shares := (shares a)(g := filter (\<lambda>s. \<not> (s_name s = n \<and> s_user s = u)) (shares a g)),
             library := (library a)(u := filter (\<lambda>e. \<not> (e_group e = g \<and> e_name e = n)) (library a u))\<rparr>
      else a)"
| "spec_state E (LeaveGroup g u) a =
     (if has_member a g u \<and> owners a g \<noteq> Some u
      then a\<lparr>roster := (roster a)(g := roster a g - {u}),
             shares := (shares a)(g := filter (\<lambda>s. s_user s \<noteq> u) (shares a g)),
             library := (library a)(u := filter (\<lambda>e. e_group e \<noteq> g) (library a u))\<rparr>
      else a)"
| "spec_state E (LogOut u) a = a\<lparr>addresses := (addresses a)(u := None)\<rparr>"
| "spec_state E (GiveSha g n u) a =
     (if has_member a g u then a\<lparr>started := (started a)(u := started a u @ [join sp [g, n]])\<rparr> else a)"
| "spec_state E (AddFile g n path u) a =
     (if \<exists>e\<in>set (library a u). e_name e = n then a
      else a\<lparr>shares := (shares a)
               (g := shares a g @ [Share (fst (first_source a g n)) (snd (first_source a g n)) u n]),
             library := (library a)(u := library a u @ [Entry g n path])\<rparr>)"
| "spec_state E (Complete g n path u) a =
     a\<lparr>started := (started a)(u := filter (\<lambda>l. l \<noteq> join sp [g, n]) (started a u)),
       finished := (finished a)(u := finished a u @ [join sp [g, n]])\<rparr>"
| "spec_state E r a = a"

definition seeders_of :: "swarm \<Rightarrow> string \<Rightarrow> string \<Rightarrow> string set" where
  "seeders_of a g n = s_user ` set (filter (\<lambda>s. s_name s = n) (shares a g)) \<inter> dom (addresses a)"

definition size_of :: "swarm \<Rightarrow> string \<Rightarrow> string \<Rightarrow> string" where
  "size_of a g n =
     (let ss = filter (\<lambda>s. s_name s = n) (shares a g) in if ss = [] then [] else s_size (last ss))"

definition yes_no :: "bool \<Rightarrow> string option" where
  "yes_no b = Some (if b then ''1'' else ''0'')"

text \<open>
  The answers. A repeated \<open>accept_request\<close> for somebody who is already a member may be answered
  either way, depending on when the tables were last reloaded, so its answer is given for
  non-members.
\<close>

fun spec_reply :: "env \<Rightarrow> request \<Rightarrow> swarm \<Rightarrow> string option" where
  "spec_reply E (Login u pw port ip) a = yes_no (login_ok E a u pw)"
| "spec_reply E (CreateUser u pw port ip) a = yes_no (accounts a u = None)"
| "spec_reply E (CreateGroup g u) a = yes_no (owners a g = None)"
| "spec_reply E ListGroups a = Some (unlines (map_order E (owners a)))"
| "spec_reply E (JoinGroup g u) a = yes_no (owners a g \<noteq> None)"
| "spec_reply E (ListRequests g u) a =
     Some (if owners a g = Some u
           then unlines (map fst (filter (\<lambda>i. snd i = g) (sorted_list_of_set (requests a)))) else [])"
| "spec_reply E (AcceptRequest g u caller) a =
     yes_no (owners a g = Some caller \<and> accounts a u \<noteq> None \<and> (u, g) \<in> requests a)"
| "spec_reply E (UploadFile h s g u n path) a =
     yes_no (has_member a g u \<and> (shared_by a g h u \<or> \<not> taken a g h (chosen_name a g h n)))"
| "spec_reply E (ListFiles g) a =
     Some (if owners a g = None then [] else unlines (sorted_list_of_set (s_name ` set (shares a g))))"
| "spec_reply E (StopShare g n u) a = yes_no (has_member a g u \<and> accounts a u \<noteq> None)"
| "spec_reply E (LeaveGroup g u) a = yes_no (has_member a g u \<and> owners a g \<noteq> Some u)"
| "spec_reply E (LogOut u) a = yes_no (addresses a u \<noteq> None)"
| "spec_reply E (GiveSha g n u) a =
     Some (if has_member a g u
           then (case find (\<lambda>s. s_name s = n) (shares a g) of None \<Rightarrow> [] | Some s \<Rightarrow> s_hash s) else [])"
| "spec_reply E (GiveSeeders g n u) a =
     Some (let data = concat (map (\<lambda>u. u @ [sp]) (sorted_list_of_set (seeders_of a g n)))
           in if data \<noteq> [] then data @ size_of a g n else [])"
| "spec_reply E (GiveDetails u) a =
     Some (case addresses a u of None \<Rightarrow> [sp] | Some (ip, port) \<Rightarrow> ip @ [sp] @ port)"
| "spec_reply E (SendFullPath u g n) a =
     Some (case find (\<lambda>e. e_group e = g \<and> e_name e = n) (library a u) of None \<Rightarrow> [] | Some e \<Rightarrow> e_path e)"
| "spec_reply E (AddFile g n path u) a = None"
| "spec_reply E (Complete g n path u) a = None"
| "spec_reply E (ShowDownload u) a =
     Some (unlines (map (\<lambda>l. ''[D] '' @ l) (started a u) @ map (\<lambda>l. ''[C] '' @ l) (finished a u)))"

subsection \<open>The abstraction\<close>

definition share_row :: "string \<Rightarrow> share" where
  "share_row l = Share (fld l 0) (fld l 1) (fld l 2) (fld l 3)"

definition entry_row :: "string \<Rightarrow> entry" where
  "entry_row l = Entry (fld l 0) (fld l 1) (fld l 2)"

definition view :: "files \<Rightarrow> swarm" where
  "view f =
     \<lparr>accounts = disk_credentials f, addresses = disk_online_users f, owners = disk_groups f,
      roster = (\<lambda>g. if good_group g then disk_members f g else {}),
      requests = disk_pending f,
      shares = (\<lambda>g. map share_row (file_lines f (shares_path g))),
      library = (\<lambda>u. if good_user u then map entry_row (file_lines f (user_path u)) else []),
      started = (\<lambda>u. file_lines f (downloading_path u)),
      finished = (\<lambda>u. file_lines f (downloaded_path u))\<rparr>"

text \<open>
  Lines as the handlers write them: pending requests of two non-empty tokens for a well-named
  group, members as single tokens.
\<close>

definition pair_line :: "string \<Rightarrow> bool" where
  "pair_line l \<longleftrightarrow>
     (case split_str l sp of
        [u, g] \<Rightarrow> token u \<and> u \<noteq> [] \<and> token g \<and> g \<noteq> [] \<and> good_group g
      | _ \<Rightarrow> False)"

definition canonical :: "files \<Rightarrow> bool" where
  "canonical f \<longleftrightarrow>
     (\<forall>l\<in>set (file_lines f pending_path). pair_line l) \<and>
     (\<forall>g. good_group g \<longrightarrow> (\<forall>l\<in>set (file_lines f (members_path g)). token l))"

definition swarm_inv :: "tracker \<Rightarrow> bool" where
  "swarm_inv t \<longleftrightarrow> tracker_inv t \<and> coherent t \<and> canonical (disk t)"


section \<open>Reading the disk\<close>

lemma pair_line_iff:
  "pair_line l \<longleftrightarrow>
    (\<exists>u g. l = join sp [u, g] \<and> token u \<and> u \<noteq> [] \<and> token g \<and> g \<noteq> [] \<and> good_group g)"
proof
  assume "pair_line l"
  then obtain u g where ug: "split_str l sp = [u, g]" "token u" "u \<noteq> []" "token g" "g \<noteq> []" "good_group g"
    by (auto simp: pair_line_def split: list.splits)
  then have "l = join sp [u, g]" using join_split_str [of sp l] by simp
  with ug show "\<exists>u g. l = join sp [u, g] \<and> token u \<and> u \<noteq> [] \<and> token g \<and> g \<noteq> [] \<and> good_group g" by blast
next
  assume "\<exists>u g. l = join sp [u, g] \<and> token u \<and> u \<noteq> [] \<and> token g \<and> g \<noteq> [] \<and> good_group g"
  then obtain u g where ug: "l = join sp [u, g]" "token u" "u \<noteq> []" "token g" "g \<noteq> []" "good_group g" by blast
  then have "split_str l sp = [u, g]" using split_str_join [of "[u, g]" sp] by simp
  then show "pair_line l" using ug by (simp add: pair_line_def)
qed

definition pair_of :: "string \<Rightarrow> string \<times> string" where
  "pair_of l = (fld l 0, fld l 1)"

lemma pair_of_join [simp]: "token u \<Longrightarrow> token g \<Longrightarrow> pair_of (join sp [u, g]) = (u, g)"
  using fld_join [of "[u, g]"] by (simp add: pair_of_def)

lemma pair_lineE:
  assumes "pair_line l"
  obtains u g where "l = join sp [u, g]" "pair_of l = (u, g)" "token u" "u \<noteq> []" "token g" "g \<noteq> []" "good_group g"
  using assms pair_of_join by (auto simp: pair_line_iff)

lemma pair_of_inj: "pair_line l \<Longrightarrow> pair_line m \<Longrightarrow> pair_of l = pair_of m \<longleftrightarrow> l = m"
  by (metis pair_lineE prod.inject)

lemma read_pairs_canonical:
  "\<forall>l\<in>set ls. pair_line l \<Longrightarrow> fst (read_pairs v ls) = map pair_of ls"
proof (induction ls rule: rev_induct)
  case Nil
  then show ?case by (cases v) simp
next
  case (snoc l ls)
  then have l: "pair_line l" by simp
  then obtain u g where ug: "l = join sp [u, g]" "pair_of l = (u, g)" "token u" "u \<noteq> []" "token g" "g \<noteq> []"
    by (rule pair_lineE)
  then show ?case using snoc read_pairs_line [of u g v ls] by simp
qed

lemma disk_pending_canonical:
  "canonical f \<Longrightarrow> disk_pending f = pair_of ` set (file_lines f pending_path)"
  by (simp add: disk_pending_def canonical_def read_pairs_canonical)

lemma pending_good: "canonical f \<Longrightarrow> (u, g) \<in> disk_pending f \<Longrightarrow> good_group g"
  by (auto simp: disk_pending_canonical canonical_def elim!: pair_lineE)

lemma view_cong: "file_lines f' = file_lines f \<Longrightarrow> view f' = view f"
  by (simp add: view_def disk_credentials_def disk_online_users_def disk_groups_def
      disk_pending_def disk_members_def fun_eq_iff)

lemma canonical_cong: "file_lines f' = file_lines f \<Longrightarrow> canonical f' = canonical f"
  by (simp add: canonical_def)

lemma coherent_members [simp]: "coherent (t\<lparr>group_members := m\<rparr>) = coherent t"
  by (simp add: coherent_def)

lemma swarm_invD:
  assumes "swarm_inv t"
  shows "tracker_inv t" "coherent t" "canonical (disk t)"
    "credentials t = accounts (view (disk t))" "groups t = owners (view (disk t))"
  using assms by (simp_all add: swarm_inv_def coherent_def view_def)

lemma view_simps [simp]:
  "accounts (view f) = disk_credentials f" "addresses (view f) = disk_online_users f"
  "owners (view f) = disk_groups f" "requests (view f) = disk_pending f"
  "roster (view f) g = (if good_group g then disk_members f g else {})"
  "shares (view f) g = map share_row (file_lines f (shares_path g))"
  "library (view f) u = (if good_user u then map entry_row (file_lines f (user_path u)) else [])"
  "started (view f) u = file_lines f (downloading_path u)"
  "finished (view f) u = file_lines f (downloaded_path u)"
  by (simp_all add: view_def)

lemma disk_online_dom: "disk_online f = dom (disk_online_users f)"
  by (simp add: disk_online_def disk_online_users_def image_image)

lemma find_map: "find P (map f xs) = map_option f (find (\<lambda>x. P (f x)) xs)"
  by (induction xs) auto

lemma login_ok_view [simp]: "login_ok E (view f) u pw = password_ok E f u pw"
  by (simp add: login_ok_def password_ok_def)

lemma shared_by_view [simp]: "shared_by (view f) g h u = has_share f g h u"
  by (auto simp: shared_by_def has_share_def share_row_def)

lemma taken_view [simp]: "taken (view f) g h n = name_clash f g h n"
  by (auto simp: taken_def name_clash_def share_row_def)

lemma chosen_name_view [simp]: "chosen_name (view f) g h n = share_name f g h n"
  by (simp add: chosen_name_def share_name_def find_map share_row_def map_option_case split: option.splits)

lemma first_source_view [simp]: "first_source (view f) g n = first_share f g n"
  by (simp add: first_source_def first_share_def find_map share_row_def split: option.splits)

lemma has_member_view [simp]: "good_group g \<Longrightarrow> has_member (view f) g u = may_read f g u"
  by (simp add: has_member_def may_read_def)


section \<open>Refinement\<close>

definition refines :: "env \<Rightarrow> request \<Rightarrow> tracker \<Rightarrow> bool" where
  "refines E r t \<longleftrightarrow>
     (\<exists>rep t'. handle E r t = Some (rep, t') \<and> swarm_inv t' \<and> replicates t t' \<and>
        view (disk t') = spec_state E r (view (disk t)) \<and>
        ((\<exists>g u caller. r = AcceptRequest g u caller \<and> u \<in> roster (view (disk t)) g) \<or>
         rep = spec_reply E r (view (disk t))))"

lemma refinesI:
  assumes "handle E r t = Some (spec_reply E r (view (disk t)), t')"
    "tracker_inv t'" "coherent t'" "canonical (disk t')" "replicates t t'"
    "view (disk t') = spec_state E r (view (disk t))"
  shows "refines E r t"
  using assms by (auto simp: refines_def swarm_inv_def)

lemma refines_query:
  assumes "swarm_inv t" "handle E r t = Some (spec_reply E r (view (disk t)), t')"
    "tracker_inv t'" "coherent t'" "replicates t t'" "file_lines (disk t') = file_lines (disk t)"
    "spec_state E r (view (disk t)) = view (disk t)"
  shows "refines E r t"
  using assms view_cong [OF assms(6)] canonical_cong [OF assms(6)]
  by (intro refinesI [where t' = t']) (simp_all add: swarm_inv_def)

lemma unchanged:
  assumes "swarm_inv t" "file_lines f = file_lines (disk t)"
  shows "view f = view (disk t)" "canonical f"
  using assms view_cong canonical_cong swarm_invD(3) by blast+

lemma refines_fetched:
  assumes "swarm_inv t" "handle E r t = Some (spec_reply E r (view (disk t)), fetched t)"
    "spec_state E r (view (disk t)) = view (disk t)"
  shows "refines E r t"
  using assms tracker_inv_fetched [OF swarm_invD(1) [OF assms(1)]]
  by (intro refines_query [where t' = "fetched t"]) (auto intro: replicates_same)

lemmas table_defs = disk_credentials_def disk_online_users_def disk_groups_def disk_pending_def
  disk_members_def

text \<open>Files that hold no table of the abstract state can change freely.\<close>

lemma view_eqI:
  assumes "disk_credentials f = accounts a" "disk_online_users f = addresses a"
    "disk_groups f = owners a" "disk_pending f = requests a"
    "\<And>g. (if good_group g then disk_members f g else {}) = roster a g"
    "\<And>g. map share_row (file_lines f (shares_path g)) = shares a g"
    "\<And>u. (if good_user u then map entry_row (file_lines f (user_path u)) else []) = library a u"
    "\<And>u. file_lines f (downloading_path u) = started a u"
    "\<And>u. file_lines f (downloaded_path u) = finished a u"
  shows "view f = a"
  using assms by (simp add: view_def fun_eq_iff)

lemma benign_token: "benign r \<Longrightarrow> x \<in> set (request_words r) \<Longrightarrow> token x \<and> x \<noteq> []"
  by (simp add: benign_def words_ok_def)

lemma good_slash: "good_group g \<Longrightarrow> slash \<notin> set g" "good_user u \<Longrightarrow> slash \<notin> set u"
  by (simp_all add: good_group_def good_user_def)

lemma refine_Login:
  assumes inv: "swarm_inv t" and b: "benign (Login u pw port ip)"
  shows "refines E (Login u pw port ip) t"
proof -
  have args: "token u" "token port" "token ip" using benign_token [OF b] by simp_all
  obtain t' where t': "UserLogin E u pw port ip t = Some (password_ok E (disk t) u pw, t')"
    "tracker_inv t'" "coherent t'" "replicates t t'"
    and lines: "\<And>q. file_lines (disk t') q =
      (if q = online_path \<and> password_ok E (disk t) u pw \<and> u \<notin> disk_online (disk t)
       then file_lines (disk t) online_path @ [join sp [u, ip, port]] else file_lines (disk t) q)"
    using UserLogin_spec [OF swarm_invD(1) [OF inv] args, of E pw] by blast
  have "view (disk t') = spec_state E (Login u pw port ip) (view (disk t))"
  proof (cases "password_ok E (disk t) u pw \<and> u \<notin> disk_online (disk t)")
    case True
    then have "disk_online_users (disk t') = (disk_online_users (disk t))(u \<mapsto> (ip, port))"
      using lines args by (intro disk_online_snoc) auto
    moreover have "file_lines (disk t') q = file_lines (disk t) q" if "q \<noteq> online_path" for q
      using that lines by simp
    moreover have "disk_online_users (disk t) u = None" using True by (auto simp: disk_online_dom)
    ultimately show ?thesis
      using True by (intro view_eqI) (simp_all add: table_defs)
  next
    case False
    then have "file_lines (disk t') = file_lines (disk t)" using lines by (auto simp: fun_eq_iff)
    from unchanged(1) [OF inv this] show ?thesis using False by (auto simp: disk_online_dom)
  qed
  moreover have "canonical (disk t')"
    using swarm_invD(3) [OF inv] lines by (simp add: canonical_def)
  ultimately show ?thesis using t' by (intro refinesI [where t' = t']) (simp_all add: yes_no_def)
qed

lemma refine_CreateUser:
  assumes inv: "swarm_inv t" and b: "benign (CreateUser u pw port ip)"
  shows "refines E (CreateUser u pw port ip) t"
proof -
  have args: "token u" "token port" "token ip" "slash \<notin> set u" "u \<noteq> []" "good_user u"
    using benign_token [OF b] b by (simp_all add: benign_def good_user_def)
  note wf = tracker_invD(1) [OF swarm_invD(1) [OF inv]]
  obtain t' where t': "UserCreate E u pw port ip t = Some (disk_credentials (disk t) u = None, t')"
    "tracker_inv t'" "coherent t'" "replicates t t'"
    and lines: "file_lines (disk t') =
      (if disk_credentials (disk t) u = None
       then file_lines (registered E u pw port ip (disk t)) else file_lines (disk t))"
    using UserCreate_spec [OF swarm_invD(1) [OF inv] args(1-4), of E pw] by blast
  note reg = registered_props(2) [OF wf args(1-4), where E = E and pw = pw]
  have "view (disk t') = spec_state E (CreateUser u pw port ip) (view (disk t)) \<and> canonical (disk t')"
  proof (cases "disk_credentials (disk t) u = None")
    case True
    then have l: "file_lines (disk t') = (file_lines (disk t))
      (online_path := file_lines (disk t) online_path @ [join sp [u, ip, port]],
       credential_path := file_lines (disk t) credential_path @ [credential_line E u pw],
       user_path u := [], downloading_path u := [], downloaded_path u := [])"
      using lines reg by simp
    have "disk_online_users (disk t') = (disk_online_users (disk t))(u \<mapsto> (ip, port))"
      using l args by (intro disk_online_snoc) auto
    moreover have "disk_credentials (disk t') =
        (disk_credentials (disk t))(u \<mapsto> GenerateSalt E @ '':'' @ HashPassword E (GenerateSalt E) pw)"
      using disk_credentials_registered [OF wf args(1-5), of E pw] True lines by (simp add: table_defs)
    moreover have can: "canonical (disk t')"
      using swarm_invD(3) [OF inv] l by (simp add: canonical_def)
    moreover have "disk_pending (disk t') = disk_pending (disk t)"
      using can swarm_invD(3) [OF inv] l by (simp add: disk_pending_canonical)
    ultimately show ?thesis
      using True args l by (intro conjI view_eqI) (simp_all add: disk_groups_def disk_members_def)
  next
    case False
    then have "file_lines (disk t') = file_lines (disk t)" using lines by auto
    from unchanged [OF inv this] show ?thesis using False by auto
  qed
  then show ?thesis using t' by (intro refinesI [where t' = t']) (simp_all add: yes_no_def)
qed

lemma refine_CreateGroup:
  assumes inv: "swarm_inv t" and b: "benign (CreateGroup g u)"
  shows "refines E (CreateGroup g u) t"
proof -
  have args: "token g" "token u" "good_group g"
    using benign_token [OF b] b by (simp_all add: benign_def)
  obtain t' where t': "GroupCreate g u t = Some (disk_groups (disk t) g = None, t')"
    "tracker_inv t'" "coherent t'" "replicates t t'"
    and lines: "file_lines (disk t') =
      (if disk_groups (disk t) g = None then (file_lines (disk t))
         (groups_path := file_lines (disk t) groups_path @ [join sp [g, u]],
          members_path g := [u], shares_path g := [])
       else file_lines (disk t))"
    using GroupCreate_spec [OF swarm_invD(1) [OF inv] args] by blast
  have "view (disk t') = spec_state E (CreateGroup g u) (view (disk t)) \<and> canonical (disk t')"
  proof (cases "disk_groups (disk t) g = None")
    case True
    have "disk_groups (disk t') = (disk_groups (disk t))(g \<mapsto> u)"
      using True lines args by (intro disk_groups_snoc) auto
    then show ?thesis
      using True args lines swarm_invD(3) [OF inv]
      by (intro conjI view_eqI)
        (auto simp: disk_credentials_def disk_online_users_def disk_pending_def disk_members_def canonical_def)
  next
    case False
    then have "file_lines (disk t') = file_lines (disk t)" using lines by auto
    from unchanged [OF inv this] show ?thesis using False by auto
  qed
  then show ?thesis using t' by (intro refinesI [where t' = t']) (simp_all add: yes_no_def)
qed


lemma disk_online_remove:
  assumes "file_lines f' online_path = filter (\<lambda>l. fld l 0 \<noteq> u) (file_lines f online_path)"
  shows "disk_online_users f' = (disk_online_users f)(u := None)"
proof -
  have del: "map_of (filter (\<lambda>p. fst p \<noteq> u) xs) = (map_of xs)(u := None)"
    for xs :: "(string \<times> string \<times> string) list"
    by (induction xs) (auto simp: fun_eq_iff)
  let ?row = "\<lambda>l. (fld l 0, fld l 1, fld l 2)"
  have "map ?row (filter (\<lambda>l. fld l 0 \<noteq> u) ls) = filter (\<lambda>p. fst p \<noteq> u) (map ?row ls)" for ls
    by (simp add: filter_map comp_def)
  then show ?thesis
    using assms del by (simp add: disk_online_users_def assign_all_map_of rev_filter)
qed

lemma refine_LogOut:
  assumes inv: "swarm_inv t" and b: "benign (LogOut u)"
  shows "refines E (LogOut u) t"
proof -
  obtain t' where t': "Logout u t = Some (u \<in> disk_online (disk t), t')"
    "tracker_inv t'" "coherent t'" "replicates t t'"
    and lines: "file_lines (disk t') = (file_lines (disk t))
      (online_path := filter (\<lambda>l. fld l 0 \<noteq> u) (file_lines (disk t) online_path))"
    using Logout_spec [OF swarm_invD(1) [OF inv], of u] by blast
  have "disk_online_users (disk t') = (disk_online_users (disk t))(u := None)"
    using lines by (intro disk_online_remove) simp
  then have "view (disk t') = spec_state E (LogOut u) (view (disk t))"
    using lines
    by (intro view_eqI) (simp_all add: disk_credentials_def disk_groups_def disk_pending_def disk_members_def)
  moreover have "canonical (disk t')" using swarm_invD(3) [OF inv] lines by (simp add: canonical_def)
  moreover have "handle E (LogOut u) t = Some (spec_reply E (LogOut u) (view (disk t)), t')"
    using t' by (auto simp: yes_no_def disk_online_dom)
  ultimately show ?thesis using t' by (intro refinesI [where t' = t'])
qed

lemma canonical_pending_snoc:
  assumes "canonical f" "token u" "u \<noteq> []" "token g" "g \<noteq> []" "good_group g"
    "file_lines f' = (file_lines f)(pending_path := file_lines f pending_path @ [join sp [u, g]])"
  shows "canonical f'" "disk_pending f' = insert (u, g) (disk_pending f)"
proof -
  have "pair_line (join sp [u, g])" using assms by (auto simp: pair_line_iff simp del: join.simps)
  then show c: "canonical f'" using assms by (simp add: canonical_def del: join.simps)
  have "pair_of (join sp [u, g]) = (u, g)" using assms pair_of_join by blast
  then show "disk_pending f' = insert (u, g) (disk_pending f)"
    using assms by (simp add: disk_pending_canonical c del: join.simps)
qed

lemma refine_JoinGroup:
  assumes inv: "swarm_inv t" and b: "benign (JoinGroup g u)"
  shows "refines E (JoinGroup g u) t"
proof -
  have args: "token g" "token u" "g \<noteq> []" "u \<noteq> []" "good_group g"
    using benign_token [OF b] b by (simp_all add: benign_def)
  note D = swarm_invD [OF inv]
  obtain t' where t': "GroupJoin g u t = Some (groups t g \<noteq> None, t')" "tracker_inv t'" "replicates t t'"
    and lines: "file_lines (disk t') =
      (if join_adds t g u
       then (file_lines (disk t))(pending_path := file_lines (disk t) pending_path @ [join sp [u, g]])
       else file_lines (disk t))"
    and cache: "pending_group_requests t' =
      (if join_adds t g u then insert (u, g) (pending_group_requests t) else pending_group_requests t)"
      "credentials t' = credentials t" "groups t' = groups t" "online t' = online t"
    using GroupJoin_spec [OF D(1) args(1,2)] by blast
  have tabs: "disk_credentials (disk t') = disk_credentials (disk t)"
    "disk_online_users (disk t') = disk_online_users (disk t)" "disk_online (disk t') = disk_online (disk t)"
    "disk_groups (disk t') = disk_groups (disk t)" "disk_members (disk t') h = disk_members (disk t) h" for h
    using lines by (simp_all add: table_defs disk_online_def)
  have pend: "canonical (disk t')" "disk_pending (disk t') =
      (if join_adds t g u then insert (u, g) (disk_pending (disk t)) else disk_pending (disk t))"
    using canonical_pending_snoc [OF D(3) args(2,4,1,3,5), of "disk t'"] unchanged(2) [OF inv, of "disk t'"]
      view_cong [of "disk t'" "disk t"] lines
    by (auto simp: view_def split: if_splits)
  have "(if disk_groups (disk t) g \<noteq> None \<and> u \<notin> disk_members (disk t) g
         then insert (u, g) (disk_pending (disk t)) else disk_pending (disk t)) = disk_pending (disk t')"
    using D(2) pend(2) by (auto simp: join_adds_def coherent_def)
  then have "view (disk t') = spec_state E (JoinGroup g u) (view (disk t))"
    using tabs lines args by (intro view_eqI) (auto split: if_splits)
  moreover have "coherent t'"
    using D(2) tabs pend(2) cache by (auto simp: coherent_def)
  moreover have "handle E (JoinGroup g u) t = Some (spec_reply E (JoinGroup g u) (view (disk t)), t')"
    using t' D(5) by (simp add: yes_no_def)
  ultimately show ?thesis using t' pend by (intro refinesI [where t' = t'])
qed

lemma refine_LeaveGroup:
  assumes inv: "swarm_inv t" and b: "benign (LeaveGroup g u)"
  shows "refines E (LeaveGroup g u) t"
proof -
  have args: "token g" "token u" "good_group g" "good_user u" "slash \<notin> set u"
    using benign_token [OF b] b by (simp_all add: benign_def good_user_def)
  note D = swarm_invD [OF inv]
  obtain t' where t': "GroupLeave g u t = Some (leaves t g u, t')" "tracker_inv t'" "replicates t t'"
    "leaves t g u \<Longrightarrow> coherent t'" "\<not> leaves t g u \<Longrightarrow> t' = t\<lparr>group_members := group_members t'\<rparr>"
    and lines: "file_lines (disk t') =
      (if leaves t g u
       then (file_lines (disk t))
         (members_path g := filter (\<lambda>l. fld l 0 \<noteq> u) (file_lines (disk t) (members_path g)),
          shares_path g := filter (\<lambda>l. fld l 2 \<noteq> u) (file_lines (disk t) (shares_path g)),
          user_path u := filter (\<lambda>l. fld l 0 \<noteq> g) (file_lines (disk t) (user_path u)))
       else file_lines (disk t))"
    using GroupLeave_spec [OF D(1) args(3,5,1,2)] by blast
  have coh: "coherent t'" using t'(4,5) D(2) coherent_members by metis
  have leaves: "leaves t g u \<longleftrightarrow> may_read (disk t) g u \<and> disk_groups (disk t) g \<noteq> Some u"
    using D(5) by (auto simp: leaves_def may_read_def)
  have "view (disk t') = spec_state E (LeaveGroup g u) (view (disk t)) \<and> canonical (disk t')"
  proof (cases "leaves t g u")
    case True
    have fld: "fld l 0 = l" if "l \<in> set (file_lines (disk t) (members_path g))" for l
      using that D(3) args fld_join [of "[l]" 0] by (auto simp: canonical_def)
    then have "disk_members (disk t') g = disk_members (disk t) g - {u}"
      using True lines args by (auto simp: disk_members_def)
    then show ?thesis
      using True leaves args lines D(3)
      by (intro conjI view_eqI)
        (auto simp: disk_credentials_def disk_online_users_def disk_groups_def disk_pending_def
          disk_members_def canonical_def share_row_def entry_row_def filter_map comp_def)
  next
    case False
    then have "file_lines (disk t') = file_lines (disk t)" using lines by auto
    from unchanged [OF inv this] show ?thesis using False leaves args by auto
  qed
  moreover have "handle E (LeaveGroup g u) t = Some (spec_reply E (LeaveGroup g u) (view (disk t)), t')"
    using t'(1) leaves args by (simp add: yes_no_def)
  ultimately show ?thesis using t' coh by (intro refinesI [where t' = t']) simp_all
qed


lemma canonical_pending_filter:
  assumes "canonical f" "token u" "u \<noteq> []" "token g" "g \<noteq> []" "good_group g" "token v"
    "file_lines f' = (file_lines f)(members_path g := file_lines f (members_path g) @ [v],
       pending_path := filter (\<lambda>l. l \<noteq> u @ [sp] @ g) (file_lines f pending_path))"
  shows "canonical f'" "disk_pending f' = disk_pending f - {(u, g)}"
proof -
  show c: "canonical f'" using assms by (auto simp: canonical_def)
  have eq: "l = u @ [sp] @ g \<longleftrightarrow> pair_of l = (u, g)" if "pair_line l" for l
  proof -
    have j: "u @ [sp] @ g = join sp [u, g]" by simp
    have "pair_line (join sp [u, g])" using assms(2-6) by (auto simp: pair_line_iff simp del: join.simps)
    then show ?thesis
      using pair_of_inj [OF that, of "join sp [u, g]"] pair_of_join [OF assms(2,4)] j by metis
  qed
  have lines: "file_lines f' pending_path = filter (\<lambda>l. l \<noteq> u @ [sp] @ g) (file_lines f pending_path)"
    using assms(8) by simp
  have "filter (\<lambda>l. l \<noteq> u @ [sp] @ g) (file_lines f pending_path) =
      filter (\<lambda>l. pair_of l \<noteq> (u, g)) (file_lines f pending_path)"
    using assms(1) eq by (intro filter_cong) (auto simp: canonical_def)
  then show "disk_pending f' = disk_pending f - {(u, g)}"
    unfolding disk_pending_canonical [OF c] disk_pending_canonical [OF assms(1)] lines by auto
qed

lemma refine_AcceptRequest:
  assumes inv: "swarm_inv t" and b: "benign (AcceptRequest g u caller)"
  shows "refines E (AcceptRequest g u caller) t"
proof -
  have args: "token u" "u \<noteq> []" "token g" "g \<noteq> []" "good_group g"
    using benign_token [OF b] b by (simp_all add: benign_def)
  note D = swarm_invD [OF inv]
  obtain t' where t': "GroupAcceptRequest g u caller t = Some (accepts t g u caller, t')"
    "tracker_inv t'" "replicates t t'"
    and lines: "file_lines (disk t') =
      (if accepts t g u caller \<and> u \<notin> disk_members (disk t) g
       then (file_lines (disk t))
         (members_path g := file_lines (disk t) (members_path g) @ [u],
          pending_path := filter (\<lambda>l. l \<noteq> u @ [sp] @ g) (file_lines (disk t) pending_path))
       else file_lines (disk t))"
    and cache: "pending_group_requests t' = pending_group_requests t"
      "credentials t' = credentials t" "groups t' = groups t" "online t' = online t"
    using GroupAcceptRequest_spec [OF D(1) args(1,5,3)] by blast
  have acc: "accepts t g u caller \<longleftrightarrow> disk_groups (disk t) g = Some caller \<and>
      disk_credentials (disk t) u \<noteq> None \<and> (u, g) \<in> disk_pending (disk t)"
    if "u \<notin> disk_members (disk t) g"
    using D(2,4,5) that by (auto simp: accepts_def coherent_def)
  have "view (disk t') = spec_state E (AcceptRequest g u caller) (view (disk t)) \<and>
      canonical (disk t') \<and> coherent t'"
  proof (cases "accepts t g u caller \<and> u \<notin> disk_members (disk t) g")
    case True
    then have l: "file_lines (disk t') = (file_lines (disk t))
         (members_path g := file_lines (disk t) (members_path g) @ [u],
          pending_path := filter (\<lambda>l. l \<noteq> u @ [sp] @ g) (file_lines (disk t) pending_path))"
      using lines by simp
    note pend = canonical_pending_filter [OF D(3) args args(1) l]
    have tabs: "disk_credentials (disk t') = disk_credentials (disk t)"
      "disk_online_users (disk t') = disk_online_users (disk t)" "disk_online (disk t') = disk_online (disk t)"
      "disk_groups (disk t') = disk_groups (disk t)"
      "disk_members (disk t') h = (if h = g then insert u (disk_members (disk t) g) else disk_members (disk t) h)" for h
      using l by (auto simp: disk_credentials_def disk_online_users_def disk_groups_def disk_online_def disk_members_def)
    have "coherent t'"
      using D(2) tabs pend(2) cache args(5) by (auto simp: coherent_def)
    moreover have "view (disk t') = spec_state E (AcceptRequest g u caller) (view (disk t))"
      using True acc tabs pend(2) args(5) l by (intro view_eqI) auto
    ultimately show ?thesis using pend(1) by simp
  next
    case False
    then have l: "file_lines (disk t') = file_lines (disk t)" using lines by auto
    have "coherent t'"
      using cache l by (intro coherent_cong [OF D(2)]) (auto simp: disk_members_def)
    with unchanged [OF inv l] show ?thesis using False acc args by auto
  qed
  moreover have "u \<in> roster (view (disk t)) g \<or>
      handle E (AcceptRequest g u caller) t =
        Some (spec_reply E (AcceptRequest g u caller) (view (disk t)), t')"
    using t'(1) acc args by (cases "u \<in> disk_members (disk t) g") (simp_all add: yes_no_def)
  moreover have "handle E (AcceptRequest g u caller) t = Some (yes_no (accepts t g u caller), t')"
    using t'(1) by (simp add: yes_no_def)
  ultimately show ?thesis
    using t'(2,3) unfolding refines_def swarm_inv_def by blast
qed

lemma refine_UploadFile:
  assumes inv: "swarm_inv t" and b: "benign (UploadFile h s g u n path)"
  shows "refines E (UploadFile h s g u n path) t"
proof -
  have args: "token h" "token s" "token g" "token u" "token n" "token path" "slash \<notin> set g" "slash \<notin> set u"
    and good: "good_group g" "good_user u"
    using benign_token [OF b] b by (simp_all add: benign_def good_user_def good_group_def)
  note D = swarm_invD [OF inv]
  let ?n = "share_name (disk t) g h n"
  obtain t' where t': "GroupFileUpload h s g u n path t = Some
      (groups t g \<noteq> None \<and> u \<in> disk_members (disk t) g \<and>
       (has_share (disk t) g h u \<or> \<not> name_clash (disk t) g h ?n), t')" "tracker_inv t'" "replicates t t'"
    and lines: "file_lines (disk t') =
      (if uploads t h g u n
       then (file_lines (disk t))
         (shares_path g := file_lines (disk t) (shares_path g) @ [join sp [h, s, u, ?n]],
          user_path u := file_lines (disk t) (user_path u) @ [join sp [g, ?n, path]])
       else file_lines (disk t))"
    and cache: "pending_group_requests t' = pending_group_requests t"
      "credentials t' = credentials t" "groups t' = groups t" "online t' = online t"
    using GroupFileUpload_spec [OF D(1) args] by blast
  have up: "uploads t h g u n \<longleftrightarrow> may_read (disk t) g u \<and> \<not> has_share (disk t) g h u \<and>
      \<not> name_clash (disk t) g h ?n"
    using D(5) by (auto simp: uploads_def may_read_def)
  have "coherent t'"
    using cache lines
    by (intro coherent_cong [OF D(2)]) (auto simp: base_files_def disk_members_def simp del: join.simps)
  moreover have "view (disk t') = spec_state E (UploadFile h s g u n path) (view (disk t)) \<and> canonical (disk t')"
  proof (cases "uploads t h g u n")
    case True
    have "\<forall>x\<in>set [h, s, u, ?n]. sp \<notin> set x" "\<forall>x\<in>set [g, ?n, path]. sp \<notin> set x"
      using share_name_clean(1) [OF tracker_invD(1) [OF D(1)] args(5), of g h] args by simp_all
    then have rows: "share_row (join sp [h, s, u, ?n]) = Share h s u ?n"
      "entry_row (join sp [g, ?n, path]) = Entry g ?n path"
      using fld_join [of "[h, s, u, ?n]"] fld_join [of "[g, ?n, path]"]
      by (simp_all add: share_row_def entry_row_def del: join.simps)
    then show ?thesis
      using True up lines good D(3)
      by (intro conjI view_eqI)
        (auto simp: table_defs canonical_def simp del: join.simps)
  next
    case False
    then have "file_lines (disk t') = file_lines (disk t)" using lines by auto
    from unchanged [OF inv this] show ?thesis using False up good by auto
  qed
  moreover have "handle E (UploadFile h s g u n path) t =
      Some (spec_reply E (UploadFile h s g u n path) (view (disk t)), t')"
    using t'(1) D(5) good by (auto simp: yes_no_def may_read_def)
  ultimately show ?thesis using t' by (intro refinesI [where t' = t']) simp_all
qed


lemma refine_StopShare:
  assumes inv: "swarm_inv t" and b: "benign (StopShare g n u)"
  shows "refines E (StopShare g n u) t"
proof -
  have good: "good_group g" "good_user u" "slash \<notin> set g" "token g" "token u"
    using benign_token [OF b] b by (simp_all add: benign_def good_group_def)
  note D = swarm_invD [OF inv]
  obtain t' where t': "GroupStopShare g n u t = Some (stops t g u, t')" "tracker_inv t'" "replicates t t'"
    and lines: "file_lines (disk t') =
      (if stops t g u
       then (file_lines (disk t))
         (shares_path g := filter (\<lambda>l. \<not> (fld l 3 = n \<and> fld l 2 = u)) (file_lines (disk t) (shares_path g)),
          user_path u := filter (\<lambda>l. \<not> (fld l 0 = g \<and> fld l 1 = n)) (file_lines (disk t) (user_path u)))
       else file_lines (disk t))"
    and cache: "pending_group_requests t' = pending_group_requests t"
      "credentials t' = credentials t" "groups t' = groups t" "online t' = online t"
    using GroupStopShare_spec [OF D(1) good(3,2,4,5), of n] by blast
  have st: "stops t g u \<longleftrightarrow> may_read (disk t) g u \<and> disk_credentials (disk t) u \<noteq> None"
    using D(4,5) by (auto simp: stops_def may_read_def)
  have "coherent t'"
    using cache lines by (intro coherent_cong [OF D(2)]) (auto simp: base_files_def disk_members_def)
  moreover have "view (disk t') = spec_state E (StopShare g n u) (view (disk t)) \<and> canonical (disk t')"
  proof (cases "stops t g u")
    case True
    then show ?thesis
      using st lines good D(3)
      by (intro conjI view_eqI)
        (auto simp: table_defs canonical_def share_row_def entry_row_def filter_map comp_def)
  next
    case False
    then have "file_lines (disk t') = file_lines (disk t)" using lines by auto
    from unchanged [OF inv this] show ?thesis using False st good by auto
  qed
  moreover have "handle E (StopShare g n u) t = Some (spec_reply E (StopShare g n u) (view (disk t)), t')"
    using t'(1) st good by (simp add: yes_no_def)
  ultimately show ?thesis using t' by (intro refinesI [where t' = t']) simp_all
qed

lemma listed_hash_find:
  "listed_hash f g n = map_option (\<lambda>l. fld l 0) (find (\<lambda>l. fld l 3 = n) (file_lines f (shares_path g)))"
proof -
  have "map_of (map (\<lambda>l. (fld l 3, fld l 0)) ls) n = map_option (\<lambda>l. fld l 0) (find (\<lambda>l. fld l 3 = n) ls)" for ls
    by (induction ls) auto
  then show ?thesis by (simp add: listed_hash_def)
qed

lemma refine_GiveSha:
  assumes inv: "swarm_inv t" and b: "benign (GiveSha g n u)"
  shows "refines E (GiveSha g n u) t"
proof -
  have args: "token g" "token n" "slash \<notin> set u" "token u" and good: "good_group g"
    using benign_token [OF b] b by (simp_all add: benign_def good_user_def)
  note D = swarm_invD [OF inv]
  obtain t' where t': "SendSHA g n u t = Some
      (if may_read (disk t) g u then (case listed_hash (disk t) g n of None \<Rightarrow> [] | Some h \<Rightarrow> h) else [], t')"
    "tracker_inv t'" "coherent t'" "replicates t t'"
    and lines: "file_lines (disk t') =
      (if may_read (disk t) g u
       then (file_lines (disk t))
         (downloading_path u := file_lines (disk t) (downloading_path u) @ [join sp [g, n]])
       else file_lines (disk t))"
    using SendSHA_spec [OF D(1) args] by blast
  have "view (disk t') = spec_state E (GiveSha g n u) (view (disk t)) \<and> canonical (disk t')"
    using lines good D(3)
    by (intro conjI view_eqI) (auto simp: table_defs canonical_def simp del: join.simps)
  moreover have "handle E (GiveSha g n u) t = Some (spec_reply E (GiveSha g n u) (view (disk t)), t')"
    using t'(1) good
    by (auto simp: listed_hash_find find_map share_row_def split: option.splits)
  ultimately show ?thesis using t' by (intro refinesI [where t' = t']) simp_all
qed

lemma refine_AddFile:
  assumes inv: "swarm_inv t" and b: "benign (AddFile g n path u)"
  shows "refines E (AddFile g n path u) t"
proof -
  have args: "token g" "token n" "token path" "token u" "slash \<notin> set g" "good_user u" and good: "good_group g"
    using benign_token [OF b] b by (simp_all add: benign_def good_group_def)
  note D = swarm_invD [OF inv]
  let ?h = "fst (first_share (disk t) g n)" and ?s = "snd (first_share (disk t) g n)"
  obtain t' where t': "UpdateDownload g n path u t = Some t'" "tracker_inv t'" "replicates t t'"
    and cache: "credentials t' = disk_credentials (disk t)" "groups t' = disk_groups (disk t)"
      "online t' = disk_online (disk t)" "pending_group_requests t' = disk_pending (disk t)"
    and lines: "file_lines (disk t') =
      (if records_file (disk t) u n then file_lines (disk t)
       else (file_lines (disk t))
         (user_path u := file_lines (disk t) (user_path u) @ [join sp [g, n, path]],
          shares_path g := file_lines (disk t) (shares_path g) @ [join sp [?h, ?s, u, n]]))"
    using UpdateDownload_spec [OF D(1) args] by blast
  have rec: "(\<exists>e\<in>set (library (view (disk t)) u). e_name e = n) \<longleftrightarrow> records_file (disk t) u n"
    using args by (auto simp: records_file_def entry_row_def)
  have "coherent t'"
    using cache lines good
    by (intro coherent_cong [OF coherent_fetched [of t]])
      (auto simp: base_files_def disk_members_def simp del: join.simps)
  moreover have "view (disk t') = spec_state E (AddFile g n path u) (view (disk t)) \<and> canonical (disk t')"
  proof (cases "records_file (disk t) u n")
    case True
    then have "file_lines (disk t') = file_lines (disk t)" using lines by auto
    from unchanged [OF inv this] show ?thesis using True rec by simp
  next
    case False
    have "\<forall>x\<in>set [?h, ?s, u, n]. sp \<notin> set x" "\<forall>x\<in>set [g, n, path]. sp \<notin> set x"
      using first_share_clean [OF tracker_invD(1) [OF D(1)], of g n] args by simp_all
    then have rows: "share_row (join sp [?h, ?s, u, n]) = Share ?h ?s u n"
      "entry_row (join sp [g, n, path]) = Entry g n path"
      using fld_join [of "[?h, ?s, u, n]"] fld_join [of "[g, n, path]"]
      by (simp_all add: share_row_def entry_row_def del: join.simps)
    then show ?thesis
      using False rec lines args good D(3)
      by (intro conjI view_eqI) (auto simp: table_defs canonical_def simp del: join.simps)
  qed
  ultimately show ?thesis using t' by (intro refinesI [where t' = t']) simp_all
qed

lemma refine_Complete:
  assumes inv: "swarm_inv t" and b: "benign (Complete g n path u)"
  shows "refines E (Complete g n path u) t"
proof -
  have args: "token g" "token n" "slash \<notin> set u" "token u"
    using benign_token [OF b] b by (simp_all add: benign_def good_user_def)
  note D = swarm_invD [OF inv]
  obtain t' where t': "CompleteDownload g n path u t = Some t'"
    "tracker_inv t'" "coherent t'" "replicates t t'"
    and lines: "file_lines (disk t') = (file_lines (disk t))
      (downloading_path u := filter (\<lambda>l. l \<noteq> join sp [g, n]) (file_lines (disk t) (downloading_path u)),
       downloaded_path u := file_lines (disk t) (downloaded_path u) @ [join sp [g, n]])"
    using CompleteDownload_spec [OF D(1) args] by blast
  have "view (disk t') = spec_state E (Complete g n path u) (view (disk t)) \<and> canonical (disk t')"
    using lines D(3)
    by (intro conjI view_eqI) (auto simp: table_defs canonical_def simp del: join.simps)
  then show ?thesis using t' by (intro refinesI [where t' = t']) simp_all
qed

lemma refine_GiveSeeders:
  assumes inv: "swarm_inv t"
  shows "refines E (GiveSeeders g n u) t"
proof -
  let ?ss = "shares_named (disk t) g n"
  have named: "filter (\<lambda>s. s_name s = n) (map share_row (file_lines (disk t) (shares_path g))) = map share_row ?ss"
    by (simp add: shares_named_def filter_map comp_def share_row_def)
  have "seeders_of (view (disk t)) g n = online_seeders (disk t) g n"
    using named
    by (simp add: seeders_of_def online_seeders_def image_image share_row_def disk_online_dom
        del: set_filter)
  moreover have "size_of (view (disk t)) g n = listed_size (disk t) g n"
    using named by (simp add: size_of_def listed_size_def Let_def last_map share_row_def)
  ultimately show ?thesis
    using SendSeeders_spec [OF swarm_invD(1) [OF inv], of g n u] inv
    by (intro refines_fetched) (simp_all add: Let_def)
qed

lemma refine_queries:
  assumes inv: "swarm_inv t"
  shows "refines E ListGroups t" "refines E (ListRequests g u) t" "refines E (ListFiles g) t"
    "refines E (ShowDownload u) t" "refines E (GiveDetails u) t"
    "good_user u \<Longrightarrow> refines E (SendFullPath u g n) t"
proof -
  note D = swarm_invD [OF inv]
  show "refines E ListGroups t"
    by (rule refines_fetched [OF inv]) (simp_all add: GroupList_spec [OF D(1)])
  show "refines E (ListRequests g u) t"
    by (rule refines_fetched [OF inv]) (simp_all add: GroupRequestList_spec [OF D(1)])
  show "refines E (ShowDownload u) t"
    by (rule refines_fetched [OF inv])
      (simp_all add: ShowDownloads_spec [OF D(1)] del: append_Cons append_Nil)
  show "refines E (ListFiles g) t"
    by (rule refines_fetched [OF inv])
      (simp_all add: GroupFileList_spec [OF D(1)] share_row_def image_image)
  have "(case find (\<lambda>e. e_group e = g \<and> e_name e = n) (map entry_row ls) of
      None \<Rightarrow> [] | Some e \<Rightarrow> e_path e) =
      (case find (\<lambda>l. fld l 0 = g \<and> fld l 1 = n) ls of None \<Rightarrow> [] | Some l \<Rightarrow> fld l 2)" for ls
    by (simp add: find_map entry_row_def split: option.splits)
  then show "refines E (SendFullPath u g n) t" if "good_user u"
    by (intro refines_query [OF inv, where t' = t])
      (simp_all add: GetFullPath_spec [OF D(1) that] that recorded_path_def D replicates_same)
  obtain t' where "SendDetails u t = Some (address (disk t) u, t')" "tracker_inv t'" "coherent t'"
    "replicates t t'" "file_lines (disk t') = file_lines (disk t)"
    using SendDetails_spec [OF D(1), of u] by blast
  then show "refines E (GiveDetails u) t"
    using inv by (intro refines_query [where t' = t']) (simp_all add: address_def)
qed

text \<open>Every benign request is defined and does what the abstract tracker does.\<close>

lemma handle_refines:
  assumes "swarm_inv t" "benign r"
  shows "refines E r t"
  using assms
  by (cases r)
    (simp_all add: refine_Login refine_CreateUser refine_CreateGroup refine_JoinGroup refine_queries
      refine_AcceptRequest refine_UploadFile refine_StopShare refine_LeaveGroup refine_LogOut
      refine_GiveSha refine_GiveSeeders refine_AddFile refine_Complete benign_def [of "SendFullPath _ _ _"])

end
