(* ===== verification/Tracker_Console.thy ===== *)
theory Tracker_Console
  imports Tracker_Spec "HOL-Library.Char_ord" "HOL-Library.List_Lexorder" "HOL-Library.Product_Lexorder"
begin

text \<open>
  The rest of \<open>main\<close> of tracker/tracker.cpp: the file with the addresses of the trackers, and the console.
  Its commands are the words of the standard input that a separator follows. \<open>print\<close> reloads the
  tables and prints them; the hash tables in an order of the library (a parameter), the sets sorted.
\<close>


section \<open>Definitions\<close>

text \<open>The addresses, line by line; a word that is missing keeps its value from the line before.\<close>

definition read_tracker_info :: "string list \<Rightarrow> (string \<times> string) list" where
  "read_tracker_info infile = fst (read_pairs ([], []) infile)"

record orders =
  table_order :: "(string \<rightharpoonup> string) \<Rightarrow> string list"
  address_order :: "(string \<rightharpoonup> string \<times> string) \<Rightarrow> string list"

definition entry_line :: "(string \<rightharpoonup> string) \<Rightarrow> string \<Rightarrow> string" where
  "entry_line m k = k @ [sp] @ (case m k of None \<Rightarrow> [] | Some v \<Rightarrow> v)"

definition address_line :: "(string \<rightharpoonup> string \<times> string) \<Rightarrow> string \<Rightarrow> string" where
  "address_line m k = (case m k of None \<Rightarrow> k @ [sp, sp] | Some (a, b) \<Rightarrow> join sp [k, a, b])"

definition pair_text :: "string \<times> string \<Rightarrow> string" where
  "pair_text p = join sp [fst p, snd p]"

definition print_all :: "orders \<Rightarrow> (string \<times> string) list \<Rightarrow> tracker \<Rightarrow> (string list \<times> tracker) option" where
  "print_all os tracker_info t =
     do {
       t \<leftarrow> FetchDetails t;
       Some ([''##### credentials''] @ map (entry_line (credentials t)) (table_order os (credentials t)) @
             [''##### online_users''] @ map (address_line (online_users t)) (address_order os (online_users t)) @
             [''##### groups''] @ map (entry_line (groups t)) (table_order os (groups t)) @
             [''##### online''] @ sorted_list_of_set (online t) @
             [''##### tracker_info''] @ map pair_text tracker_info @
             [''##### pending''] @ map pair_text (sorted_list_of_set (pending_group_requests t)), t)
     }"

fun console ::
  "orders \<Rightarrow> (string \<times> string) list \<Rightarrow> string list \<Rightarrow> tracker \<Rightarrow> (string list \<times> tracker) option" where
  "console os info [] t = Some ([], t)"
| "console os info (command # cin) t =
     (if command = ''quit'' then Some ([], t)
      else if command = ''print'' then
        do { (out, t) \<leftarrow> print_all os info t; (outs, t) \<leftarrow> console os info cin t; Some (out @ outs, t) }
      else console os info cin t)"


section \<open>What the console shows and leaves alone\<close>

lemma print_all_result:
  assumes "swarm_inv t"
  shows "\<exists>out. print_all os info t = Some (out, fetched t) \<and> swarm_inv (fetched t) \<and> view (disk (fetched t)) = view (disk t)"
proof -
  have inv: "tracker_inv t" using swarm_invD(1) [OF assms] .
  have "swarm_inv (fetched t)"
    using swarm_invD [OF assms] tracker_inv_fetched [OF inv] coherent_fetched [of t] disk_fetched_inv [OF inv]
    by (simp add: swarm_inv_def)
  then show ?thesis
    using tracker_invD(4) [OF inv] disk_fetched_inv [OF inv] by (auto simp: print_all_def)
qed

lemma console_keeps:
  "swarm_inv t \<Longrightarrow> \<exists>out t'. console os info cin t = Some (out, t') \<and> swarm_inv t' \<and> view (disk t') = view (disk t)"
proof (induction cin arbitrary: t)
  case (Cons c cin)
  obtain out where out: "print_all os info t = Some (out, fetched t)" "swarm_inv (fetched t)"
      "view (disk (fetched t)) = view (disk t)"
    using print_all_result [OF Cons.prems] by blast
  show ?case using Cons.IH [OF Cons.prems] Cons.IH [OF out(2)] out(1,3) Cons.prems by auto
qed auto

text \<open>A tracker file in which every line has both words is read as it is.\<close>

lemma read_tracker_info_lines:
  assumes "\<forall>(a, b)\<in>set xs. token a \<and> a \<noteq> [] \<and> token b \<and> b \<noteq> []"
  shows "read_tracker_info (map pair_text xs) = xs"
  using assms
proof (induction xs rule: rev_induct)
  case (snoc x xs)
  obtain a b where x: "x = (a, b)" by (cases x)
  have line: "pair_text x = join sp [a, b]" by (simp add: x pair_text_def)
  have "fst (read_pairs ([], []) (map pair_text xs @ [pair_text x])) = fst (read_pairs ([], []) (map pair_text xs)) @ [x]"
    using snoc.prems unfolding line by (subst read_pairs_line) (auto simp: x)
  then show ?case using snoc by (simp add: read_tracker_info_def)
qed (simp add: read_tracker_info_def)

end
