(* ===== verification/Tracker_Runs.thy ===== *)
theory Tracker_Runs
  imports Tracker_Spec
begin

text \<open>
  Whole connections and runs of them. \<open>serve\<close> is one client connection, from the framed message
  on the wire to the new state of the tracker; \<open>deliver\<close> is one \<open>Sync\<close> connection at the sibling.
  The contracts of the prelude are interpreted on \<open>serve\<close>: no benign run is undefined, every
  benign run is a run of the abstract tracker, and what the abstract tracker keeps true
  (\<open>swarm_wf\<close>) is therefore true of the disk. The last section is about the pair of trackers.
\<close>


section \<open>Definitions\<close>

text \<open>The records on the wire after \<open>TLSSendMsg\<close>.\<close>

definition wire :: "string \<Rightarrow> string list" where
  "wire m = snd (TLSSendMsg record_write [] m)"

definition serve :: "env \<times> request \<Rightarrow> tracker \<Rightarrow> tracker option" where
  "serve e t = map_option snd (TrackerKernel True (fst e) record_read (wire (message (snd e))) t)"

definition acceptable :: "env \<times> request \<Rightarrow> bool" where
  "acceptable e \<longleftrightarrow> benign (snd e) \<and> length (message (snd e)) \<le> MAX_MSG_SIZE"

text \<open>One entry of the outbox, arriving at the sibling on a connection of its own.\<close>

definition deliver :: "env \<Rightarrow> string \<times> string list \<Rightarrow> tracker \<Rightarrow> tracker option" where
  "deliver E push s =
     map_option snd (TrackerKernel True E record_read (wire (fst push) @ send_records (snd push)) s)"

text \<open>
  The shares of one group: names are not empty, a name has one hash, and a hash that is known has
  one name.
\<close>

definition shares_wf :: "share list \<Rightarrow> bool" where
  "shares_wf ss \<longleftrightarrow>
     (\<forall>s\<in>set ss. s_name s \<noteq> []) \<and>
     (\<forall>s\<in>set ss. \<forall>s'\<in>set ss. s_name s = s_name s' \<longrightarrow> s_hash s = s_hash s') \<and>
     (\<forall>s\<in>set ss. \<forall>s'\<in>set ss. s_hash s = s_hash s' \<and> s_hash s \<noteq> [] \<longrightarrow> s_name s = s_name s')"

text \<open>What every reachable state of the abstract tracker satisfies.\<close>

definition swarm_wf :: "swarm \<Rightarrow> bool" where
  "swarm_wf a \<longleftrightarrow>
     dom (addresses a) \<subseteq> dom (accounts a) \<and>
     (\<forall>g u. owners a g = Some u \<longrightarrow> u \<in> roster a g) \<and>
     (\<forall>(u, g) \<in> requests a. owners a g \<noteq> None \<and> u \<notin> roster a g) \<and>
     (\<forall>g. shares_wf (shares a g))"


section \<open>One connection\<close>

lemma SSLReadAll_pieces:
  assumes "0 < k"
  shows "SSLReadAll record_read (pieces k s @ rest) (length s) = (Some s, rest)"
proof (induction s rule: length_induct)
  case (1 s)
  show ?case
  proof (cases "s = []")
    case True
    then show ?thesis by (simp add: pieces.simps [of k] SSLReadAll.simps [of record_read])
  next
    case False
    then have p: "pieces k s = take k s # pieces k (drop k s)" "take k s \<noteq> []"
      using assms by (simp_all add: pieces.simps [of k s])
    have "record_read (take k s # pieces k (drop k s) @ rest) (length s) =
        (take k s, pieces k (drop k s) @ rest)"
      using p(2) by simp
    moreover have "SSLReadAll record_read (pieces k (drop k s) @ rest) (length (drop k s)) =
        (Some (drop k s), rest)"
      using "1.IH" [rule_format, of "drop k s"] False assms by simp
    moreover have "length s - length (take k s) = length (drop k s)" by simp
    ultimately show ?thesis
      using False p by (simp add: SSLReadAll.simps [of record_read "take k s # _"])
  qed
qed

lemma SSLWriteAll_record: "SSLWriteAll record_write c s = (True, c @ pieces TLS_RECORD s)"
proof (cases "s = []")
  case True
  then show ?thesis by (simp add: SSLWriteAll.simps [of record_write] pieces.simps [of _ "[]"])
next
  case False
  then have "SSLWriteAll record_write c s = SSLWriteAll record_write (c @ pieces TLS_RECORD s) []"
    by (simp add: SSLWriteAll.simps [of record_write c] record_write_def)
  then show ?thesis by (simp add: SSLWriteAll.simps [of record_write _ "[]"])
qed

lemma wire_eq: "m \<noteq> [] \<Longrightarrow> wire m = pieces TLS_RECORD (htonl (word_of_nat (length m))) @ pieces TLS_RECORD m"
  by (simp add: wire_def TLSSendMsg_def SSLWriteAll_record Let_def)

text \<open>The receiver takes the message off the wire and leaves the records behind it untouched.\<close>

lemma TLSRecvMsg_wire:
  assumes "m \<noteq> []" "length m \<le> MAX_MSG_SIZE"
  shows "TLSRecvMsg record_read (wire m @ rest) = (m, rest)"
proof -
  let ?h = "htonl (word_of_nat (length m))"
  have "0 < TLS_RECORD" by (simp add: TLS_RECORD_def)
  note rd = SSLReadAll_pieces [OF this]
  have "unat (word_of_nat (length m) :: 32 word) = length m"
    using assms(2) by (intro unat_length) (simp add: MAX_MSG_SIZE_def)
  moreover have "SSLReadAll record_read (wire m @ rest) 4 = (Some ?h, pieces TLS_RECORD m @ rest)"
    using rd [of ?h "pieces TLS_RECORD m @ rest"] assms(1) by (simp add: wire_eq)
  ultimately show ?thesis using assms rd [of m rest] by (simp add: TLSRecvMsg_def)
qed

lemma message_not_Nil [simp]: "message r \<noteq> []"
  by (cases r) (simp_all add: message_def)

lemma serve_handle: "acceptable e \<Longrightarrow> serve e t = map_option snd (handle (fst e) (snd e) t)"
  using TLSRecvMsg_wire [of "message (snd e)" "[]"] dispatch_message [of "snd e" "fst e" record_read "[]" t]
  by (simp add: serve_def TrackerKernel_def acceptable_def benign_def)


section \<open>Runs\<close>

lemma serve_refines:
  assumes "acceptable e" "swarm_inv t"
  obtains t' where "serve e t = Some t'" "swarm_inv t'" "replicates t t'"
    "view (disk t') = spec_state (fst e) (snd e) (view (disk t))"
  using handle_refines [OF assms(2), of "snd e" "fst e"] serve_handle [OF assms(1), of t] assms(1)
  by (auto simp: refines_def acceptable_def)

interpretation kernel_safe: safe_machine serve acceptable swarm_inv
  by unfold_locales (metis serve_refines option.inject, metis serve_refines option.distinct(1))

interpretation kernel_sim: simulation serve acceptable swarm_inv "\<lambda>t. view (disk t)"
  "\<lambda>e. spec_state (fst e) (snd e)"
  by unfold_locales (metis serve_refines option.inject)

lemma shares_wfD:
  assumes "shares_wf ss" "s \<in> set ss"
  shows "s_name s \<noteq> []"
    "s' \<in> set ss \<Longrightarrow> s_name s = s_name s' \<Longrightarrow> s_hash s = s_hash s'"
    "s' \<in> set ss \<Longrightarrow> s_hash s = s_hash s' \<Longrightarrow> s_hash s \<noteq> [] \<Longrightarrow> s_name s = s_name s'"
  using assms unfolding shares_wf_def by blast+

lemma shares_wf_snoc:
  assumes "shares_wf ss" "n \<noteq> []" "\<And>s. s \<in> set ss \<Longrightarrow> s_name s = n \<Longrightarrow> s_hash s = h"
    "\<And>s. s \<in> set ss \<Longrightarrow> s_hash s = h \<Longrightarrow> h \<noteq> [] \<Longrightarrow> s_name s = n"
  shows "shares_wf (ss @ [Share h z u n])"
proof -
  have new: "s \<in> set ss \<or> s = Share h z u n" if "s \<in> set (ss @ [Share h z u n])" for s
    using that by auto
  have n: "s_name (Share h z u n) = n" "s_hash (Share h z u n) = h" by simp_all
  show ?thesis
    unfolding shares_wf_def using assms(2-4) shares_wfD [OF assms(1)] new n by metis
qed

lemma shares_wf_filter: "shares_wf ss \<Longrightarrow> shares_wf (filter P ss)"
  unfolding shares_wf_def set_filter by blast

lemma swarm_wf_shares: "swarm_wf a \<Longrightarrow> shares_wf (shares a g)"
  by (simp add: swarm_wf_def)

lemma swarm_wf_update:
  "swarm_wf a \<Longrightarrow> shares_wf ss \<Longrightarrow> swarm_wf (a\<lparr>shares := (shares a)(g := ss), library := l\<rparr>)"
  by (simp add: swarm_wf_def)

lemma chosen_name_props:
  assumes a: "swarm_wf a" and "n \<noteq> []" "\<not> taken a g h (chosen_name a g h n)"
  shows "shares_wf (shares a g @ [Share h z u (chosen_name a g h n)])"
proof (rule shares_wf_snoc [OF swarm_wf_shares [OF a]])
  show "chosen_name a g h n \<noteq> []" using assms(2) by (auto simp: chosen_name_def split: option.splits)
  show "s_hash s = h" if "s \<in> set (shares a g)" "s_name s = chosen_name a g h n" for s
    using assms(3) that by (auto simp: taken_def)
  fix s assume s: "s \<in> set (shares a g)" "s_hash s = h" "h \<noteq> []"
  then obtain x where x: "find (\<lambda>s. s_hash s = h) (shares a g) = Some x"
    using find_hit [of "\<lambda>s. s_hash s = h" "shares a g"] by auto
  have "x \<in> set (shares a g)" "s_hash x = h" using find_SomeD [OF x] by simp_all
  then have "s_name s = s_name x" "s_name x \<noteq> []"
    using s shares_wfD(3) [OF swarm_wf_shares [OF a] s(1)] shares_wfD(1) [OF swarm_wf_shares [OF a]]
    by metis+
  then show "s_name s = chosen_name a g h n" using x by (simp add: chosen_name_def)
qed

lemma first_source_props:
  assumes a: "swarm_wf a" and "n \<noteq> []"
  shows "shares_wf (shares a g @ [Share (fst (first_source a g n)) (snd (first_source a g n)) u n])"
proof (rule shares_wf_snoc [OF swarm_wf_shares [OF a] assms(2)])
  note wf = shares_wfD [OF swarm_wf_shares [OF a], of _ g]
  fix s assume s: "s \<in> set (shares a g)"
  show "s_hash s = fst (first_source a g n)" if n: "s_name s = n"
  proof -
    obtain x where x: "find (\<lambda>s. s_name s = n) (shares a g) = Some x"
      using s n find_hit [of "\<lambda>s. s_name s = n" "shares a g"] by auto
    have "x \<in> set (shares a g)" "s_name x = n" using find_SomeD [OF x] by simp_all
    then have "s_hash s = s_hash x" using s n by (intro wf(2)) simp_all
    then show ?thesis using x by (simp add: first_source_def)
  qed
  show "s_name s = n" if h: "s_hash s = fst (first_source a g n)" "fst (first_source a g n) \<noteq> []"
  proof (cases "find (\<lambda>s. s_name s = n) (shares a g)")
    case None
    then show ?thesis using h by (simp add: first_source_def)
  next
    case (Some x)
    have "x \<in> set (shares a g)" "s_name x = n" using find_SomeD [OF Some] by simp_all
    then show ?thesis using s h Some wf(3) [of s x] by (simp add: first_source_def)
  qed
qed

text \<open>The abstract tracker keeps \<open>swarm_wf\<close>, request by request.\<close>

lemma spec_wf:
  assumes a: "swarm_wf a" and b: "benign r"
  shows "swarm_wf (spec_state E r a)"
proof (cases r)
  case (UploadFile h z g u n path)
  have "n \<noteq> []" using benign_token [OF b] UploadFile by simp
  then show ?thesis
    using a UploadFile chosen_name_props [OF a, of n g h z u] by (simp add: swarm_wf_update)
next
  case (AddFile g n path u)
  have "n \<noteq> []" using benign_token [OF b] AddFile by simp
  then show ?thesis
    using a AddFile first_source_props [OF a, of n g u] by (simp add: swarm_wf_update)
next
  case (StopShare g n u)
  then show ?thesis using a by (simp add: swarm_wf_update shares_wf_filter swarm_wf_shares)
next
  case (LeaveGroup g u)
  then show ?thesis using a shares_wf_filter by (auto simp: swarm_wf_def)
next
  case (CreateGroup g u)
  then show ?thesis using a by (auto simp: swarm_wf_def shares_wf_def [of "[]"])
next
  case (Login u pw port ip)
  then show ?thesis using a by (auto simp: swarm_wf_def login_ok_def split: option.splits)
qed (use a in \<open>auto simp: swarm_wf_def\<close>)

lemma run_wf:
  assumes "\<forall>e\<in>set es. acceptable e" "swarm_wf a"
  shows "swarm_wf (fold (\<lambda>e. spec_state (fst e) (snd e)) es a)"
  using assms by (induction es arbitrary: a) (auto simp: acceptable_def spec_wf)



section \<open>The pair of trackers\<close>

lemma push_ok_not_Nil: "push_ok p \<Longrightarrow> p \<noteq> []"
  by (auto simp: push_ok_def dirname_def)

text \<open>One \<open>Sync\<close> connection replaces the file at the sibling and changes nothing else there.\<close>

lemma deliver_push:
  assumes "push_ok p" "terminated c" "length (''Sync '' @ p) \<le> MAX_MSG_SIZE"
  shows "deliver E (''Sync '' @ p, sync_payloads c) s =
    Some (s\<lparr>disk := file_append (file_create (disk s) p) p c\<rparr>)"
proof -
  have "token p" "p \<noteq> []" using assms(1) push_ok_not_Nil by (auto simp: push_ok_def)
  moreover have "token ''Sync''" by (simp add: token_def is_space_def)
  ultimately have "stream_gets (length [''Sync'', p] + 5) (join sp [''Sync'', p]) =
      [''Sync'', p] @ replicate 5 []"
    by (intro stream_gets_join_more) simp
  then have "stream_gets 7 (''Sync '' @ p) = [''Sync'', p] @ replicate 5 []" by simp
  moreover have "TLSRecvMsg record_read (wire (''Sync '' @ p) @ send_records (sync_payloads c)) =
      (''Sync '' @ p, send_records (sync_payloads c))"
    using assms(3) by (intro TLSRecvMsg_wire) simp_all
  ultimately show ?thesis
    using SyncRecv_loop_payloads [OF assms(2), of "[]" "[]"]
    by (simp add: deliver_def TrackerKernel_def dispatch_def Let_def SyncRecv_def)
qed

lemma deliver_effect:
  assumes ok: "files_ok (disk s)" and p: "push_ok p" "terminated c"
    and t: "s' = s\<lparr>disk := file_append (file_create (disk s) p) p c\<rparr>"
  shows "files_ok (disk s')" "file_lines (disk s') = (file_lines (disk s))(p := getlines c)"
proof -
  have op: "openable (disk s) p" "p \<noteq> temp_path"
    using ok p(1) by (simp_all add: push_ok_def openable_def files_ok_def)
  show "files_ok (disk s')"
    using files_ok_append [OF files_ok_create [OF ok] op(2) p(2)] t by simp
  show "file_lines (disk s') = (file_lines (disk s))(p := getlines c)"
    using op t by (auto simp: fun_eq_iff file_lines_def file_append_def file_create_def openable_def)
qed

lemma deliver_pushed:
  assumes "files_ok (disk s)" "files_ok f" "\<forall>p\<in>set ps. push_ok p \<and> exists_file f p"
    "\<forall>m\<in>set (pushed Online f ps). length (fst m) \<le> MAX_MSG_SIZE"
  shows "\<exists>s'. run_steps (deliver E) (pushed Online f ps) s = Some s' \<and> files_ok (disk s') \<and>
    s' = s\<lparr>disk := disk s'\<rparr> \<and>
    (\<forall>p. file_lines (disk s') p = (if p \<in> set ps then file_lines f p else file_lines (disk s) p))"
  using assms
proof (induction ps arbitrary: s)
  case Nil
  then show ?case by (simp add: pushed_def)
next
  case (Cons p ps)
  obtain c where c: "content f p = Some c" using Cons.prems(3) by (auto simp: exists_file_def)
  then have fin: "terminated c" using Cons.prems(2) by (auto simp: files_ok_def)
  have p: "push_ok p" using Cons.prems(3) by simp
  define s1 where "s1 = s\<lparr>disk := file_append (file_create (disk s) p) p c\<rparr>"
  have s1: "deliver E (''Sync '' @ p, sync_payloads c) s = Some s1"
    using deliver_push [OF p fin] Cons.prems(4) by (simp add: pushed_def s1_def)
  note eff = deliver_effect [OF Cons.prems(1) p fin s1_def]
  obtain s' where s': "run_steps (deliver E) (pushed Online f ps) s1 = Some s'" "files_ok (disk s')"
    "s' = s1\<lparr>disk := disk s'\<rparr>"
    "\<forall>q. file_lines (disk s') q = (if q \<in> set ps then file_lines f q else file_lines (disk s1) q)"
    using Cons.IH [OF eff(1) Cons.prems(2)] Cons.prems(3,4) by (auto simp: pushed_def)
  have "run_steps (deliver E) (pushed Online f (p # ps)) s = Some s'"
    using s1 s'(1) c by (simp add: pushed_def)
  moreover have "s1\<lparr>disk := d\<rparr> = s\<lparr>disk := d\<rparr>" for d by (simp add: s1_def)
  then have "s' = s\<lparr>disk := disk s'\<rparr>" using s'(3) by metis
  moreover have "file_lines f p = getlines c" using c by (simp add: file_lines_def)
  then have "\<forall>q. file_lines (disk s') q = (if q \<in> set (p # ps) then file_lines f q else file_lines (disk s) q)"
    using s'(4) eff(2) by auto
  ultimately show ?case using s'(2) by blast
qed

text \<open>What one step pushed brings the sibling's files to those of the tracker.\<close>

definition caught_up :: "tracker \<Rightarrow> tracker \<Rightarrow> bool" where
  "caught_up s t \<longleftrightarrow> files_ok (disk s) \<and> file_lines (disk s) = file_lines (disk t)"

lemma replica_step:
  assumes "replicates t t'" "link t = Online" "files_ok (disk t')" "caught_up s t"
    "\<forall>m\<in>set (outbox t'). length (fst m) \<le> MAX_MSG_SIZE"
  shows "\<exists>new s'. outbox t' = outbox t @ new \<and> run_steps (deliver E) new s = Some s' \<and>
    caught_up s' t' \<and> s' = s\<lparr>disk := disk s'\<rparr> \<and> link t' = Online"
proof -
  obtain ps where ps: "outbox t' = outbox t @ pushed Online (disk t') ps"
    "\<forall>p\<in>set ps. push_ok p \<and> exists_file (disk t') p"
    "\<forall>p. p \<notin> set ps \<longrightarrow> file_lines (disk t') p = file_lines (disk t) p" "link t' = Online"
    using assms(1,2) by (auto simp: replicates_def)
  obtain s' where s': "run_steps (deliver E) (pushed Online (disk t') ps) s = Some s'" "files_ok (disk s')"
    "s' = s\<lparr>disk := disk s'\<rparr>"
    "\<forall>p. file_lines (disk s') p = (if p \<in> set ps then file_lines (disk t') p else file_lines (disk s) p)"
    using deliver_pushed [OF _ assms(3) ps(2), of s E] assms(4,5) ps(1) unfolding caught_up_def by auto
  have "file_lines (disk s') = file_lines (disk t')"
    using s'(4) ps(3) assms(4) by (auto simp: caught_up_def fun_eq_iff)
  then show ?thesis using ps s' unfolding caught_up_def by blast
qed

lemma replica_run:
  assumes "\<forall>e\<in>set es. acceptable e" "swarm_inv t" "link t = Online" "caught_up s t"
    "run_steps serve es t = Some t'" "\<forall>m\<in>set (outbox t'). length (fst m) \<le> MAX_MSG_SIZE"
  shows "\<exists>new s'. outbox t' = outbox t @ new \<and> run_steps (deliver E) new s = Some s' \<and>
    caught_up s' t' \<and> s' = s\<lparr>disk := disk s'\<rparr>"
  using assms
proof (induction es arbitrary: t s)
  case Nil
  then show ?case by simp
next
  case (Cons e es)
  obtain t1 where t1: "serve e t = Some t1" "swarm_inv t1" "replicates t t1"
    by (rule serve_refines [of e t]) (use Cons.prems in simp_all)
  have run: "run_steps serve es t1 = Some t'" using Cons.prems(5) t1(1) by simp
  have grow: "\<exists>w. outbox t' = outbox t1 @ w" if "swarm_inv t1" "run_steps serve es t1 = Some t'"
    "\<forall>e\<in>set es. acceptable e" for t1 es
    using that
  proof (induction es arbitrary: t1)
    case (Cons e es)
    obtain t2 where t2: "serve e t1 = Some t2" "swarm_inv t2" "replicates t1 t2"
      by (rule serve_refines [of e t1]) (use Cons.prems in simp_all)
    then show ?case using Cons.IH [of t2] Cons.prems by (auto simp: replicates_def)
  qed simp
  have "\<forall>m\<in>set (outbox t1). length (fst m) \<le> MAX_MSG_SIZE"
    using grow [OF t1(2) run] Cons.prems(1,6) by auto
  then obtain new s1 where s1: "outbox t1 = outbox t @ new" "run_steps (deliver E) new s = Some s1"
    "caught_up s1 t1" "s1 = s\<lparr>disk := disk s1\<rparr>" "link t1 = Online"
    using replica_step [OF t1(3) Cons.prems(3) _ Cons.prems(4)] tracker_invD(2) [OF swarm_invD(1) [OF t1(2)]]
    by blast
  obtain new' s' where s': "outbox t' = outbox t1 @ new'" "run_steps (deliver E) new' s1 = Some s'"
    "caught_up s' t'" "s' = s1\<lparr>disk := disk s'\<rparr>"
    using Cons.IH [OF _ t1(2) s1(5,3) run Cons.prems(6)] Cons.prems(1) by auto
  have "s1\<lparr>disk := d\<rparr> = s\<lparr>disk := d\<rparr>" for d by (subst s1(4)) simp
  then have "s' = s\<lparr>disk := disk s'\<rparr>" using s'(4) by metis
  moreover have "run_steps (deliver E) (new @ new') s = Some s'"
    using s1(2) s'(2) by (simp add: run_steps_append)
  ultimately show ?case using s1(1) s'(1,3) by auto
qed


section \<open>Start and recovery\<close>

lemma SyncAll_ok:
  "link t \<noteq> Refused \<Longrightarrow>
     SyncAll t = Some (t\<lparr>outbox := outbox t @ (if link t = Online then [(''SyncAll'', [])] else [])\<rparr>)"
  by (cases "link t") (simp_all add: SyncAll_def IsOnline_def)

text \<open>Started on the files of a tracker, the program has that tracker's state again.\<close>

lemma tracker_start_ok:
  assumes "swarm_inv t" "l \<noteq> Refused"
  obtains t' where "tracker_start l (disk t) = Some t'" "swarm_inv t'" "disk t' = disk t" "link t' = l"
    "outbox t' = (if l = Online then [(''SyncAll'', [])] else [])"
    "pending_group_requests t' = disk_pending (disk t')"
proof -
  define b where "b = \<lparr>credentials = Map.empty, online_users = Map.empty, online = {}, group_members = {},
    groups = Map.empty, pending_group_requests = {}, disk = disk t, link = l, outbox = []\<rparr>"
  have b: "tracker_inv b" "disk b = disk t" "link b = l" "outbox b = []" 
    using assms by (simp_all add: b_def swarm_inv_def tracker_inv_def)
  let ?u = "fetched b"
  let ?t = "?u\<lparr>outbox := outbox ?u @ (if link ?u = Online then [(''SyncAll'', [])] else [])\<rparr>"
  have "tracker_start l (disk t) = Some ?t"
    using tracker_invD(4) [OF b(1)] SyncAll_ok [of ?u] assms(2) b(3)
    by (simp add: tracker_start_def b_def [symmetric])
  moreover have "disk ?u = disk t" using tracker_invD(5) [OF b(1)] b(2) by simp
  then have "swarm_inv ?t" 
    using assms b coherent_fetched [of b] by (simp add: swarm_inv_def tracker_inv_def coherent_def)
  ultimately show thesis using that [of ?t] b \<open>disk ?u = disk t\<close> by simp
qed

text \<open>The handler of \<open>SyncAll\<close> is a \<open>Sync\<close> of each file that \<open>readdir\<close> lists.\<close>

definition entry_paths :: "string list \<Rightarrow> string list" where
  "entry_paths es = map (\<lambda>e. ''.all_files/'' @ e) (filter (\<lambda>e. e \<noteq> ''.'' \<and> e \<noteq> ''..'') es)"

lemma SyncAllHandler_Syncs: "SyncAllHandler es = Syncs (entry_paths es)"
proof (induction es)
  case (Cons e es)
  show ?case using Cons.IH by (intro ext) (simp add: entry_paths_def Syncs.simps)
qed (intro ext, simp add: entry_paths_def Syncs.simps)

lemma serve_SyncAll:
  "TrackerKernel True E record_read (wire ''SyncAll'') t = no_reply (Syncs (entry_paths (dir_entries E)) t)"
proof -
  have "token ''SyncAll''" by (simp add: token_def is_space_def)
  then have "stream_gets (length [''SyncAll''] + 6) (join sp [''SyncAll'']) = [''SyncAll''] @ replicate 6 []"
    by (intro stream_gets_join_more) simp
  then have "stream_gets 7 ''SyncAll'' = [''SyncAll''] @ replicate 6 []" by simp
  then show ?thesis
    using TLSRecvMsg_wire [of "''SyncAll''" "[]"]
    by (simp add: TrackerKernel_def dispatch_def Let_def SyncAllHandler_Syncs MAX_MSG_SIZE_def)
qed

text \<open>
  A directory listing that names the files there are. \<open>.temp.txt\<close> has no lines between two
  requests and need not be listed.
\<close>

definition lists_files :: "env \<Rightarrow> files \<Rightarrow> bool" where
  "lists_files E f \<longleftrightarrow>
     (\<forall>p\<in>set (entry_paths (dir_entries E)). push_ok p \<and> exists_file f p \<and> length p + 5 \<le> MAX_MSG_SIZE) \<and>
     (\<forall>p. p \<notin> set (entry_paths (dir_entries E)) \<longrightarrow> file_lines f p = [])"

text \<open>What the sibling pushes: the entries after the moment the other tracker listens.\<close>

lemma racing_pushes:
  assumes "lists_files E (disk t)"
  shows "SyncAllHandler_racing k (dir_entries E) t =
    Some (t\<lparr>link := Online, outbox := outbox t @ pushed Online (disk t) (entry_paths (drop k (dir_entries E)))\<rparr>)"
proof -
  let ?ps = "\<lambda>es. entry_paths es"
  have "set (?ps (take k (dir_entries E))) \<subseteq> set (?ps (dir_entries E))"
    "set (?ps (drop k (dir_entries E))) \<subseteq> set (?ps (dir_entries E))"
    by (auto simp: entry_paths_def dest: in_set_takeD in_set_dropD)
  then have "\<forall>p\<in>set (?ps (take k (dir_entries E))). exists_file (disk t) p"
    "\<forall>p\<in>set (?ps (drop k (dir_entries E))). exists_file (disk t) p"
    using assms by (auto simp: lists_files_def)
  then show ?thesis
    using Syncs_ok [of "t\<lparr>link := Offline\<rparr>"] Syncs_ok [of "t\<lparr>link := Online\<rparr>"]
    by (simp add: SyncAllHandler_racing_def SyncAllHandler_Syncs pushed_def)
qed

lemma racing_delivers:
  assumes "swarm_inv t" "lists_files E (disk t)" "files_ok (disk s)"
  shows "\<exists>s'. run_steps (deliver F) (pushed Online (disk t) (entry_paths (drop k (dir_entries E)))) s = Some s' \<and>
    files_ok (disk s') \<and> s' = s\<lparr>disk := disk s'\<rparr> \<and>
    (\<forall>p. file_lines (disk s') p =
      (if p \<in> set (entry_paths (drop k (dir_entries E))) then file_lines (disk t) p else file_lines (disk s) p))"
proof -
  let ?ps = "entry_paths (drop k (dir_entries E))"
  have "set ?ps \<subseteq> set (entry_paths (dir_entries E))"
    by (auto simp: entry_paths_def dest: in_set_dropD)
  then have "\<forall>p\<in>set ?ps. push_ok p \<and> exists_file (disk t) p \<and> length p + 5 \<le> MAX_MSG_SIZE"
    using assms(2) unfolding lists_files_def by blast
  then have "\<forall>p\<in>set ?ps. push_ok p \<and> exists_file (disk t) p" "\<forall>m\<in>set (pushed Online (disk t) ?ps). length (fst m) \<le> MAX_MSG_SIZE"
    by (auto simp: pushed_def)
  then show ?thesis
    using deliver_pushed [OF assms(3) tracker_invD(2) [OF swarm_invD(1) [OF assms(1)]]] by blast
qed

end
