(* ===== verification/Peer_Chunks.thy ===== *)
theory Peer_Chunks
  imports Tls
begin

text \<open>
  Files as sequences of chunks of 512 KiB, in the peer: the hash of a file (\<open>GetFileHash\<close> of
  peer/peer.cpp, \<open>GetFileHash2\<close> and \<open>GetFileHashsmall\<close> of peer/peerdownload.cpp), the loop that
  sends a chunk (\<open>TransferFunction\<close> of peer/peerserver.cpp) and the loop that receives it
  (\<open>DownloadKernel\<close> of peer/peerdownload.cpp). SHA-1 is OpenSSL's, the parameter \<open>sha1\<close>;
  \<open>recv\<close> is a byte stream with the contract \<open>ssl_stream\<close>, which returns the data cut up in any way.
\<close>


section \<open>Definitions\<close>

text \<open>Each part of the peer has its own copy of the sizes: peer.cpp, peerdownload.h, peerserver.h.\<close>

definition CHUNK_SIZE :: nat where
  "CHUNK_SIZE = 524288"

definition CHUNK_SIZE1 :: nat where
  "CHUNK_SIZE1 = 524288"

definition SMALL_CHUNK_SIZE1 :: nat where
  "SMALL_CHUNK_SIZE1 = 1024"

definition CHUNK_SIZE2 :: nat where
  "CHUNK_SIZE2 = 524288"

definition SMALL_CHUNK_SIZE2 :: nat where
  "SMALL_CHUNK_SIZE2 = 1024"

subsection \<open>Hashes\<close>

text \<open>\<open>string temp_hash(result,result+20)\<close>: 20 of the 40 hexadecimal digits.\<close>

definition chunk_hash :: "(string \<Rightarrow> string) \<Rightarrow> string \<Rightarrow> string" where
  "chunk_hash sha1 data = take 20 (hex (sha1 data))"

text \<open>The loop \<open>while((bytes=fread(data,1,max_limit,f)))\<close> over the rest of the file.\<close>

function hash_loop :: "(string \<Rightarrow> string) \<Rightarrow> string \<Rightarrow> string \<times> nat \<Rightarrow> string \<times> nat" where
  "hash_loop sha1 rest (final_hash, file_size) =
     (let data = take CHUNK_SIZE rest in
      if data = [] then (final_hash, file_size)
      else hash_loop sha1 (drop CHUNK_SIZE rest)
             (final_hash @ chunk_hash sha1 data, file_size + length data))"
  by pat_completeness auto
termination
  by (relation "measure (\<lambda>(sha1, rest, acc). length rest)") (auto simp: CHUNK_SIZE_def)

declare hash_loop.simps [simp del]

text \<open>The copy of the loop in peerdownload.cpp, which does not count the bytes.\<close>

function hash_loop2 :: "(string \<Rightarrow> string) \<Rightarrow> string \<Rightarrow> string \<Rightarrow> string" where
  "hash_loop2 sha1 rest final_hash =
     (let data = take CHUNK_SIZE1 rest in
      if data = [] then final_hash
      else hash_loop2 sha1 (drop CHUNK_SIZE1 rest) (final_hash @ chunk_hash sha1 data))"
  by pat_completeness auto
termination
  by (relation "measure (\<lambda>(sha1, rest, acc). length rest)") (auto simp: CHUNK_SIZE1_def)

declare hash_loop2.simps [simp del]

text \<open>A file that cannot be opened is \<open>None\<close>.\<close>

definition GetFileHash :: "(string \<Rightarrow> string) \<Rightarrow> string option \<Rightarrow> string \<times> nat" where
  "GetFileHash sha1 file = (case file of None \<Rightarrow> ([], 0) | Some s \<Rightarrow> hash_loop sha1 s ([], 0))"

definition GetFileHash2 :: "(string \<Rightarrow> string) \<Rightarrow> string option \<Rightarrow> string" where
  "GetFileHash2 sha1 file = (case file of None \<Rightarrow> [] | Some s \<Rightarrow> hash_loop2 sha1 s [])"

text \<open>
  \<open>nchunks*CHUNK_SIZE1\<close> and \<open>nchunks*20\<close> are \<open>int\<close> products; a file that cannot be opened is a
  null \<open>FILE*\<close>, and \<open>substr\<close> past the end throws.
\<close>

definition GetFileHashsmall ::
  "(string \<Rightarrow> string) \<Rightarrow> string option \<Rightarrow> nat \<Rightarrow> string \<Rightarrow> bool option" where
  "GetFileHashsmall sha1 file nchunks fullhash =
     do {
       s \<leftarrow> file;
       pos \<leftarrow> int_range (int nchunks * int CHUNK_SIZE1);
       off \<leftarrow> int_range (int nchunks * 20);
       if length fullhash < nat off then None
       else Some (chunk_hash sha1 (take CHUNK_SIZE1 (drop (nat pos) s)) = take 20 (drop (nat off) fullhash))
     }"

definition MatchSHA :: "(string \<Rightarrow> string) \<Rightarrow> string option \<Rightarrow> string \<Rightarrow> string" where
  "MatchSHA sha1 file hash =
     (if GetFileHash2 sha1 file = hash then ''Full file matched'' else ''Not Matched'')"

subsection \<open>Sending a chunk\<close>

text \<open>
  \<open>while((n=fread(data_file,1,SMALL_CHUNK_SIZE2,fs))>0&&(total>0))\<close>: the blocks passed to \<open>send\<close>.
\<close>

function send_loop :: "string \<Rightarrow> int \<Rightarrow> string list" where
  "send_loop rest total' =
     (let data_file = take SMALL_CHUNK_SIZE2 rest in
      if data_file \<noteq> [] \<and> total' > 0
      then data_file # send_loop (drop SMALL_CHUNK_SIZE2 rest) (total' - int (length data_file))
      else [])"
  by pat_completeness auto
termination
  by (relation "measure (\<lambda>(rest, total'). length rest)") (auto simp: SMALL_CHUNK_SIZE2_def)

declare send_loop.simps [simp del]

text \<open>From the position of the chunk, with \<open>total=CHUNK_SIZE2+1\<close>.\<close>

definition chunk_blocks :: "string \<Rightarrow> nat \<Rightarrow> string list" where
  "chunk_blocks s pos = send_loop (drop pos s) (int CHUNK_SIZE2 + 1)"

subsection \<open>Receiving a chunk\<close>

text \<open>
  \<open>while((n=recv(sock,output,SMALL_CHUNK_SIZE1,0))>0&&file_size>0)\<close>: the bytes written to the file.
  The last block read may go past the chunk, and one more block may be read and dropped.
\<close>

function recv_loop :: "('c \<Rightarrow> nat \<Rightarrow> string \<times> 'c) \<Rightarrow> 'c \<Rightarrow> int \<Rightarrow> string" where
  "recv_loop rd c file_size =
     (case rd c SMALL_CHUNK_SIZE1 of (d, c') \<Rightarrow>
        if d \<noteq> [] \<and> file_size > 0 then d @ recv_loop rd c' (file_size - int (length d)) else [])"
  by pat_completeness auto
termination
  by (relation "measure (\<lambda>(rd, c, file_size). nat file_size)") auto

declare recv_loop.simps [simp del]

text \<open>\<open>fseek\<close> and \<open>fwrite\<close> on a file opened with \<open>rb+\<close>; a gap is filled with zero bytes.\<close>

definition write_at :: "string \<Rightarrow> nat \<Rightarrow> string \<Rightarrow> string" where
  "write_at f pos d =
     (if d = [] then f
      else take pos f @ replicate (pos - length f) (CHR 0x00) @ d @ drop (pos + length d) f)"

text \<open>The part of a file a chunk number stands for.\<close>

definition chunk_at :: "string \<Rightarrow> nat \<Rightarrow> string" where
  "chunk_at s i = take CHUNK_SIZE (drop (i * CHUNK_SIZE) s)"


section \<open>Hashes\<close>

text \<open>The copies agree; the lemmas are stated with the first of them.\<close>

lemma same_sizes [simp]:
  "CHUNK_SIZE1 = CHUNK_SIZE" "CHUNK_SIZE2 = CHUNK_SIZE" "SMALL_CHUNK_SIZE2 = SMALL_CHUNK_SIZE1"
  by (simp_all add: CHUNK_SIZE_def CHUNK_SIZE1_def CHUNK_SIZE2_def SMALL_CHUNK_SIZE1_def SMALL_CHUNK_SIZE2_def)

lemma CHUNK_SIZE_pos [simp]: "0 < CHUNK_SIZE" "CHUNK_SIZE \<noteq> 0"
  by (simp_all add: CHUNK_SIZE_def)

lemma hash_loop_eq:
  "hash_loop sha1 s (h, n) = (h @ concat (map (chunk_hash sha1) (pieces CHUNK_SIZE s)), n + length s)"
proof (induction s arbitrary: h n rule: length_induct)
  case (1 s)
  show ?case
  proof (cases "s = []")
    case True
    then show ?thesis by (simp add: hash_loop.simps [of _ "[]"] pieces.simps [of _ "[]"])
  next
    case False
    then have "hash_loop sha1 s (h, n) =
        hash_loop sha1 (drop CHUNK_SIZE s)
          (h @ chunk_hash sha1 (take CHUNK_SIZE s), n + length (take CHUNK_SIZE s))"
      by (simp add: hash_loop.simps [of _ s] Let_def)
    moreover have "pieces CHUNK_SIZE s = take CHUNK_SIZE s # pieces CHUNK_SIZE (drop CHUNK_SIZE s)"
      using False by (simp add: pieces.simps [of _ s])
    moreover have "length (drop CHUNK_SIZE s) < length s" using False by simp
    ultimately show ?thesis using "1.IH" [rule_format, of "drop CHUNK_SIZE s"] by simp
  qed
qed

lemma hash_loop2_eq:
  "hash_loop2 sha1 s h = h @ concat (map (chunk_hash sha1) (pieces CHUNK_SIZE s))"
proof (induction s arbitrary: h rule: length_induct)
  case (1 s)
  show ?case
  proof (cases "s = []")
    case True
    then show ?thesis by (simp add: hash_loop2.simps [of _ "[]"] pieces.simps [of _ "[]"])
  next
    case False
    then have "hash_loop2 sha1 s h = hash_loop2 sha1 (drop CHUNK_SIZE s) (h @ chunk_hash sha1 (take CHUNK_SIZE s))"
      by (simp add: hash_loop2.simps [of _ s] Let_def)
    moreover have "pieces CHUNK_SIZE s = take CHUNK_SIZE s # pieces CHUNK_SIZE (drop CHUNK_SIZE s)"
      using False by (simp add: pieces.simps [of _ s])
    moreover have "length (drop CHUNK_SIZE s) < length s" using False by simp
    ultimately show ?thesis using "1.IH" [rule_format, of "drop CHUNK_SIZE s"] by simp
  qed
qed

lemma pieces_nth: "0 < k \<Longrightarrow> i < length (pieces k s) \<Longrightarrow> pieces k s ! i = take k (drop (i * k) s)"
proof (induction i arbitrary: s)
  case 0
  then have "s \<noteq> []" by (auto simp: pieces.simps [of k "[]"])
  then show ?case using 0 by (simp add: pieces.simps [of k s])
next
  case (Suc i)
  then have s: "s \<noteq> []" by (auto simp: pieces.simps [of k "[]"])
  then have p: "pieces k s = take k s # pieces k (drop k s)" using Suc by (simp add: pieces.simps [of k s])
  then have "pieces k (drop k s) ! i = take k (drop (i * k) (drop k s))" using Suc by simp
  then show ?case using p by (simp add: add.commute)
qed

lemma length_chunk_hash: "length (sha1 d) = 20 \<Longrightarrow> length (chunk_hash sha1 d) = 20"
  by (simp add: chunk_hash_def)

lemma concat_blocks:
  assumes "\<forall>x\<in>set xs. length x = n" "i < length xs"
  shows "take n (drop (i * n) (concat xs)) = xs ! i"
  using assms
proof (induction xs arbitrary: i)
  case (Cons x xs)
  then show ?case by (cases i) auto
qed simp

lemma blocks_eq:
  assumes "\<forall>x\<in>set xs. length x = n" "length h = n * length xs"
    "\<And>i. i < length xs \<Longrightarrow> xs ! i = take n (drop (i * n) h)"
  shows "concat xs = h"
  using assms
proof (induction xs arbitrary: h)
  case (Cons x xs)
  have x: "x = take n h" using Cons.prems(3) [of 0] by simp
  have "concat xs = drop n h"
  proof (rule Cons.IH)
    show "\<forall>x\<in>set xs. length x = n" "length (drop n h) = n * length xs" using Cons.prems by auto
    show "xs ! i = take n (drop (i * n) (drop n h))" if "i < length xs" for i
      using Cons.prems(3) [of "Suc i"] that by (simp add: add.commute)
  qed
  then show ?case using x by simp
qed simp

lemma int_range_nat: "n < 2 ^ 31 \<Longrightarrow> int_range (int n) = Some (int n)"
  by (simp add: int_range_def)

lemma GetFileHashsmall_eq:
  assumes "i < 4096" "20 * i \<le> length h"
  shows "GetFileHashsmall sha1 (Some s) i h =
    Some (chunk_hash sha1 (chunk_at s i) = take 20 (drop (20 * i) h))"
proof -
  have "int_range (int i * int CHUNK_SIZE) = Some (int (i * CHUNK_SIZE))"
    "int_range (int i * 20) = Some (int (20 * i))"
    using assms(1) int_range_nat [of "i * CHUNK_SIZE"] int_range_nat [of "20 * i"]
    by (simp_all add: CHUNK_SIZE_def mult.commute)
  then show ?thesis
    using assms(2) by (simp add: GetFileHashsmall_def chunk_at_def del: of_nat_mult)
qed



section \<open>Transfer\<close>

lemma send_loop_bytes:
  "concat (send_loop rest n) = take (SMALL_CHUNK_SIZE1 * nat ((n + 1023) div 1024)) rest"
proof (induction rest arbitrary: n rule: length_induct)
  case (1 rest)
  show ?case
  proof (cases "rest = [] \<or> n \<le> 0")
    case True
    then have "send_loop rest n = [] \<and> (rest = [] \<or> nat ((n + 1023) div 1024) = 0)"
      by (auto simp: send_loop.simps [of rest] Let_def)
    then show ?thesis by auto
  next
    case False
    let ?d = "take SMALL_CHUNK_SIZE1 rest" and ?r = "drop SMALL_CHUNK_SIZE1 rest"
    have step: "concat (send_loop rest n) = ?d @ concat (send_loop ?r (n - int (length ?d)))"
      using False by (simp add: send_loop.simps [of rest] Let_def SMALL_CHUNK_SIZE1_def)
    have "length ?r < length rest" using False by (simp add: SMALL_CHUNK_SIZE1_def)
    then have IH: "concat (send_loop ?r m) = take (SMALL_CHUNK_SIZE1 * nat ((m + 1023) div 1024)) ?r" for m
      using "1.IH" by blast
    show ?thesis
    proof (cases "length rest \<le> SMALL_CHUNK_SIZE1")
      case True
      then have "concat (send_loop rest n) = rest" using step IH by (simp del: concat_eq_Nil_conv)
      moreover have "1 \<le> nat ((n + 1023) div 1024)" using False by linarith
      then have "SMALL_CHUNK_SIZE1 * 1 \<le> SMALL_CHUNK_SIZE1 * nat ((n + 1023) div 1024)"
        by (rule mult_le_mono2)
      then have "length rest \<le> SMALL_CHUNK_SIZE1 * nat ((n + 1023) div 1024)"
        using True by linarith
      ultimately show ?thesis by simp
    next
      case long: False
      then have "int (length ?d) = 1024" by (simp add: SMALL_CHUNK_SIZE1_def)
      moreover have "nat ((n + 1023) div 1024) = Suc (nat ((n - 1024 + 1023) div 1024))"
        using False by linarith
      ultimately show ?thesis
        using step IH [of "n - 1024"] take_add [of SMALL_CHUNK_SIZE1 _ rest] by simp
    qed
  qed
qed

text \<open>The sender goes one block past the chunk, or to the end of the file.\<close>

lemma chunk_blocks_bytes:
  "concat (chunk_blocks s pos) = take (CHUNK_SIZE + SMALL_CHUNK_SIZE1) (drop pos s)"
  by (simp add: chunk_blocks_def send_loop_bytes CHUNK_SIZE_def SMALL_CHUNK_SIZE1_def)

context ssl_stream
begin

lemma recv_loop_bytes:
  "\<exists>k. recv_loop rd c (int m) = take k (bytes c) \<and> k \<le> length (bytes c) \<and>
     min m (length (bytes c)) \<le> k \<and> k < m + SMALL_CHUNK_SIZE1"
proof (induction m arbitrary: c rule: less_induct)
  case (less m)
  obtain d c' where r: "rd c SMALL_CHUNK_SIZE1 = (d, c')" by fastforce
  show ?case
  proof (cases "m = 0 \<or> bytes c = []")
    case True
    then have "recv_loop rd c (int m) = []"
      using r rd_end [of c SMALL_CHUNK_SIZE1 d c'] by (auto simp: recv_loop.simps [of rd c])
    then show ?thesis using True by (intro exI [of _ 0]) (auto simp: SMALL_CHUNK_SIZE1_def)
  next
    case False
    then have d: "d \<noteq> []" "length d \<le> SMALL_CHUNK_SIZE1" "bytes c = d @ bytes c'"
      using rd_some [of SMALL_CHUNK_SIZE1 c d c'] r by (auto simp: SMALL_CHUNK_SIZE1_def)
    then have step: "recv_loop rd c (int m) = d @ recv_loop rd c' (int m - int (length d))"
      using r False by (simp add: recv_loop.simps [of rd c])
    show ?thesis
    proof (cases "m \<le> length d")
      case True
      then have "recv_loop rd c' (int m - int (length d)) = []"
        by (auto simp: recv_loop.simps [of rd c'] split: prod.splits)
      then show ?thesis
        using step d True False by (intro exI [of _ "length d"]) (auto simp: SMALL_CHUNK_SIZE1_def)
    next
      case short: False
      have "m - length d < m" using d False by simp
      then obtain k where k: "recv_loop rd c' (int (m - length d)) = take k (bytes c')"
        "k \<le> length (bytes c')" "min (m - length d) (length (bytes c')) \<le> k"
        "k < m - length d + SMALL_CHUNK_SIZE1"
        using less.IH [of "m - length d" c'] by blast
      then show ?thesis
        using step d short by (intro exI [of _ "length d + k"]) (auto simp: of_nat_diff)
    qed
  qed
qed

end

lemma write_at_nth:
  assumes "pos + length d \<le> length f"
  shows "length (write_at f pos d) = length f"
    "p < length f \<Longrightarrow> write_at f pos d ! p = (if pos \<le> p \<and> p < pos + length d then d ! (p - pos) else f ! p)"
  using assms by (auto simp: write_at_def nth_append)

text \<open>
  What one chunk transfer does to the receiver's file when the sender has the file \<open>s\<close>: the chunk
  arrives, the bytes that go past it are those of \<open>s\<close>, and nothing that was right becomes wrong.
\<close>

lemma transfer_chunk:
  assumes st: "ssl_stream rd bytes" and c: "bytes c = concat (chunk_blocks s (i * CHUNK_SIZE))"
    and f: "length f = length s"
  defines "f' \<equiv> write_at f (i * CHUNK_SIZE) (recv_loop rd c (int CHUNK_SIZE))"
  shows "length f' = length s"
    "\<And>p. p < length s \<Longrightarrow> f ! p = s ! p \<or> i * CHUNK_SIZE \<le> p \<and> p < i * CHUNK_SIZE + CHUNK_SIZE \<Longrightarrow>
       f' ! p = s ! p"
proof -
  let ?pos = "i * CHUNK_SIZE"
  let ?b = "take (CHUNK_SIZE + SMALL_CHUNK_SIZE1) (drop ?pos s)"
  obtain k where k: "recv_loop rd c (int CHUNK_SIZE) = take k ?b" "k \<le> length ?b"
    "min CHUNK_SIZE (length ?b) \<le> k" "k < CHUNK_SIZE + SMALL_CHUNK_SIZE1"
    using ssl_stream.recv_loop_bytes [OF st, of c CHUNK_SIZE] c chunk_blocks_bytes by metis
  then have d: "recv_loop rd c (int CHUNK_SIZE) = take k (drop ?pos s)" "k \<le> length s - ?pos"
    by (simp_all add: min_def split: if_splits)
  have cover: "p < ?pos + k" if "p < length s" "?pos \<le> p" "p < ?pos + CHUNK_SIZE" for p
    using k(3) that by (auto simp: min_def split: if_splits)
  have "?pos + length (take k (drop ?pos s)) \<le> length f \<or> take k (drop ?pos s) = []"
    using d(2) f by (cases "?pos \<le> length s") auto
  then show "length f' = length s"
    unfolding f'_def d(1) using write_at_nth(1) [of ?pos "take k (drop ?pos s)" f] f
    by (auto simp: write_at_def [of f _ "[]"])
  fix p assume p: "p < length s" "f ! p = s ! p \<or> ?pos \<le> p \<and> p < ?pos + CHUNK_SIZE"
  show "f' ! p = s ! p"
  proof (cases "?pos \<le> p \<and> p < ?pos + k")
    case True
    then have "?pos + length (take k (drop ?pos s)) \<le> length f" "length (take k (drop ?pos s)) = k"
      using d(2) f p by auto
    moreover have "p - ?pos < k" using True by linarith
    then have "take k (drop ?pos s) ! (p - ?pos) = s ! p" using True p(1) by simp
    ultimately show ?thesis
      unfolding f'_def d(1) using write_at_nth(2) [of ?pos "take k (drop ?pos s)" f p] f p(1) True by simp
  next
    case False
    then have "f ! p = s ! p" using p cover by blast
    moreover have "f' ! p = f ! p"
    proof (cases "take k (drop ?pos s) = []")
      case True
      then show ?thesis unfolding f'_def d(1) by (simp add: write_at_def)
    next
      case ne: False
      then have "?pos + length (take k (drop ?pos s)) \<le> length f" using d(2) f by auto
      then show ?thesis
        unfolding f'_def d(1) using write_at_nth(2) [of ?pos "take k (drop ?pos s)" f p] f p False d(2) by auto
    qed
    ultimately show ?thesis by simp
  qed
qed

end
