(* ===== verification/Peer_Schedule.thy ===== *)
theory Peer_Schedule
  imports Peer_Chunks Files "HOL-Library.Signed_Division"
begin

text \<open>
  Which seeder a chunk is requested from: \<open>GetChunkInfo\<close> of peer/peerserver.cpp (what a seeder says
  it has) and \<open>my_comp\<close>, \<open>populate\<close>, \<open>Decide\<close>, \<open>CalcChunk\<close> and the assignment loop of \<open>GetChunks\<close>
  of peer/peerdownload.cpp. The comparison \<open>my_comp\<close> is \<open><=\<close>, not a strict order, so the C++ standard says
  nothing about \<open>std::sort\<close> with it. The Dockerfile builds with g++, so \<open>std_sort\<close> is what the GNU
  library does: up to 16 elements it is an insertion sort, which stays inside the array for \<open><=\<close>
  too (locale \<open>reflexive_comparison\<close>); beyond 16 elements its partition has no bound but the
  comparison and may leave the array, and \<open>std_sort\<close> is \<open>None\<close>, undefined.
\<close>


section \<open>Definitions\<close>

subsection \<open>What a seeder answers\<close>

definition GetChunkInfo :: "(string \<rightharpoonup> nat list) \<Rightarrow> string \<Rightarrow> string" where
  "GetChunkInfo filechunks_map filename =
     (case filechunks_map filename of
        None \<Rightarrow> ''-1''
      | Some itr \<Rightarrow>
          if itr = [] then ''-2''
          else let data = concat (map (\<lambda>i. to_string (int i) @ [sp]) itr) in take (length data - 1) data)"

subsection \<open>The table of seeders\<close>

definition my_comp :: "int \<times> int list \<Rightarrow> int \<times> int list \<Rightarrow> bool" where
  "my_comp a b \<longleftrightarrow> length (snd a) \<le> length (snd b)"

text \<open>
  \<open>std::sort\<close> of the GNU library on at most 16 elements, \<open>__insertion_sort\<close>: an element that
  compares before the first one is moved to the front, any other one is moved left by
  \<open>__unguarded_linear_insert\<close>, which compares with the element before until the comparison fails and
  has no other bound. The elements already sorted are kept last first there; running past the
  first one is \<open>None\<close>.
\<close>

fun linear_insert :: "('a \<Rightarrow> 'a \<Rightarrow> bool) \<Rightarrow> 'a \<Rightarrow> 'a list \<Rightarrow> 'a list option" where
  "linear_insert cmp val [] = None"
| "linear_insert cmp val (next' # before) =
     (if cmp val next' then map_option ((#) next') (linear_insert cmp val before)
      else Some (val # next' # before))"

fun insertion_sort :: "('a \<Rightarrow> 'a \<Rightarrow> bool) \<Rightarrow> 'a list \<Rightarrow> 'a list \<Rightarrow> 'a list option" where
  "insertion_sort cmp sorted_part [] = Some sorted_part"
| "insertion_sort cmp sorted_part (val # rest) =
     (if cmp val (hd sorted_part) then insertion_sort cmp (val # sorted_part) rest
      else do {
        moved \<leftarrow> linear_insert cmp val (rev sorted_part);
        insertion_sort cmp (rev moved) rest
      })"

definition std_sort :: "('a \<Rightarrow> 'a \<Rightarrow> bool) \<Rightarrow> 'a list \<Rightarrow> 'a list option" where
  "std_sort cmp v =
     (case v of
        [] \<Rightarrow> Some []
      | first # rest \<Rightarrow> if length v \<le> 16 then insertion_sort cmp [first] rest else None)"

text \<open>\<open>v[i]=x\<close>\<close>

definition vec_set :: "'a list \<Rightarrow> int \<Rightarrow> 'a \<Rightarrow> 'a list option" where
  "vec_set v i x = (if 0 \<le> i \<and> nat i < length v then Some (v[nat i := x]) else None)"

fun mark_all :: "int list \<Rightarrow> int list \<Rightarrow> int list option" where
  "mark_all row [] = Some row"
| "mark_all row (j # js) = do { row \<leftarrow> vec_set row j 1; mark_all row js }"

fun populate :: "int list list \<Rightarrow> nat \<Rightarrow> (int \<times> int list) list \<Rightarrow> int list list option" where
  "populate matrix count' [] = Some matrix"
| "populate matrix count' ((i, js) # v) =
     do {
       row \<leftarrow> vec_at matrix count';
       row \<leftarrow> vec_set row 0 i;
       row \<leftarrow> mark_all row js;
       populate (matrix[count' := row]) (Suc count') v
     }"

definition decide_cell :: "int list list \<Rightarrow> nat \<Rightarrow> nat \<Rightarrow> int list \<Rightarrow> int list" where
  "decide_cell matrix j i chunks =
     (if matrix ! i ! j \<noteq> - 1 \<and> chunks ! (j - 1) = - 1 then chunks[j - 1 := matrix ! i ! 0] else chunks)"

text \<open>All rows have one length; \<open>matrix[0]\<close> of an empty table is undefined.\<close>

definition Decide :: "int list list \<Rightarrow> int list \<Rightarrow> int list option" where
  "Decide matrix chunks =
     do {
       first \<leftarrow> vec_at matrix 0;
       Some (fold (\<lambda>j. fold (decide_cell matrix j) [0..<length matrix]) [1..<length first] chunks)
     }"

text \<open>One seeder's answer: whether it is incomplete, and its chunks counted from 1.\<close>

definition chunk_list :: "nat \<Rightarrow> string \<Rightarrow> (bool \<times> int list) option" where
  "chunk_list nchunks output_string =
     (if output_string = ''-1'' then Some (False, map (\<lambda>i. int i + 1) [0..<nchunks])
      else if output_string = ''-2'' then Some (True, [])
      else do {
        temp \<leftarrow> map_opt (\<lambda>x. do { v \<leftarrow> atoi x; int_range (v + 1) }) (split2 output_string sp);
        Some (True, temp)
      })"

text \<open>The answers are those \<open>RecvAll\<close> collected; \<open>None\<close> where the connection failed, which exits.\<close>

definition CalcChunk :: "nat \<Rightarrow> string option list \<Rightarrow> (bool \<times> int list) option" where
  "CalcChunk nchunks answers =
     do {
       offers \<leftarrow> map_opt (\<lambda>answer. do { s \<leftarrow> answer; chunk_list nchunks s }) answers;
       v \<leftarrow> std_sort my_comp (zip (map int [0..<length offers]) (map snd offers));
       matrix \<leftarrow> populate (replicate (length offers) (replicate (nchunks + 1) (- 1))) 0 v;
       seeders_chunk \<leftarrow> Decide matrix (replicate nchunks (- 1));
       Some (list_ex fst offers, seeders_chunk)
     }"

subsection \<open>The plan of a download\<close>

text \<open>\<open>nchunks1/CHUNK_SIZE1\<close>, plus one when the division leaves a rest.\<close>

definition nchunks_of :: "string \<Rightarrow> int option" where
  "nchunks_of size_text =
     do {
       nchunks1 \<leftarrow> atoi size_text;
       Some (nchunks1 sdiv int CHUNK_SIZE1 + (if nchunks1 smod int CHUNK_SIZE1 \<noteq> 0 then 1 else 0))
     }"

text \<open>The loop over the chunks with its counter; \<open>ncounter%nseeder\<close> with no seeder is undefined.\<close>

fun plan_loop :: "bool \<times> int list \<Rightarrow> int \<Rightarrow> nat list \<Rightarrow> int \<Rightarrow> int list option" where
  "plan_loop decide nseeder [] ncounter = Some []"
| "plan_loop decide nseeder (i # is) ncounter =
     (if \<not> fst decide then
        if nseeder = 0 then None
        else map_option ((#) ncounter) (plan_loop decide nseeder is ((ncounter + 1) mod nseeder))
      else do {
        x \<leftarrow> vec_at (snd decide) i;
        map_option ((#) x) (plan_loop decide nseeder is ncounter)
      })"


section \<open>The table\<close>

lemma mark_all_total:
  assumes "\<forall>j\<in>set js. 0 \<le> j \<and> j < int (length row)"
  shows "\<exists>r. mark_all row js = Some r \<and> length r = length row \<and>
    (\<forall>k<length row. r ! k = (if int k \<in> set js then 1 else row ! k))"
  using assms
proof (induction js arbitrary: row)
  case (Cons j js)
  then have j: "0 \<le> j" "nat j < length row" by auto
  obtain r where r: "mark_all (row[nat j := 1]) js = Some r" "length r = length row"
    "\<forall>k<length row. r ! k = (if int k \<in> set js then 1 else row[nat j := 1] ! k)"
    using Cons.IH [of "row[nat j := 1]"] Cons.prems by auto
  have "mark_all row (j # js) = Some r" using j r(1) by (simp add: vec_set_def)
  moreover have "\<forall>k<length row. r ! k = (if int k \<in> set (j # js) then 1 else row ! k)"
    using r(3) j by (auto simp: nth_list_update)
  ultimately show ?case using r(2) by blast
qed simp

definition row_ok :: "nat \<Rightarrow> int \<times> int list \<Rightarrow> int list \<Rightarrow> bool" where
  "row_ok nchunks p row \<longleftrightarrow>
     length row = nchunks + 1 \<and> row ! 0 = fst p \<and>
     (\<forall>k. 1 \<le> k \<and> k \<le> nchunks \<longrightarrow> row ! k = (if int k \<in> set (snd p) then 1 else - 1))"

lemma populate_total:
  assumes "\<forall>p\<in>set v. \<forall>j\<in>set (snd p). 1 \<le> j \<and> j \<le> int nchunks"
    and "length matrix = count' + length v"
    and "\<forall>i. count' \<le> i \<and> i < length matrix \<longrightarrow> matrix ! i = replicate (nchunks + 1) (- 1)"
  shows "\<exists>m. populate matrix count' v = Some m \<and> length m = length matrix \<and>
    (\<forall>i<count'. m ! i = matrix ! i) \<and> (\<forall>i<length v. row_ok nchunks (v ! i) (m ! (count' + i)))"
  using assms
proof (induction v arbitrary: matrix count')
  case (Cons p v)
  obtain i js where p: "p = (i, js)" by fastforce
  let ?row = "(replicate (nchunks + 1) (- 1))[0 := i]"
  have row: "vec_at matrix count' = Some (replicate (nchunks + 1) (- 1))"
    using Cons.prems(2,3) by simp
  obtain r where r: "mark_all ?row js = Some r" "length r = nchunks + 1"
    "\<forall>k<nchunks + 1. r ! k = (if int k \<in> set js then 1 else ?row ! k)"
    using mark_all_total [of js ?row] Cons.prems(1) p by fastforce
  have ok: "row_ok nchunks p r"
  proof -
    have "0 \<notin> set js" using Cons.prems(1) p by fastforce
    then have "r ! 0 = i" using r(3) [rule_format, of 0] by simp
    moreover have "r ! k = (if int k \<in> set js then 1 else - 1)" if "1 \<le> k" "k \<le> nchunks" for k
      using r(3) [rule_format, of k] that by (cases k) auto
    ultimately show ?thesis using r(2) p by (simp add: row_ok_def)
  qed
  obtain m where m: "populate (matrix[count' := r]) (Suc count') v = Some m" "length m = length matrix"
    "\<forall>i<Suc count'. m ! i = matrix[count' := r] ! i"
    "\<forall>i<length v. row_ok nchunks (v ! i) (m ! (Suc count' + i))"
    using Cons.IH [of "matrix[count' := r]" "Suc count'"] Cons.prems by auto
  have "populate matrix count' (p # v) = Some m"
    using p row r(1) m(1) by (simp add: vec_set_def)
  moreover have "row_ok nchunks ((p # v) ! k) (m ! (count' + k))" if "k < length (p # v)" for k
    using that m(3,4) ok Cons.prems(2) by (cases k) auto
  ultimately show ?case using m(2,3) by auto
qed simp



section \<open>The decision\<close>

lemma decide_column:
  assumes "j - 1 < length chunks"
  shows "fold (decide_cell matrix j) is chunks =
    (if chunks ! (j - 1) = - 1 then
       (case find (\<lambda>i. matrix ! i ! j \<noteq> - 1 \<and> matrix ! i ! 0 \<noteq> - 1) is of
          None \<Rightarrow> chunks | Some i \<Rightarrow> chunks[j - 1 := matrix ! i ! 0])
     else chunks)"
  using assms
proof (induction "is" arbitrary: chunks)
  case (Cons i "is")
  have skip: "chunks[j - 1 := matrix ! i ! 0] = chunks"
    if "chunks ! (j - 1) = - 1" "matrix ! i ! 0 = - 1"
    using that by (metis list_update_id)
  show ?case
  proof (cases "matrix ! i ! j \<noteq> - 1 \<and> chunks ! (j - 1) = - 1")
    case True
    then have "decide_cell matrix j i chunks = chunks[j - 1 := matrix ! i ! 0]" by (simp add: decide_cell_def)
    then show ?thesis
      using True Cons skip by (cases "matrix ! i ! 0 = - 1") (simp_all del: One_nat_def)
  next
    case False
    then have "decide_cell matrix j i chunks = chunks" by (auto simp: decide_cell_def)
    then show ?thesis using False Cons by (simp del: One_nat_def) blast
  qed
qed simp

lemma length_decide [simp]: "length (fold (decide_cell matrix j) is chunks) = length chunks"
  by (induction "is" arbitrary: chunks) (auto simp: decide_cell_def)

lemma decide_other: "x \<noteq> j - 1 \<Longrightarrow> fold (decide_cell matrix j) is chunks ! x = chunks ! x"
  by (induction "is" arbitrary: chunks) (auto simp: decide_cell_def)

lemma decide_same:
  assumes "x < length a" "length b = length a" "a ! x = b ! x"
  shows "fold (decide_cell matrix (x + 1)) is a ! x = fold (decide_cell matrix (x + 1)) is b ! x"
  using assms by (simp add: decide_column split: option.splits)

lemma decide_columns:
  assumes "m \<le> length chunks + 1" "x + 1 < m"
  shows "fold (\<lambda>j. fold (decide_cell matrix j) is) [1..<m] chunks ! x =
    fold (decide_cell matrix (x + 1)) is chunks ! x"
  using assms
proof (induction m)
  case (Suc m)
  let ?pre = "fold (\<lambda>j. fold (decide_cell matrix j) is) [1..<m] chunks"
  have len: "length (fold (\<lambda>j. fold (decide_cell matrix j) is) js chunks) = length chunks" for js chunks
    by (induction js arbitrary: chunks) auto
  have keep: "fold (\<lambda>j. fold (decide_cell matrix j) is) js chunks ! x = chunks ! x"
    if "\<forall>j\<in>set js. x \<noteq> j - 1" for js chunks
    using that by (induction js arbitrary: chunks) (auto simp: decide_other)
  show ?case
  proof (cases "x + 1 < m")
    case True
    then have "x \<noteq> m - 1" by simp
    then show ?thesis using Suc True by (simp add: decide_other)
  next
    case False
    then have m: "m = x + 1" using Suc.prems by simp
    have "x \<noteq> j - 1" if "j \<in> set [1..<m]" for j
    proof -
      have "1 \<le> j \<and> j < m" using that by (simp only: set_upt atLeastLessThan_iff)
      then show ?thesis using m by linarith
    qed
    then have "?pre ! x = chunks ! x" using keep by blast
    then have "fold (decide_cell matrix (x + 1)) is ?pre ! x = fold (decide_cell matrix (x + 1)) is chunks ! x"
      using m len Suc.prems by (intro decide_same) simp_all
    moreover have "[1..<Suc m] = [1..<m] @ [x + 1]" using m by simp
    ultimately show ?thesis by simp
  qed
qed simp

lemma find_first:
  "find P (xs :: nat list) = Some i \<Longrightarrow> xs = [0..<n] \<Longrightarrow> i < n \<and> P i \<and> (\<forall>k<i. \<not> P k)"
proof -
  assume f: "find P xs = Some i" and xs: "xs = [0..<n]"
  obtain k where k: "k < length xs" "P (xs ! k)" "i = xs ! k" "\<forall>j<k. \<not> P (xs ! j)"
    using f by (auto simp: find_Some_iff)
  then show "i < n \<and> P i \<and> (\<forall>k<i. \<not> P k)" using xs by auto
qed

text \<open>
  For a filled table, the entry of a chunk is the seeder of the first row that has it.
\<close>

lemma Decide_first:
  assumes rows: "length m = length v" "\<forall>i<length v. row_ok nchunks (v ! i) (m ! i)"
    and v: "v \<noteq> []" "\<forall>p\<in>set v. 0 \<le> fst p" and x: "x < nchunks"
  shows "\<exists>chunks. Decide m (replicate nchunks (- 1)) = Some chunks \<and>
    chunks ! x = (case find (\<lambda>p. int x + 1 \<in> set (snd p)) v of None \<Rightarrow> - 1 | Some p \<Rightarrow> fst p)"
proof -
  let ?P = "\<lambda>i. m ! i ! (x + 1) \<noteq> - 1 \<and> m ! i ! 0 \<noteq> - 1"
  let ?c = "replicate nchunks (- 1) :: int list"
  have first: "vec_at m 0 = Some (m ! 0)" "length (m ! 0) = nchunks + 1"
    using rows v(1) by (auto simp: row_ok_def)
  have hit: "?P i \<longleftrightarrow> int x + 1 \<in> set (snd (v ! i))" if "i < length v" for i
  proof -
    have r: "row_ok nchunks (v ! i) (m ! i)" using rows that by simp
    then have "m ! i ! (x + 1) = (if int (x + 1) \<in> set (snd (v ! i)) then 1 else - 1)"
      using x unfolding row_ok_def by (metis One_nat_def Suc_eq_plus1 Suc_leI le_add2 less_eq_Suc_le)
    moreover have "m ! i ! 0 \<noteq> - 1"
      using r v(2) nth_mem [OF that] by (force simp: row_ok_def)
    ultimately show ?thesis by (simp add: add.commute)
  qed
  let ?r = "fold (\<lambda>j. fold (decide_cell m j) [0..<length m]) [1..<length (m ! 0)] ?c"
  have dec: "Decide m ?c = Some ?r" using first by (simp add: Decide_def)
  have "?r ! x = fold (decide_cell m (x + 1)) [0..<length m] ?c ! x"
    using first(2) x by (intro decide_columns) simp_all
  also have "\<dots> = (case find ?P [0..<length m] of None \<Rightarrow> - 1 | Some i \<Rightarrow> m ! i ! 0)"
    using x by (simp add: decide_column split: option.splits)
  also have "\<dots> = (case find (\<lambda>p. int x + 1 \<in> set (snd p)) v of None \<Rightarrow> - 1 | Some p \<Rightarrow> fst p)"
  proof (cases "find ?P [0..<length m]")
    case None
    then have "\<forall>i<length v. int x + 1 \<notin> set (snd (v ! i))"
      using hit rows(1) by (auto simp: find_None_iff)
    then have "find (\<lambda>p. int x + 1 \<in> set (snd p)) v = None"
      by (auto simp: find_None_iff in_set_conv_nth)
    then show ?thesis using None by simp
  next
    case (Some i)
    have i: "i < length v" "?P i" "\<forall>k<i. \<not> ?P k" using find_first [OF Some refl] rows(1) by auto
    have "\<forall>k<i. int x + 1 \<notin> set (snd (v ! k))" using i(1,3) hit by (meson order.strict_trans)
    then have "find (\<lambda>p. int x + 1 \<in> set (snd p)) v = Some (v ! i)"
      using i(1,2) hit [of i] by (auto simp: find_Some_iff intro!: exI [of _ i])
    moreover have "m ! i ! 0 = fst (v ! i)" using rows i by (simp add: row_ok_def)
    ultimately show ?thesis using Some by simp
  qed
  finally show ?thesis using dec by blast
qed


lemma length_Decide: "Decide m c = Some c' \<Longrightarrow> length c' = length c"
proof -
  have "length (fold (\<lambda>j. fold (decide_cell m j) is) js c) = length c" for js "is"
    by (induction js arbitrary: c) auto
  then show "Decide m c = Some c' \<Longrightarrow> length c' = length c"
    by (auto simp: Decide_def bind_Some_conv)
qed


section \<open>Sorting, and the rarest holder\<close>

locale reflexive_comparison =
  fixes cmp :: "'a \<Rightarrow> 'a \<Rightarrow> bool"
  assumes cmp_total: "cmp a b \<or> cmp b a"
    and cmp_trans: "cmp a b \<Longrightarrow> cmp b c \<Longrightarrow> cmp a c"
begin

text \<open>
  The elements sorted so far are \<open>rev before\<close>; the one the walk stops at, its first element at the
  latest, bounds it.
\<close>

lemma linear_insert_sorts:
  assumes "sorted_wrt cmp (rev before)" "before \<noteq> []" "\<not> cmp val (last before)"
  shows "\<exists>w. linear_insert cmp val before = Some w \<and> mset w = add_mset val (mset before) \<and>
    sorted_wrt cmp (rev w)"
  using assms
proof (induction before)
  case (Cons y before)
  show ?case
  proof (cases "cmp val y")
    case False
    then have "cmp y val" using cmp_total by blast
    then have "cmp x val" if "x \<in> set before" for x
      using Cons.prems(1) that cmp_trans by (auto simp: sorted_wrt_append)
    then show ?thesis using False \<open>cmp y val\<close> Cons.prems(1) by (auto simp: sorted_wrt_append)
  next
    case True
    then have ne: "before \<noteq> []" using Cons.prems(3) by auto
    obtain w where w: "linear_insert cmp val before = Some w" "mset w = add_mset val (mset before)"
      "sorted_wrt cmp (rev w)"
      using Cons ne by (auto simp: sorted_wrt_append)
    have "set w = insert val (set before)" using w(2) by (metis set_mset_add_mset_insert set_mset_mset)
    then show ?thesis using w True Cons.prems(1) by (auto simp: sorted_wrt_append)
  qed
qed simp

lemma insertion_sort_sorts:
  assumes "sorted_wrt cmp w" "w \<noteq> []"
  shows "\<exists>w'. insertion_sort cmp w rest = Some w' \<and> mset w' = mset w + mset rest \<and> sorted_wrt cmp w'"
  using assms
proof (induction rest arbitrary: w)
  case (Cons val rest)
  show ?case
  proof (cases "cmp val (hd w)")
    case True
    have "cmp val x" if "x \<in> set w" for x
    proof (cases "x = hd w")
      case False
      then have "cmp (hd w) x" using that Cons.prems by (cases w) simp_all
      then show ?thesis using cmp_trans [OF True] by blast
    qed (simp add: True)
    then show ?thesis using Cons.IH [of "val # w"] True Cons.prems by auto
  next
    case False
    then obtain m where m: "linear_insert cmp val (rev w) = Some m" "mset m = add_mset val (mset w)"
      "sorted_wrt cmp (rev m)"
      using linear_insert_sorts [of "rev w" val] Cons.prems by (auto simp: last_rev)
    then have "rev m \<noteq> []" by auto
    then show ?thesis using Cons.IH [of "rev m"] m False by auto
  qed
qed simp

text \<open>Up to 16 elements the library sorts, although the comparison is not a strict one.\<close>

lemma std_sort_sorts:
  assumes "length v \<le> 16"
  shows "\<exists>w. std_sort cmp v = Some w \<and> mset w = mset v \<and> sorted_wrt cmp w"
proof (cases v)
  case (Cons x xs)
  then show ?thesis using assms insertion_sort_sorts [of "[x]" xs] by (auto simp: std_sort_def)
qed (simp add: std_sort_def)

end

interpretation by_size: reflexive_comparison my_comp
  by unfold_locales (auto simp: my_comp_def)

text \<open>In a table sorted by size, the first holder of a chunk is one with the fewest chunks.\<close>

lemma find_rarest:
  assumes "sorted_wrt my_comp w" "set w = set v" "find (\<lambda>p. y \<in> set (snd p)) w = Some p"
  shows "p \<in> set v" "y \<in> set (snd p)"
    "q \<in> set v \<Longrightarrow> y \<in> set (snd q) \<Longrightarrow> length (snd p) \<le> length (snd q)"
proof -
  obtain i where i: "i < length w" "y \<in> set (snd (w ! i))" "p = w ! i" "\<forall>k<i. y \<notin> set (snd (w ! k))"
    using assms(3) by (auto simp: find_Some_iff)
  then show "p \<in> set v" "y \<in> set (snd p)" using nth_mem [of i w] assms(2) by simp_all
  assume "q \<in> set v" "y \<in> set (snd q)"
  then obtain k where k: "k < length w" "q = w ! k" using assms(2) by (metis in_set_conv_nth)
  then have "i \<le> k" using i(4) \<open>y \<in> set (snd q)\<close> by (meson not_le)
  then show "length (snd p) \<le> length (snd q)"
    using k i assms(1) by (cases "i = k") (auto simp: sorted_wrt_iff_nth_less my_comp_def)
qed

lemma CalcChunk_total:
  assumes offers: "map_opt (\<lambda>answer. do { s \<leftarrow> answer; chunk_list nchunks s }) answers = Some offers"
    and ne: "offers \<noteq> []" "length offers \<le> 16"
    and rng: "\<forall>l\<in>set offers. \<forall>j\<in>set (snd l). 1 \<le> j \<and> j \<le> int nchunks"
  shows "\<exists>chunks. CalcChunk nchunks answers = Some (list_ex fst offers, chunks) \<and>
    length chunks = nchunks \<and>
    (\<forall>x<nchunks.
      (if \<exists>i<length offers. int x + 1 \<in> set (snd (offers ! i))
       then \<exists>i<length offers. chunks ! x = int i \<and> int x + 1 \<in> set (snd (offers ! i)) \<and>
         (\<forall>k<length offers. int x + 1 \<in> set (snd (offers ! k)) \<longrightarrow>
            length (snd (offers ! i)) \<le> length (snd (offers ! k)))
       else chunks ! x = - 1))"
proof -
  let ?z = "zip (map int [0..<length offers]) (map snd offers)"
  have "length ?z \<le> 16" using ne(2) by simp
  from by_size.std_sort_sorts [OF this] obtain v where srt: "std_sort my_comp ?z = Some v" "mset v = mset ?z"
    "sorted_wrt my_comp v" by blast
  have sv: "set v = set ?z" "length v = length offers"
    using mset_eq_setD [OF srt(2)] mset_eq_length [OF srt(2)] by simp_all
  have "?z = map (\<lambda>i. (int i, snd (offers ! i))) [0..<length offers]"
    by (rule nth_equalityI) simp_all
  then have zi: "p \<in> set ?z \<longleftrightarrow> (\<exists>i<length offers. p = (int i, snd (offers ! i)))" for p
    by auto
  have rv: "\<forall>p\<in>set v. \<forall>j\<in>set (snd p). 1 \<le> j \<and> j \<le> int nchunks"
  proof
    fix p assume "p \<in> set v"
    then obtain i where "i < length offers" "p = (int i, snd (offers ! i))" using zi sv(1) by auto
    then show "\<forall>j\<in>set (snd p). 1 \<le> j \<and> j \<le> int nchunks" using rng nth_mem [of i offers] by auto
  qed
  obtain m where m: "populate (replicate (length offers) (replicate (nchunks + 1) (- 1))) 0 v = Some m"
    "length m = length v" "\<forall>i<length v. row_ok nchunks (v ! i) (m ! i)"
    using populate_total [OF rv, of "replicate (length offers) (replicate (nchunks + 1) (- 1))" 0] sv(2) by auto
  have v: "v \<noteq> []" "\<forall>p\<in>set v. 0 \<le> fst p" using sv zi ne(1) by auto
  obtain c where c: "Decide m (replicate nchunks (- 1)) = Some c"
    using m(2) v(1) by (auto simp: Decide_def vec_at_def)
  have cx: "c ! x = (case find (\<lambda>p. int x + 1 \<in> set (snd p)) v of None \<Rightarrow> - 1 | Some p \<Rightarrow> fst p)"
    if "x < nchunks" for x
    using Decide_first [OF m(2,3) v that] c by auto
  have "CalcChunk nchunks answers = Some (list_ex fst offers, c)"
    using offers srt(1) m(1) c by (simp add: CalcChunk_def)
  moreover have "if \<exists>i<length offers. int x + 1 \<in> set (snd (offers ! i))
       then \<exists>i<length offers. c ! x = int i \<and> int x + 1 \<in> set (snd (offers ! i)) \<and>
         (\<forall>k<length offers. int x + 1 \<in> set (snd (offers ! k)) \<longrightarrow>
            length (snd (offers ! i)) \<le> length (snd (offers ! k)))
       else c ! x = - 1" if x: "x < nchunks" for x
  proof (cases "find (\<lambda>p. int x + 1 \<in> set (snd p)) v")
    case None
    then have "\<forall>p\<in>set ?z. int x + 1 \<notin> set (snd p)" using sv(1) by (auto simp: find_None_iff)
    moreover have "(int i, snd (offers ! i)) \<in> set ?z" if "i < length offers" for i
      using zi that by blast
    ultimately have "\<forall>i<length offers. int x + 1 \<notin> set (snd (offers ! i))" by fastforce
    then show ?thesis using cx [OF x] None by simp
  next
    case (Some p)
    note r = find_rarest [OF srt(3) sv(1) Some]
    obtain i where i: "i < length offers" "p = (int i, snd (offers ! i))" using r(1) zi by auto
    have "length (snd (offers ! i)) \<le> length (snd (offers ! k))"
      if "k < length offers" "int x + 1 \<in> set (snd (offers ! k))" for k
      using r(3) [of "(int k, snd (offers ! k))"] that i zi by auto
    then show ?thesis using cx [OF x] Some i r(2) by auto
  qed
  moreover have "length c = nchunks" using length_Decide [OF c] by simp
  ultimately show ?thesis by blast
qed


section \<open>Answers\<close>

lemma concat_trail:
  "xs \<noteq> [] \<Longrightarrow> concat (map (\<lambda>x. f x @ [sp]) xs) = join sp (map f xs) @ [sp]"
proof (induction xs)
  case (Cons x xs)
  then show ?case by (cases xs) auto
qed simp

lemma to_string_nat [simp]: "to_string (int k) = nat_to_string k"
  by (simp add: to_string_def)

lemma nat_to_string_first: "nat_to_string k = c # cs \<Longrightarrow> c \<noteq> CHR ''-''"
  using nat_to_string_digits [of k] is_digit_not by auto

text \<open>What \<open>GetChunkInfo\<close> prints is read back as the chunks the seeder recorded.\<close>

lemma chunk_list_GetChunkInfo:
  assumes "\<forall>ks. m name = Some ks \<longrightarrow> (\<forall>k\<in>set ks. int k + 1 < 2 ^ 31)"
  shows "chunk_list nchunks (GetChunkInfo m name) =
    Some (case m name of
            None \<Rightarrow> (False, map (\<lambda>i. int i + 1) [0..<nchunks])
          | Some ks \<Rightarrow> (True, map (\<lambda>k. int k + 1) ks))"
proof (cases "m name")
  case None
  then show ?thesis by (simp add: GetChunkInfo_def chunk_list_def)
next
  case (Some ks)
  show ?thesis
  proof (cases "ks = []")
    case True
    then show ?thesis using Some by (simp add: GetChunkInfo_def chunk_list_def)
  next
    case False
    let ?j = "join sp (map nat_to_string ks)"
    have info: "GetChunkInfo m name = ?j"
      using False Some concat_trail [OF False, of nat_to_string] by (simp add: GetChunkInfo_def Let_def)
    obtain k ks' where ks: "ks = k # ks'" using False by (cases ks) auto
    obtain c cs where c: "nat_to_string k = c # cs" by (cases "nat_to_string k") auto
    have "\<exists>rest. ?j = c # rest" using ks c by (cases ks') auto
    then have not_flag: "?j \<noteq> ''-1''" "?j \<noteq> ''-2''" using nat_to_string_first [OF c] by auto
    have "\<forall>x\<in>set (map nat_to_string ks). sp \<notin> set x" by simp
    then have split: "split2 ?j sp = map nat_to_string ks"
      using False split_str_join [of "map nat_to_string ks" sp] by (simp add: split2_split)
    have "map_opt (\<lambda>x. do { v \<leftarrow> atoi x; int_range (v + 1) }) (map nat_to_string ks) =
        Some (map (\<lambda>k. int k + 1) ks)"
      using assms Some
    proof (induction ks arbitrary: m)
      case (Cons k ks)
      have "atoi (nat_to_string k) = Some (int k)" "int_range (int k + 1) = Some (int k + 1)"
        using Cons.prems atoi_nat_to_string [of k] by (auto simp: int_range_def)
      then show ?case using Cons.IH [of "\<lambda>_. Some ks"] Cons.prems by simp
    qed simp
    then show ?thesis using info not_flag split Some by (simp add: chunk_list_def)
  qed
qed


section \<open>The plan\<close>

lemma round_up_div:
  fixes n k :: nat
  assumes "0 < k"
  shows "n div k + (if n mod k \<noteq> 0 then 1 else 0) = (n + (k - 1)) div k"
proof (cases "n mod k = 0")
  case True
  then have "n + (k - 1) = k - 1 + k * (n div k)" using div_mult_mod_eq [of n k] by (simp add: mult.commute)
  moreover have "(k - 1 + k * (n div k)) div k = n div k + (k - 1) div k"
    using assms by (simp only: div_mult_self2)
  moreover have "(k - 1) div k = 0" using assms by simp
  ultimately show ?thesis using True by (simp add: add.commute del: One_nat_def)
next
  case False
  have "n + (k - 1) = (n mod k - 1) + k * (n div k + 1)"
    using div_mult_mod_eq [of n k] False assms by (simp add: mult.commute)
  moreover have "((n mod k - 1) + k * (n div k + 1)) div k = (n div k + 1) + (n mod k - 1) div k"
    using assms by (simp only: div_mult_self2)
  moreover have "n mod k - 1 < k" using assms by (meson less_imp_diff_less mod_less_divisor)
  then have "(n mod k - 1) div k = 0" by simp
  ultimately have "(n + (k - 1)) div k = n div k + 1" by (simp only: add_0_right)
  then show ?thesis using False by simp
qed

lemma length_pieces: "0 < k \<Longrightarrow> length (pieces k s) = (length s + (k - 1)) div k"
proof (induction s rule: length_induct)
  case (1 s)
  show ?case
  proof (cases "s = []")
    case True
    then show ?thesis using "1.prems" by (simp add: pieces.simps [of k])
  next
    case False
    let ?n = "length s"
    have "length (drop k s) < length s" using False "1.prems" by simp
    then have rest: "length (pieces k (drop k s)) = (?n - k + (k - 1)) div k"
      using "1.IH" [rule_format, of "drop k s"] "1.prems" by simp
    have "?n + (k - 1) = k + (?n - 1)" using False "1.prems" by (cases s) auto
    then have "(?n + (k - 1)) div k = Suc ((?n - 1) div k)" using "1.prems" by (simp only: div_add_self1)
    moreover have "(?n - 1) div k = (?n - k + (k - 1)) div k"
    proof (cases "k \<le> ?n")
      case True
      then have "?n - k + (k - 1) = ?n - 1" using "1.prems" by simp
      then show ?thesis by simp
    next
      case short: False
      then have "?n - 1 < k" "?n - k + (k - 1) < k" using "1.prems" by auto
      then show ?thesis by simp
    qed
    ultimately show ?thesis using False "1.prems" rest by (simp add: pieces.simps [of k s])
  qed
qed

text \<open>The number of chunks computed from the size is the number of hashes of the file.\<close>

lemma nchunks_of_pieces:
  assumes "length s < 2 ^ 31"
  shows "nchunks_of (nat_to_string (length s)) = Some (int (length (pieces CHUNK_SIZE s)))"
proof -
  let ?n = "length s" and ?k = CHUNK_SIZE
  have "length (pieces ?k s) = ?n div ?k + (if ?n mod ?k \<noteq> 0 then 1 else 0)"
    using round_up_div [of ?k ?n] by (simp add: length_pieces)
  then have "int (length (pieces ?k s)) = int ?n div int ?k + (if int ?n mod int ?k \<noteq> 0 then 1 else 0)"
    by (simp add: zdiv_int zmod_int [symmetric])
  moreover have "int ?n sdiv int ?k = int ?n div int ?k" "int ?n smod int ?k = int ?n mod int ?k"
    by (simp_all add: signed_divide_int_def signed_modulo_int_def CHUNK_SIZE_def minus_div_mult_eq_mod)
      (cases "s = []"; simp)+
  moreover have "atoi (nat_to_string ?n) = Some (int ?n)"
    using assms by (intro atoi_nat_to_string) simp
  ultimately show ?thesis by (simp add: nchunks_of_def)
qed

lemma plan_round_robin:
  assumes "0 < n"
  shows "plan_loop (False, c) (int n) [i..<m] (int (i mod n)) = Some (map (\<lambda>i. int (i mod n)) [i..<m])"
proof (induction "m - i" arbitrary: i)
  case (Suc d)
  have "(int (i mod n) + 1) mod int n = int (Suc i mod n)"
    by (metis mod_Suc_eq of_nat_Suc of_nat_mod add.commute)
  then show ?case
    using Suc.hyps(1) [of "Suc i"] Suc.hyps(2) assms by (simp add: upt_conv_Cons)
qed simp

lemma plan_decided: "m \<le> length c \<Longrightarrow> plan_loop (True, c) n [i..<m] k = Some (map ((!) c) [i..<m])"
proof (induction "m - i" arbitrary: i)
  case (Suc d)
  then show ?case by (simp add: upt_conv_Cons)
qed simp

end
