(* ===== verification/Peer_Server.thy ===== *)
theory Peer_Server
  imports Peer_Schedule
begin

text \<open>
  peer/peerserver.cpp: what a peer answers to other peers. \<open>ClientServerKernel\<close> dispatches one
  request and \<open>TransferFunction\<close> sends a chunk, after asking a tracker for the path of the file.
  Connecting to a tracker (\<open>reachable\<close>), the exchange with it (\<open>ask\<close>, which changes the state \<open>n\<close> of
  the network) and the local file system (\<open>file\<close>) are parameters; the result is the list of blocks
  passed to \<open>send\<close>.
\<close>


section \<open>Definitions\<close>

text \<open>One exchange with a tracker: \<open>connect\<close> fails, the handshake fails, or a reply.\<close>

datatype contact = ConnectFailed | HandshakeFailed | Reply string

text \<open>
  The copy of a reply into a buffer of 65535 bytes, read back as a C string.
\<close>

definition c_buffer :: "string \<Rightarrow> string" where
  "c_buffer s = takeWhile (\<lambda>c. c \<noteq> CHR 0x00) (take 65534 s)"

definition Conv :: "string list \<Rightarrow> (string \<times> int) list option" where
  "Conv split_vector =
     do {
       ip1 \<leftarrow> vec_at split_vector 4;
       p1 \<leftarrow> vec_at split_vector 5;
       port1 \<leftarrow> atoi p1;
       ip2 \<leftarrow> vec_at split_vector 6;
       p2 \<leftarrow> vec_at split_vector 7;
       port2 \<leftarrow> atoi p2;
       Some [(ip1, port1), (ip2, port2)]
     }"

text \<open>The first tracker that accepts a connection, else the default pair.\<close>

fun CheckTracker_first :: "(string \<times> int \<Rightarrow> bool) \<Rightarrow> (string \<times> int) list \<Rightarrow> string \<times> int" where
  "CheckTracker_first reachable [] = ([], 0)"
| "CheckTracker_first reachable (i # tracker_data) =
     (if reachable i then i else CheckTracker_first reachable tracker_data)"

definition GetFilePath ::
  "(string \<times> int \<Rightarrow> string \<Rightarrow> 'n \<Rightarrow> contact \<times> 'n) \<Rightarrow> string \<times> int \<Rightarrow> string \<Rightarrow> string \<Rightarrow> string \<Rightarrow>
     'n \<Rightarrow> (string \<times> 'n) option" where
  "GetFilePath ask server_final groupname filename username n =
     (case ask server_final (join sp [''send_full_path'', username, groupname, filename]) n of
        (ConnectFailed, n') \<Rightarrow> None
      | (HandshakeFailed, n') \<Rightarrow> Some ([], n')
      | (Reply s, n') \<Rightarrow> Some (c_buffer s, n'))"

text \<open>
  \<open>atoi(..)*CHUNK_SIZE2\<close> is an \<open>int\<close> product; \<open>fseek\<close> to a negative position fails and leaves the
  stream at its start; a file that cannot be opened is a null \<open>FILE*\<close>.
\<close>

definition TransferFunction ::
  "(string \<times> int \<Rightarrow> bool) \<Rightarrow> (string \<times> int \<Rightarrow> string \<Rightarrow> 'n \<Rightarrow> contact \<times> 'n) \<Rightarrow> (string \<rightharpoonup> string) \<Rightarrow>
     string list \<Rightarrow> 'n \<Rightarrow> (string list \<times> 'n) option" where
  "TransferFunction reachable ask file split_vector n =
     do {
       tracker_data \<leftarrow> Conv split_vector;
       let server_final = CheckTracker_first reachable tracker_data;
       groupname \<leftarrow> vec_at split_vector 1;
       filename \<leftarrow> vec_at split_vector 2;
       username \<leftarrow> vec_at split_vector 8;
       (full_path, n') \<leftarrow> GetFilePath ask server_final groupname filename username n;
       chunk \<leftarrow> vec_at split_vector 3;
       k \<leftarrow> atoi chunk;
       pos \<leftarrow> int_range (k * int CHUNK_SIZE2);
       s \<leftarrow> file full_path;
       Some (chunk_blocks s (nat pos), n')
     }"

definition ClientServerKernel ::
  "(string \<times> int \<Rightarrow> bool) \<Rightarrow> (string \<times> int \<Rightarrow> string \<Rightarrow> 'n \<Rightarrow> contact \<times> 'n) \<Rightarrow> (string \<rightharpoonup> string) \<Rightarrow>
     (string \<rightharpoonup> nat list) \<Rightarrow> string \<Rightarrow> 'n \<Rightarrow> (string list \<times> 'n) option" where
  "ClientServerKernel reachable ask file filechunks_map command n =
     (let command_split = stream_gets 2 command in
      if command_split ! 0 = ''join_group'' then Some ([], n)
      else if command_split ! 0 = ''Hello'' then Some ([[]], n)
      else if command_split ! 0 = ''send_chunk''
        then TransferFunction reachable ask file (split_str command sp) n
      else if command_split ! 0 = ''chunk_numbers''
        then Some ([GetChunkInfo filechunks_map (command_split ! 1)], n)
      else Some ([], n))"

subsection \<open>The request for a chunk\<close>

text \<open>\<open>ServerPath\<close> of peer/peerdownload.cpp: the addresses of the tracker file on one line.\<close>

definition ServerPath :: "string list \<Rightarrow> string option" where
  "ServerPath file_rows =
     do {
       rows \<leftarrow> map_opt (\<lambda>line. do { a \<leftarrow> vec_at (split2 line sp) 0; b \<leftarrow> vec_at (split2 line sp) 1;
                                   Some (a @ [sp] @ b @ [sp]) }) file_rows;
       let tracker_data = concat rows;
       Some (take (length tracker_data - 1) tracker_data)
     }"

text \<open>The message of \<open>DownloadKernel\<close>.\<close>

definition send_chunk_message :: "string \<Rightarrow> string \<Rightarrow> nat \<Rightarrow> string \<Rightarrow> string \<Rightarrow> string" where
  "send_chunk_message groupname name chunk_num serverpath seeder_name =
     ''send_chunk '' @ groupname @ [sp] @ name @ [sp] @ to_string (int chunk_num) @ [sp] @
     serverpath @ [sp] @ seeder_name"


section \<open>Messages\<close>

lemma CheckTracker_first_reachable:
  "\<exists>i\<in>set ts. reachable i \<Longrightarrow>
     reachable (CheckTracker_first reachable ts) \<and> CheckTracker_first reachable ts \<in> set ts"
  by (induction ts) auto

lemma ServerPath_two:
  assumes "sp \<notin> set ip1" "sp \<notin> set p1" "sp \<notin> set ip2" "sp \<notin> set p2"
  shows "ServerPath [join sp [ip1, p1], join sp [ip2, p2]] = Some (join sp [ip1, p1, ip2, p2])"
proof -
  have "split2 (join sp [a, b]) sp = [a, b]" if "sp \<notin> set a" "sp \<notin> set b" for a b
    using split_str_join [of "[a, b]" sp] that by (simp add: split2_split)
  from this [OF assms(1,2)] this [OF assms(3,4)]
  have rows: "map_opt (\<lambda>line. do { a \<leftarrow> vec_at (split2 line sp) 0; b \<leftarrow> vec_at (split2 line sp) 1;
      Some (a @ [sp] @ b @ [sp]) }) [join sp [ip1, p1], join sp [ip2, p2]] =
      Some [ip1 @ [sp] @ p1 @ [sp], ip2 @ [sp] @ p2 @ [sp]]"
    by simp
  have "concat [ip1 @ [sp] @ p1 @ [sp], ip2 @ [sp] @ p2 @ [sp]] = join sp [ip1, p1, ip2, p2] @ [sp]"
    by simp
  then have "ServerPath [join sp [ip1, p1], join sp [ip2, p2]] =
      Some (butlast (join sp [ip1, p1, ip2, p2] @ [sp]))"
    unfolding ServerPath_def rows Let_def butlast_conv_take by simp
  then show ?thesis by (simp only: butlast_snoc)
qed

text \<open>The question for the chunks of a file is answered from \<open>filechunks_map\<close> alone.\<close>

lemma chunk_numbers_served:
  assumes "token fn" "fn \<noteq> []"
  shows "ClientServerKernel reachable ask file m (''chunk_numbers '' @ fn) x = Some ([GetChunkInfo m fn], x)"
proof -
  have "stream_gets (length [''chunk_numbers'', fn] + 0) (join sp [''chunk_numbers'', fn]) =
      [''chunk_numbers'', fn] @ replicate 0 []"
    using assms by (intro stream_gets_join_more) (simp_all add: token_def is_space_def)
  then have "stream_gets 2 (''chunk_numbers '' @ fn) = [''chunk_numbers'', fn]"
    by (simp add: numeral_2_eq_2 del: stream_gets.simps)
  then show ?thesis by (simp add: ClientServerKernel_def del: stream_gets.simps)
qed

lemma chunk_pos: "k < 4096 \<Longrightarrow> int_range (int k * int CHUNK_SIZE) = Some (int (k * CHUNK_SIZE))"
  using int_range_nat [of "k * CHUNK_SIZE"] by (simp add: CHUNK_SIZE_def)

text \<open>The fields of a chunk request are found where \<open>Conv\<close> and \<open>TransferFunction\<close> look for them.\<close>

lemma send_chunk_fields:
  assumes "\<forall>x\<in>set [g, n, ip1, p1, ip2, p2, u]. sp \<notin> set x"
  shows "split_str (send_chunk_message g n k (join sp [ip1, p1, ip2, p2]) u) sp =
    [''send_chunk'', g, n, nat_to_string k, ip1, p1, ip2, p2, u]"
proof -
  have "send_chunk_message g n k (join sp [ip1, p1, ip2, p2]) u =
      join sp [''send_chunk'', g, n, nat_to_string k, ip1, p1, ip2, p2, u]"
    by (simp add: send_chunk_message_def)
  moreover have "sp \<notin> set (nat_to_string k)" by (rule token_sp) simp
  ultimately show ?thesis
    using assms split_str_join [of "[''send_chunk'', g, n, nat_to_string k, ip1, p1, ip2, p2, u]" sp]
    by (simp del: join.simps)
qed

lemma send_chunk_served:
  assumes "\<forall>x\<in>set [g, n, ip1, p1, ip2, p2, u]. sp \<notin> set x"
    "atoi p1 = Some port1" "atoi p2 = Some port2" "k < 4096"
    "ask (CheckTracker_first reachable [(ip1, port1), (ip2, port2)])
       (join sp [''send_full_path'', u, g, n]) x = (Reply path, x')"
    "file (c_buffer path) = Some s"
  shows "ClientServerKernel reachable ask file m
      (send_chunk_message g n k (join sp [ip1, p1, ip2, p2]) u) x = Some (chunk_blocks s (k * CHUNK_SIZE), x')"
proof -
  let ?c = "send_chunk_message g n k (join sp [ip1, p1, ip2, p2]) u"
  have "?c = ''send_chunk'' @ sp # (g @ [sp] @ n @ [sp] @ to_string (int k) @ [sp] @ join sp [ip1, p1, ip2, p2] @ [sp] @ u)"
    by (simp add: send_chunk_message_def)
  moreover have "token ''send_chunk''" by (simp add: token_def is_space_def)
  ultimately have "stream_gets 2 ?c ! 0 = ''send_chunk''"
    by (simp only: numeral_2_eq_2 stream_gets.simps stream_get_step Let_def split nth_Cons_0 list.discI simp_thms)
  moreover have "int k < 2 ^ 31" using assms(4) by simp
  ultimately show ?thesis
    using assms send_chunk_fields [OF assms(1), of k] chunk_pos [OF assms(4)] atoi_nat_to_string [of k]
    by (simp add: ClientServerKernel_def TransferFunction_def Conv_def GetFilePath_def Let_def del: of_nat_mult)
qed

end
