(* ===== verification/Peer_Download.thy ===== *)
theory Peer_Download
  imports Peer_Server
begin

text \<open>
  peer/peerdownload.cpp: \<open>DownloadKernel\<close> (one chunk), \<open>GetChunks\<close> (all chunks) and \<open>DownloadFile\<close>
  (the whole \<open>download_file\<close> command), over a network that is a parameter: \<open>dial\<close> is one exchange
  with another peer (the segments \<open>recv\<close> delivers, or a refused connection), \<open>ask\<close> one exchange
  with the tracker. The chunk threads are run one after the other, in the order they are created.
  \<open>DownloadKernel\<close> is a partial function because its loop has no bound.
\<close>


section \<open>Definitions\<close>

record 'n net =
  dial :: "string \<Rightarrow> int \<Rightarrow> string \<Rightarrow> 'n \<Rightarrow> string list option \<times> 'n"
  ask :: "string \<Rightarrow> 'n \<Rightarrow> contact \<times> 'n"

record filedata =
  name :: string
  path :: string
  hash :: string
  fsize :: string
  groupname :: string
  serverpath :: string
  username :: string
  seeders :: "string list"
  details :: "string \<rightharpoonup> string \<times> string"

lemma record_read_shorter:
  "record_read c n = (d, c') \<Longrightarrow> d \<noteq> [] \<Longrightarrow> length (concat c') < length (concat c)"
proof -
  assume r: "record_read c n = (d, c')" "d \<noteq> []"
  have c: "concat c \<noteq> []"
  proof
    assume "concat c = []"
    then show False using record_read_end [of c n] r by simp
  qed
  have "fst (record_read c 0) = []" by (induction c) auto
  then have "n \<noteq> 0" using r by (metis fst_conv)
  then show ?thesis using record_read_some [of n c d c'] c r by auto
qed

text \<open>\<open>RecvAll\<close> of peer/peer.cpp: \<open>recv\<close> until it returns 0.\<close>

function RecvAll :: "string list \<Rightarrow> string" where
  "RecvAll c = (case record_read c 65535 of (d, c') \<Rightarrow> if d = [] then [] else d @ RecvAll c')"
  by pat_completeness auto
termination
  by (relation "measure (\<lambda>c. length (concat c))") (auto dest: record_read_shorter [OF sym])

declare RecvAll.simps [simp del]

text \<open>\<open>seeders[num]\<close> with an \<open>int\<close> index, and \<open>details[seeder]\<close> with its default.\<close>

definition seeder_at :: "filedata \<Rightarrow> int \<Rightarrow> string option" where
  "seeder_at fm num = (if num < 0 then None else vec_at (seeders fm) (nat num))"

definition detail_of :: "filedata \<Rightarrow> string \<Rightarrow> string \<times> string" where
  "detail_of fm s = (case details fm s of None \<Rightarrow> ([], []) | Some p \<Rightarrow> p)"

text \<open>
  \<open>UpdateServer\<close> and \<open>UpdateServerComplete\<close>: a message without a reply; a failed \<open>connect\<close> exits.
\<close>

definition notify :: "'n net \<Rightarrow> string \<Rightarrow> 'n \<Rightarrow> 'n option" where
  "notify N msg n = (case ask N msg n of (ConnectFailed, n') \<Rightarrow> None | (_, n') \<Rightarrow> Some n')"

definition UpdateServer :: "'n net \<Rightarrow> filedata \<Rightarrow> 'n \<Rightarrow> 'n option" where
  "UpdateServer N fm n = notify N (join sp [''add_file'', groupname fm, name fm, path fm, username fm]) n"

definition UpdateServerComplete :: "'n net \<Rightarrow> filedata \<Rightarrow> 'n \<Rightarrow> 'n option" where
  "UpdateServerComplete N fm n =
     notify N (join sp [''complete'', groupname fm, name fm, path fm, username fm]) n"

text \<open>
  One pass of the loop of \<open>DownloadKernel\<close>: \<open>Inl\<close> for a return, with the file, \<open>filechunks_map\<close>
  and the network, \<open>Inr\<close> for the next pass with its seeder number, attempts, file and network;
  \<open>None\<close> when it leaves defined behaviour (a seeder number out of range, a missing file, an overflow).
\<close>

definition DownloadAttempt ::
  "'n net \<Rightarrow> (string \<Rightarrow> string) \<Rightarrow> filedata \<Rightarrow> nat \<Rightarrow> int \<Rightarrow> nat \<Rightarrow> string option \<Rightarrow>
     (string \<rightharpoonup> nat list) \<Rightarrow> 'n \<Rightarrow>
     ((string option \<times> (string \<rightharpoonup> nat list) \<times> 'n) + (int \<times> nat \<times> string option \<times> 'n)) option" where
  "DownloadAttempt N sha1 fm chunk_num seeder_num attempts file m n =
     do {
       seeder_name \<leftarrow> seeder_at fm seeder_num;
       conn_port \<leftarrow> atoi (snd (detail_of fm seeder_name));
       case dial N (fst (detail_of fm seeder_name)) conn_port
              (send_chunk_message (groupname fm) (name fm) chunk_num (serverpath fm) seeder_name) n of
         (None, n') \<Rightarrow>
           Some (if attempts + 1 \<ge> length (seeders fm) then Inl (file, m, n')
                 else Inr ((seeder_num + 1) mod int (length (seeders fm)), attempts + 1, file, n'))
       | (Some segments, n') \<Rightarrow>
           do {
             pos \<leftarrow> int_range (int chunk_num * int CHUNK_SIZE1);
             f \<leftarrow> file;
             let f' = write_at f (nat pos) (recv_loop record_read segments (int CHUNK_SIZE1));
             n'' \<leftarrow> (if chunk_num = 0 then UpdateServer N fm n' else Some n');
             ok \<leftarrow> GetFileHashsmall sha1 (Some f') chunk_num (hash fm);
             Some (if \<not> ok then Inr (seeder_num, attempts, Some f', n'')
                   else Inl (Some f',
                     m(name fm \<mapsto> (case m (name fm) of None \<Rightarrow> [] | Some ks \<Rightarrow> ks) @ [chunk_num]), n''))
           }
     }"

text \<open>\<open>while(true)\<close>; \<open>None\<close> also when it never ends.\<close>

partial_function (option) DownloadKernel ::
  "'n net \<Rightarrow> (string \<Rightarrow> string) \<Rightarrow> filedata \<Rightarrow> nat \<Rightarrow> int \<Rightarrow> nat \<Rightarrow> string option \<Rightarrow>
     (string \<rightharpoonup> nat list) \<Rightarrow> 'n \<Rightarrow> (string option \<times> (string \<rightharpoonup> nat list) \<times> 'n) option" where
  "DownloadKernel N sha1 fm chunk_num seeder_num attempts file m n =
     do {
       r \<leftarrow> DownloadAttempt N sha1 fm chunk_num seeder_num attempts file m n;
       (case r of
          Inl y \<Rightarrow> Some y
        | Inr (num', attempts', file', n') \<Rightarrow>
            DownloadKernel N sha1 fm chunk_num num' attempts' file' m n')
     }"

text \<open>The questions \<open>CalcChunk\<close> asks; a refused connection exits.\<close>

fun ask_chunks :: "'n net \<Rightarrow> filedata \<Rightarrow> string list \<Rightarrow> 'n \<Rightarrow> (string option list \<times> 'n) option" where
  "ask_chunks N fm [] n = Some ([], n)"
| "ask_chunks N fm (s # ss) n =
     do {
       conn_port \<leftarrow> atoi (snd (detail_of fm s));
       let (r, n') = dial N (fst (detail_of fm s)) conn_port (''chunk_numbers '' @ name fm) n;
       segments \<leftarrow> r;
       (answers, n'') \<leftarrow> ask_chunks N fm ss n';
       Some (Some (RecvAll segments) # answers, n'')
     }"

text \<open>The threads of \<open>GetChunks\<close>.\<close>

fun run_chunks ::
  "'n net \<Rightarrow> (string \<Rightarrow> string) \<Rightarrow> filedata \<Rightarrow> (nat \<times> int) list \<Rightarrow> string option \<Rightarrow>
     (string \<rightharpoonup> nat list) \<Rightarrow> 'n \<Rightarrow> (string option \<times> (string \<rightharpoonup> nat list) \<times> 'n) option" where
  "run_chunks N sha1 fm [] file m n = Some (file, m, n)"
| "run_chunks N sha1 fm ((i, x) # plan) file m n =
     do {
       (file', m', n') \<leftarrow> DownloadKernel N sha1 fm i x 0 file m n;
       run_chunks N sha1 fm plan file' m' n'
     }"

definition GetChunks ::
  "'n net \<Rightarrow> (string \<Rightarrow> string) \<Rightarrow> filedata \<Rightarrow>
     string option \<Rightarrow> (string \<rightharpoonup> nat list) \<Rightarrow> 'n \<Rightarrow>
     (string option \<times> (string \<rightharpoonup> nat list) \<times> 'n) option" where
  "GetChunks N sha1 fm file m n =
     do {
       nchunks \<leftarrow> nchunks_of (fsize fm);
       if nchunks < 0 then None
       else do {
         (answers, n') \<leftarrow> ask_chunks N fm (seeders fm) n;
         decide \<leftarrow> CalcChunk (nat nchunks) answers;
         plan \<leftarrow> plan_loop decide (int (length (seeders fm))) [0..<nat nchunks] 0;
         run_chunks N sha1 fm (zip [0..<nat nchunks] plan) file (m(name fm \<mapsto> [])) n'
       }
     }"

text \<open>The address of every seeder; a failed handshake prints a line and skips one.\<close>

fun ask_details ::
  "'n net \<Rightarrow> string list \<Rightarrow> string list \<Rightarrow> (string \<rightharpoonup> string \<times> string) \<Rightarrow> 'n \<Rightarrow>
     (string list \<times> (string \<rightharpoonup> string \<times> string) \<times> 'n) option" where
  "ask_details N [] out d n = Some (out, d, n)"
| "ask_details N (i # is) out d n =
     (case ask N (''give_details '' @ i) n of
        (ConnectFailed, n') \<Rightarrow> None
      | (HandshakeFailed, n') \<Rightarrow> ask_details N is (out @ [''TLS handshake with tracker failed'']) d n'
      | (Reply cred, n') \<Rightarrow>
          do {
            a \<leftarrow> vec_at (split2 cred sp) 0;
            b \<leftarrow> vec_at (split2 cred sp) 1;
            ask_details N is out (d(i \<mapsto> (a, b))) n'
          })"

text \<open>
  The command: what it prints (the lines of the chunk threads apart), the downloaded file (\<open>None\<close>
  when none was created), \<open>filechunks_map\<close> and the network. \<open>rows\<close> are the lines of the tracker file;
  \<open>creatable\<close> says whether \<open>ofstream outfile(filepath)\<close> can create the file.
\<close>

definition DownloadFile ::
  "'n net \<Rightarrow> (string \<Rightarrow> string) \<Rightarrow> bool \<Rightarrow> string list \<Rightarrow>
     string \<Rightarrow> string \<Rightarrow> string \<Rightarrow> string \<Rightarrow> (string \<rightharpoonup> nat list) \<Rightarrow> 'n \<Rightarrow>
     (string list \<times> string option \<times> (string \<rightharpoonup> nat list) \<times> 'n) option" where
  "DownloadFile N sha1 creatable rows g filename filepath user m n =
     (case ask N (join sp [''give_sha'', g, filename, user]) n of
        (ConnectFailed, n') \<Rightarrow> None
      | (HandshakeFailed, n') \<Rightarrow> Some ([''TLS handshake with tracker failed''], None, m, n')
      | (Reply filehash, n') \<Rightarrow>
        if filehash = [] then Some ([''Invalid request''], None, m, n')
        else
          (case ask N (join sp [''give_seeders'', g, filename, user]) n' of
             (ConnectFailed, n') \<Rightarrow> None
           | (HandshakeFailed, n') \<Rightarrow> Some ([''TLS handshake with tracker failed''], None, m, n')
           | (Reply output_string, n') \<Rightarrow>
             if output_string = [] then Some ([''No seeders available''], None, m, n')
             else
               let split_vector = split2 output_string sp in
               do {
                 (out, ds, n1) \<leftarrow> ask_details N (butlast split_vector) [] Map.empty n';
                 server \<leftarrow> ServerPath rows;
                 nbytes \<leftarrow> atoi (last split_vector);
                 let fm = \<lparr>name = filename, path = filepath, hash = filehash,
                           fsize = last split_vector, groupname = g, serverpath = server,
                           username = user, seeders = butlast split_vector, details = ds\<rparr>;
                 let created = (if creatable then Some (replicate (nat nbytes) (CHR ''5'')) else None);
                 (file, m', n2) \<leftarrow> GetChunks N sha1 fm created m n1;
                 n3 \<leftarrow> UpdateServerComplete N fm n2;
                 Some (out @ [MatchSHA sha1 file filehash], file, m'(filename := None), n3)
               }))"



section \<open>One chunk\<close>

lemma RecvAll_concat [simp]: "RecvAll c = concat c"
proof (induction c rule: RecvAll.induct)
  case (1 c)
  obtain d c' where r: "record_read c 65535 = (d, c')" by fastforce
  show ?case
  proof (cases "concat c = []")
    case True
    then show ?thesis using r record_read_end [OF True, of 65535] by (simp add: RecvAll.simps [of c])
  next
    case False
    then have "d \<noteq> []" "concat c = d @ concat c'" using record_read_some [of 65535 c d c'] r by auto
    then show ?thesis using 1 r by (simp add: RecvAll.simps [of c])
  qed
qed

text \<open>A chunk is recorded only after its hash was found right in the file as written.\<close>

definition chunk_recorded ::
  "(string \<Rightarrow> string) \<Rightarrow> filedata \<Rightarrow> nat \<Rightarrow> (string \<rightharpoonup> nat list) \<Rightarrow> string option \<Rightarrow> (string \<rightharpoonup> nat list) \<Rightarrow> bool" where
  "chunk_recorded sha1 fm k m file' m' \<longleftrightarrow>
     GetFileHashsmall sha1 file' k (hash fm) = Some True \<and>
     m' = m(name fm \<mapsto> (case m (name fm) of None \<Rightarrow> [] | Some ks \<Rightarrow> ks) @ [k])"

lemma DownloadAttempt_cases:
  assumes ret: "DownloadAttempt N sha1 fm k num att file m n = Some r"
  obtains (refused) u port n' where "seeder_at fm num = Some u" "atoi (snd (detail_of fm u)) = Some port"
      "dial N (fst (detail_of fm u)) port
         (send_chunk_message (groupname fm) (name fm) k (serverpath fm) u) n = (None, n')"
      "r = (if att + 1 \<ge> length (seeders fm) then Inl (file, m, n')
            else Inr ((num + 1) mod int (length (seeders fm)), att + 1, file, n'))"
    | (data) u port segs n' n'' pos f ok where "seeder_at fm num = Some u"
      "atoi (snd (detail_of fm u)) = Some port"
      "dial N (fst (detail_of fm u)) port
         (send_chunk_message (groupname fm) (name fm) k (serverpath fm) u) n = (Some segs, n')"
      "file = Some f" "(if k = 0 then UpdateServer N fm n' else Some n') = Some n''"
      "int_range (int k * int CHUNK_SIZE) = Some pos"
      "GetFileHashsmall sha1
         (Some (write_at f (nat pos) (recv_loop record_read segs (int CHUNK_SIZE)))) k (hash fm) = Some ok"
      "r = (if \<not> ok
            then Inr (num, att, Some (write_at f (nat pos) (recv_loop record_read segs (int CHUNK_SIZE))), n'')
            else Inl (Some (write_at f (nat pos) (recv_loop record_read segs (int CHUNK_SIZE))),
              m(name fm \<mapsto> (case m (name fm) of None \<Rightarrow> [] | Some ks \<Rightarrow> ks) @ [k]), n''))"
proof -
  obtain s port where s: "seeder_at fm num = Some s" "atoi (snd (detail_of fm s)) = Some port"
    using ret unfolding DownloadAttempt_def by (auto simp only: bind_Some_conv)
  obtain d n' where d: "dial N (fst (detail_of fm s)) port
      (send_chunk_message (groupname fm) (name fm) k (serverpath fm) s) n = (d, n')"
    by fastforce
  show thesis
  proof (cases d)
    case None
    then show thesis using refused [OF s] d ret s by (auto simp: DownloadAttempt_def)
  next
    case (Some segs)
    obtain pos where pos: "int_range (int k * int CHUNK_SIZE) = Some pos"
      using ret s d Some by (auto simp: DownloadAttempt_def bind_Some_conv)
    obtain f where f: "file = Some f"
      using ret s d Some pos by (auto simp: DownloadAttempt_def bind_Some_conv)
    let ?f = "write_at f (nat pos) (recv_loop record_read segs (int CHUNK_SIZE))"
    obtain n'' where n'': "(if k = 0 then UpdateServer N fm n' else Some n') = Some n''"
      using ret s d Some pos f unfolding DownloadAttempt_def Let_def
      by (cases "if k = 0 then UpdateServer N fm n' else Some n'") simp_all
    obtain ok where ok: "GetFileHashsmall sha1 (Some ?f) k (hash fm) = Some ok"
      using ret s d Some pos f n'' unfolding DownloadAttempt_def Let_def
      by (cases "GetFileHashsmall sha1 (Some ?f) k (hash fm)") simp_all
    have "r = (if \<not> ok then Inr (num, att, Some ?f, n'')
        else Inl (Some ?f, m(name fm \<mapsto> (case m (name fm) of None \<Rightarrow> [] | Some ks \<Rightarrow> ks) @ [k]), n''))"
      using ret s d Some pos f n'' ok unfolding DownloadAttempt_def Let_def same_sizes by simp
    then show thesis using data [OF s _ f n'' pos ok] d Some by simp
  qed
qed

lemma DownloadAttempt_records:
  assumes "DownloadAttempt N sha1 fm k num att file m n = Some (Inl (file', m', n'))"
  shows "m' = m \<and> file' = file \<or> chunk_recorded sha1 fm k m file' m'"
  using assms by (cases rule: DownloadAttempt_cases) (auto simp: chunk_recorded_def split: if_splits)

lemma DownloadKernel_records:
  assumes ret: "DownloadKernel N sha1 fm k num att file m n = Some (file', m', n')"
  shows "m' = m \<or> chunk_recorded sha1 fm k m file' m'"
proof -
  let ?P = "\<lambda>N sha1 fm k num att file m n y. fst (snd y) = m \<or> chunk_recorded sha1 fm k m (fst y) (fst (snd y))"
  have "?P N sha1 fm k num att file m n (file', m', n')"
  proof (rule DownloadKernel.raw_induct [where P = ?P, OF _ ret], goal_cases)
    case (1 K N sha1 fm k num att fl m n y)
    from 1(2) obtain r where r: "DownloadAttempt N sha1 fm k num att fl m n = Some r"
      "(case r of Inl y \<Rightarrow> Some y | Inr (num', att', fl', n') \<Rightarrow> K N sha1 fm k num' att' fl' m n') = Some y"
      by (auto simp: bind_Some_conv)
    show ?case
    proof (cases r)
      case (Inl z)
      then show ?thesis using r DownloadAttempt_records [of N sha1 fm k num att fl m n] by (cases z) auto
    next
      case (Inr z)
      then show ?thesis using r(2) 1(1) by (cases z) auto
    qed
  qed
  then show ?thesis by simp
qed

lemma DownloadKernel_refused:
  assumes "\<And>ip port msg n. fst (dial N ip port msg n) = None"
    "\<forall>s\<in>set (seeders fm). atoi (snd (detail_of fm s)) \<noteq> None"
    "0 \<le> num" "num < int (length (seeders fm))" "att < length (seeders fm)"
  shows "\<exists>n'. DownloadKernel N sha1 fm k num att file m n = Some (file, m, n')"
  using assms(3-5)
proof (induction "length (seeders fm) - att" arbitrary: num att n)
  case (Suc d)
  have idx: "nat num < length (seeders fm)" using Suc.prems by linarith
  define s where "s = seeders fm ! nat num"
  have s: "seeder_at fm num = Some s" "s \<in> set (seeders fm)"
    using Suc.prems(1) idx by (simp_all add: seeder_at_def s_def)
  obtain port where port: "atoi (snd (detail_of fm s)) = Some port" using assms(2) s(2) by blast
  obtain n' where d: "dial N (fst (detail_of fm s)) port
      (send_chunk_message (groupname fm) (name fm) k (serverpath fm) s) n = (None, n')"
    using assms(1) by (metis prod.collapse)
  show ?case
  proof (cases "length (seeders fm) \<le> att + 1")
    case True
    then show ?thesis
      using s(1) port d by (subst DownloadKernel.simps) (simp add: DownloadAttempt_def)
  next
    case False
    let ?num = "(num + 1) mod int (length (seeders fm))"
    have "0 < int (length (seeders fm))" using Suc.prems by linarith
    then have "0 \<le> ?num" "?num < int (length (seeders fm))" by (rule pos_mod_sign, rule pos_mod_bound)
    moreover have "d = length (seeders fm) - (att + 1)" "att + 1 < length (seeders fm)"
      using Suc.hyps(2) False by auto
    ultimately obtain n'' where "DownloadKernel N sha1 fm k ?num (att + 1) file m n' = Some (file, m, n'')"
      using Suc.hyps(1) [of "att + 1" ?num n'] by blast
    then show ?thesis
      using s(1) port d False by (subst DownloadKernel.simps) (simp add: DownloadAttempt_def)
  qed
qed simp

lemma write_at_drop: "d \<noteq> [] \<Longrightarrow> drop pos (write_at f pos d) = d @ drop (pos + length d) f"
  by (simp add: write_at_def)

text \<open>The received bytes decide the chunk, whatever the file held before.\<close>

lemma written_chunk:
  assumes "CHUNK_SIZE \<le> length (concat segs)"
  shows "chunk_at (write_at f (k * CHUNK_SIZE) (recv_loop record_read segs (int CHUNK_SIZE))) k =
    take CHUNK_SIZE (concat segs)"
proof -
  obtain j where j: "recv_loop record_read segs (int CHUNK_SIZE) = take j (concat segs)"
    "CHUNK_SIZE \<le> j" "j \<le> length (concat segs)"
    using record_stream.recv_loop_bytes [of segs CHUNK_SIZE] assms by (auto simp: min_def)
  have "take j (concat segs) \<noteq> []" using j CHUNK_SIZE_pos by (metis assms length_0_conv length_take min.absorb2 not_le)
  then have "drop (k * CHUNK_SIZE) (write_at f (k * CHUNK_SIZE) (take j (concat segs))) =
      take j (concat segs) @ drop (k * CHUNK_SIZE + length (take j (concat segs))) f"
    by (rule write_at_drop)
  then show ?thesis using j by (simp add: chunk_at_def min_def)
qed

text \<open>The loop of \<open>DownloadKernel\<close> after so many passes: returned, or about to make the next one.\<close>

fun kernel_passes ::
  "nat \<Rightarrow> 'n net \<Rightarrow> (string \<Rightarrow> string) \<Rightarrow> filedata \<Rightarrow> nat \<Rightarrow> int \<Rightarrow> nat \<Rightarrow> string option \<Rightarrow>
     (string \<rightharpoonup> nat list) \<Rightarrow> 'n \<Rightarrow>
     ((string option \<times> (string \<rightharpoonup> nat list) \<times> 'n) + (int \<times> nat \<times> string option \<times> 'n)) option" where
  "kernel_passes 0 N sha1 fm chunk_num seeder_num attempts file m n = Some (Inr (seeder_num, attempts, file, n))"
| "kernel_passes (Suc j) N sha1 fm chunk_num seeder_num attempts file m n =
     do {
       r \<leftarrow> DownloadAttempt N sha1 fm chunk_num seeder_num attempts file m n;
       (case r of
          Inl y \<Rightarrow> Some (Inl y)
        | Inr (num', attempts', file', n') \<Rightarrow> kernel_passes j N sha1 fm chunk_num num' attempts' file' m n')
     }"

text \<open>A call that returns does so after finitely many passes.\<close>

lemma DownloadKernel_passes:
  assumes ret: "DownloadKernel N sha1 fm k num att file m n = Some y"
  shows "\<exists>j. kernel_passes j N sha1 fm k num att file m n = Some (Inl y)"
proof (rule DownloadKernel.raw_induct [where P = "\<lambda>N sha1 fm k num att file m n y.
    \<exists>j. kernel_passes j N sha1 fm k num att file m n = Some (Inl y)", OF _ ret], goal_cases)
  case (1 K N sha1 fm k num att fl m n y)
  from 1(2) obtain r where r: "DownloadAttempt N sha1 fm k num att fl m n = Some r"
    "(case r of Inl y \<Rightarrow> Some y | Inr (num', att', fl', n') \<Rightarrow> K N sha1 fm k num' att' fl' m n') = Some y"
    by (auto simp: bind_Some_conv)
  show ?case
  proof (cases r)
    case (Inl z)
    then show ?thesis using r by (intro exI [of _ "Suc 0"]) simp
  next
    case (Inr z)
    obtain num' att' fl' n' where z: "z = (num', att', fl', n')" by (metis prod_cases4)
    obtain j where "kernel_passes j N sha1 fm k num' att' fl' m n' = Some (Inl y)"
      using 1(1) [of N sha1 fm k num' att' fl' m n' y] r(2) Inr z by (cases y) auto
    then show ?thesis using r(1) Inr z by (intro exI [of _ "Suc j"]) simp
  qed
qed

text \<open>Wrong bytes for the chunk: the same seeder is asked again, without a change of the counters.\<close>

lemma DownloadAttempt_corrupt:
  assumes u: "seeder_at fm num = Some u" "atoi (snd (detail_of fm u)) = Some port"
    and d: "dial N (fst (detail_of fm u)) port
      (send_chunk_message (groupname fm) (name fm) k (serverpath fm) u) n = (Some segs, n')"
    and len: "CHUNK_SIZE \<le> length (concat segs)" "k < 4096" "20 * k \<le> length (hash fm)"
    and hash: "chunk_hash sha1 (take CHUNK_SIZE (concat segs)) \<noteq> take 20 (drop (20 * k) (hash fm))"
    and told: "(if k = 0 then UpdateServer N fm n' else Some n') = Some n''"
  shows "\<exists>f'. DownloadAttempt N sha1 fm k num att (Some f) m n = Some (Inr (num, att, Some f', n''))"
proof -
  let ?f = "write_at f (k * CHUNK_SIZE) (recv_loop record_read segs (int CHUNK_SIZE))"
  have "GetFileHashsmall sha1 (Some ?f) k (hash fm) = Some False"
    using GetFileHashsmall_eq [OF len(2,3), of sha1 ?f] written_chunk [OF len(1), of f k] hash by simp
  then have "DownloadAttempt N sha1 fm k num att (Some f) m n = Some (Inr (num, att, Some ?f, n''))"
    using u d told chunk_pos [OF len(2)] by (simp add: DownloadAttempt_def Let_def del: of_nat_mult)
  then show ?thesis by blast
qed



section \<open>A download from honest seeders\<close>

text \<open>The part of the file that has arrived.\<close>

definition arrived :: "string \<Rightarrow> nat set \<Rightarrow> string \<Rightarrow> bool" where
  "arrived s ks f \<longleftrightarrow> length f = length s \<and> (\<forall>p<length s. p div CHUNK_SIZE \<in> ks \<longrightarrow> f ! p = s ! p)"

lemma arrived_all:
  assumes "arrived s {..<length (pieces CHUNK_SIZE s)} f"
  shows "f = s"
proof (rule nth_equalityI)
  show "length f = length s" using assms by (simp add: arrived_def)
  fix p assume "p < length f"
  then have p: "p < length s" using assms by (simp add: arrived_def)
  have "length s \<le> length (pieces CHUNK_SIZE s) * CHUNK_SIZE"
  proof -
    have "length s \<le> (length s + (CHUNK_SIZE - 1)) div CHUNK_SIZE * CHUNK_SIZE"
      using div_mult_mod_eq [of "length s + (CHUNK_SIZE - 1)" CHUNK_SIZE]
        mod_less_divisor [of CHUNK_SIZE "length s + (CHUNK_SIZE - 1)"] CHUNK_SIZE_pos(1) by linarith
    then show ?thesis by (simp add: length_pieces)
  qed
  then have "p div CHUNK_SIZE < length (pieces CHUNK_SIZE s)"
    using p by (simp add: div_less_iff_less_mult)
  then show "f ! p = s ! p" using assms p by (simp add: arrived_def)
qed

lemma hash_slot:
  assumes "\<And>d. length (sha1 d) = 20" "k < length (pieces CHUNK_SIZE s)"
  shows "take 20 (drop (20 * k) (GetFileHash2 sha1 (Some s))) = chunk_hash sha1 (chunk_at s k)"
    "20 * k \<le> length (GetFileHash2 sha1 (Some s))"
proof -
  let ?hs = "map (chunk_hash sha1) (pieces CHUNK_SIZE s)"
  have h: "GetFileHash2 sha1 (Some s) = concat ?hs" by (simp add: GetFileHash2_def hash_loop_eq hash_loop2_eq)
  have len: "\<forall>x\<in>set ?hs. length x = 20" using assms(1) by (auto intro: length_chunk_hash)
  have "take 20 (drop (k * 20) (concat ?hs)) = ?hs ! k" using len assms(2) by (intro concat_blocks) simp_all
  then show "take 20 (drop (20 * k) (GetFileHash2 sha1 (Some s))) = chunk_hash sha1 (chunk_at s k)"
    using h assms(2) by (simp add: mult.commute pieces_nth chunk_at_def)
  have "length (concat xs) = 20 * length xs" if "\<forall>x\<in>set xs. length x = 20" for xs :: "string list"
    using that by (induction xs) auto
  then show "20 * k \<le> length (GetFileHash2 sha1 (Some s))" using h len assms(2) by simp
qed

text \<open>Below 2 GiB there are at most 4096 chunks.\<close>

lemma pieces_4096: "length s < 2 ^ 31 \<Longrightarrow> length (pieces CHUNK_SIZE s) \<le> 4096"
proof -
  assume "length s < 2 ^ 31"
  then have "length (pieces CHUNK_SIZE s) \<le> (2 ^ 31 - 1 + (CHUNK_SIZE - 1)) div CHUNK_SIZE"
    unfolding length_pieces [OF CHUNK_SIZE_pos(1)] by (intro div_le_mono) simp
  also have "\<dots> = 4096" by (simp add: CHUNK_SIZE_def)
  finally show ?thesis .
qed

text \<open>What one pass of the loop does to the file when the bytes sent are those of the chunk.\<close>

lemma chunk_arrives:
  assumes segs: "concat segs = concat (chunk_blocks s (k * CHUNK_SIZE))" and f: "arrived s ks f"
  defines "f' \<equiv> write_at f (k * CHUNK_SIZE) (recv_loop record_read segs (int CHUNK_SIZE))"
  shows "arrived s (insert k ks) f'" "chunk_at f' k = chunk_at s k"
proof -
  have len: "length f = length s" using f by (simp add: arrived_def)
  note tr = transfer_chunk [OF record_stream.ssl_stream_axioms segs len, folded f'_def]
  show "arrived s (insert k ks) f'"
    unfolding arrived_def
  proof (intro conjI allI impI)
    show "length f' = length s" by (rule tr(1))
    fix p assume p: "p < length s" "p div CHUNK_SIZE \<in> insert k ks"
    have "f ! p = s ! p \<or> k * CHUNK_SIZE \<le> p \<and> p < k * CHUNK_SIZE + CHUNK_SIZE"
    proof (cases "p div CHUNK_SIZE = k")
      case True
      then have "k * CHUNK_SIZE + p mod CHUNK_SIZE = p" using div_mult_mod_eq [of p CHUNK_SIZE] by simp
      then show ?thesis using mod_less_divisor [OF CHUNK_SIZE_pos(1), of p] by linarith
    next
      case False
      then show ?thesis using p f by (simp add: arrived_def)
    qed
    then show "f' ! p = s ! p" using p(1) by (intro tr(2))
  qed
  show "chunk_at f' k = chunk_at s k"
  proof (rule nth_equalityI)
    show "length (chunk_at f' k) = length (chunk_at s k)" using tr(1) by (simp add: chunk_at_def)
    fix j assume "j < length (chunk_at f' k)"
    then have "j < CHUNK_SIZE \<and> j < length s - k * CHUNK_SIZE" using tr(1) by (simp add: chunk_at_def)
    then have j: "j < CHUNK_SIZE" "k * CHUNK_SIZE + j < length s" by linarith+
    then show "chunk_at f' k ! j = chunk_at s k ! j"
      using tr(1) tr(2) [of "k * CHUNK_SIZE + j"] by (simp add: chunk_at_def)
  qed
qed

lemma CalcChunk_complete:
  assumes "0 < n" "n \<le> 16"
  shows "\<exists>c. CalcChunk nchunks (replicate n (Some ''-1'')) = Some (False, c)"
proof -
  let ?o = "(False, map (\<lambda>i. int i + 1) [0..<nchunks])"
  have o: "chunk_list nchunks ''-1'' = Some ?o" by (simp add: chunk_list_def)
  have "map_opt (\<lambda>answer. do { s \<leftarrow> answer; chunk_list nchunks s }) (replicate n (Some ''-1'')) =
      Some (replicate n ?o)"
    using o by (subst map_opt_total [where g = "\<lambda>_. ?o"]) (simp_all add: map_replicate_const)
  moreover have "list_ex fst (replicate n ?o) = False" by (induction n) auto
  moreover have "\<forall>l\<in>set (replicate n ?o). \<forall>j\<in>set (snd l). 1 \<le> j \<and> j \<le> int nchunks" by auto
  ultimately show ?thesis
    using CalcChunk_total [of nchunks "replicate n (Some ''-1'')" "replicate n ?o"] assms
    by auto
qed

text \<open>
  What a download relies on: while \<open>J\<close> holds of the network, every seeder has an address, accepts the
  connection, says that it has the whole file and sends the chunk that was asked for, cut into
  segments in any way, and the tracker can be told about the progress.
\<close>

locale honest_seeders =
  fixes N :: "'n net" and J :: "'n \<Rightarrow> bool" and fm :: filedata and s :: string
  assumes seeded: "J n \<Longrightarrow> seeders fm \<noteq> []"
    and port: "J n \<Longrightarrow> u \<in> set (seeders fm) \<Longrightarrow> \<exists>port. atoi (snd (detail_of fm u)) = Some port"
    and says: "J n \<Longrightarrow> u \<in> set (seeders fm) \<Longrightarrow> atoi (snd (detail_of fm u)) = Some port \<Longrightarrow>
      \<exists>segs n'. dial N (fst (detail_of fm u)) port (''chunk_numbers '' @ name fm) n = (Some segs, n') \<and>
        concat segs = ''-1'' \<and> J n'"
    and sends: "J n \<Longrightarrow> u \<in> set (seeders fm) \<Longrightarrow> atoi (snd (detail_of fm u)) = Some port \<Longrightarrow> k < 4096 \<Longrightarrow>
      \<exists>segs n'. dial N (fst (detail_of fm u)) port
          (send_chunk_message (groupname fm) (name fm) k (serverpath fm) u) n = (Some segs, n') \<and>
        concat segs = concat (chunk_blocks s (k * CHUNK_SIZE)) \<and> J n'"
    and started: "J n \<Longrightarrow> \<exists>n'. UpdateServer N fm n = Some n' \<and> J n'"
    and finished: "J n \<Longrightarrow> \<exists>n'. UpdateServerComplete N fm n = Some n' \<and> J n'"
begin

lemma DownloadKernel_honest:
  assumes J: "J n" and sha: "\<And>d. length (sha1 d) = 20"
    and hash: "hash fm = GetFileHash2 sha1 (Some s)" and k: "k < length (pieces CHUNK_SIZE s)" "k < 4096"
    and num: "0 \<le> num" "num < int (length (seeders fm))" and f: "arrived s ks f"
  shows "\<exists>f' n'. DownloadKernel N sha1 fm k num att (Some f) m n =
      Some (Some f', m(name fm \<mapsto> (case m (name fm) of None \<Rightarrow> [] | Some js \<Rightarrow> js) @ [k]), n') \<and>
    arrived s (insert k ks) f' \<and> J n'"
proof -
  have idx: "nat num < length (seeders fm)" using num by linarith
  define u where "u = seeders fm ! nat num"
  have u: "seeder_at fm num = Some u" "u \<in> set (seeders fm)"
    using num(1) idx by (simp_all add: seeder_at_def u_def)
  obtain port where port: "atoi (snd (detail_of fm u)) = Some port" using port [OF J u(2)] by blast
  obtain segs n1 where d: "dial N (fst (detail_of fm u)) port
      (send_chunk_message (groupname fm) (name fm) k (serverpath fm) u) n = (Some segs, n1)"
    "concat segs = concat (chunk_blocks s (k * CHUNK_SIZE))" "J n1"
    using sends [OF J u(2) port k(2)] by blast
  obtain n2 where n2: "(if k = 0 then UpdateServer N fm n1 else Some n1) = Some n2" "J n2"
    using started [OF d(3)] d(3) by (cases "k = 0") auto
  let ?f = "write_at f (k * CHUNK_SIZE) (recv_loop record_read segs (int CHUNK_SIZE))"
  note arr = chunk_arrives [OF d(2) f]
  have "GetFileHashsmall sha1 (Some ?f) k (hash fm) = Some True"
    using hash_slot [of sha1 k s] sha k(1) arr(2) hash GetFileHashsmall_eq [OF k(2), of "hash fm" sha1 ?f] by simp
  moreover have "int_range (int k * int CHUNK_SIZE) = Some (int (k * CHUNK_SIZE))" by (rule chunk_pos [OF k(2)])
  ultimately have "DownloadAttempt N sha1 fm k num att (Some f) m n =
      Some (Inl (Some ?f, m(name fm \<mapsto> (case m (name fm) of None \<Rightarrow> [] | Some js \<Rightarrow> js) @ [k]), n2))"
    using u(1) port d(1) n2(1) by (simp add: DownloadAttempt_def Let_def del: of_nat_mult)
  then show ?thesis using arr(1) n2(2) by (subst DownloadKernel.simps) auto
qed

lemma run_chunks_honest:
  assumes sha: "\<And>d. length (sha1 d) = 20" and hash: "hash fm = GetFileHash2 sha1 (Some s)"
    and "\<forall>(k, x)\<in>set plan. k < length (pieces CHUNK_SIZE s) \<and> k < 4096 \<and> 0 \<le> x \<and> x < int (length (seeders fm))"
    and "arrived s ks f" "J n"
  shows "\<exists>f' m' n'. run_chunks N sha1 fm plan (Some f) m n = Some (Some f', m', n') \<and>
    arrived s (ks \<union> fst ` set plan) f' \<and> J n' \<and>
    m' = (if plan = [] then m
          else m(name fm \<mapsto> (case m (name fm) of None \<Rightarrow> [] | Some js \<Rightarrow> js) @ map fst plan))"
  using assms(3-5)
proof (induction plan arbitrary: f m n ks)
  case Nil
  then show ?case by simp
next
  case (Cons p plan)
  obtain k x where p: "p = (k, x)" by fastforce
  have kx: "k < length (pieces CHUNK_SIZE s)" "k < 4096" "0 \<le> x" "x < int (length (seeders fm))"
    using Cons.prems(1) p by auto
  define m1 where "m1 = m(name fm \<mapsto> (case m (name fm) of None \<Rightarrow> [] | Some js \<Rightarrow> js) @ [k])"
  obtain f1 n1 where f1: "DownloadKernel N sha1 fm k x 0 (Some f) m n = Some (Some f1, m1, n1)"
    "arrived s (insert k ks) f1" "J n1"
    using DownloadKernel_honest [OF Cons.prems(3) sha hash kx Cons.prems(2)] unfolding m1_def by blast
  have rest: "\<forall>(k, x)\<in>set plan. k < length (pieces CHUNK_SIZE s) \<and> k < 4096 \<and>
      0 \<le> x \<and> x < int (length (seeders fm))"
    using Cons.prems(1) by auto
  obtain f' m' n' where f': "run_chunks N sha1 fm plan (Some f1) m1 n1 = Some (Some f', m', n')"
    "arrived s (insert k ks \<union> fst ` set plan) f'" "J n'"
    "m' = (if plan = [] then m1
          else m1(name fm \<mapsto> (case m1 (name fm) of None \<Rightarrow> [] | Some js \<Rightarrow> js) @ map fst plan))"
    using Cons.IH [OF rest f1(2,3), of m1] by blast
  have "m' = m(name fm \<mapsto> (case m (name fm) of None \<Rightarrow> [] | Some js \<Rightarrow> js) @ map fst (p # plan))"
    using f'(4) p by (simp add: m1_def split: if_splits)
  moreover have "insert k ks \<union> fst ` set plan = ks \<union> fst ` set (p # plan)" using p by auto
  moreover have "run_chunks N sha1 fm (p # plan) (Some f) m n = Some (Some f', m', n')"
    using f1(1) f'(1) p by simp
  ultimately show ?case using f'(2,3) by (intro exI conjI) auto
qed

lemma ask_chunks_honest:
  assumes "set us \<subseteq> set (seeders fm)" "J n"
  shows "\<exists>n'. ask_chunks N fm us n = Some (replicate (length us) (Some ''-1''), n') \<and> J n'"
  using assms
proof (induction us arbitrary: n)
  case (Cons u us)
  have u: "u \<in> set (seeders fm)" using Cons.prems(1) by simp
  obtain port where port: "atoi (snd (detail_of fm u)) = Some port" using port [OF Cons.prems(2) u] by blast
  obtain segs n1 where d: "dial N (fst (detail_of fm u)) port (''chunk_numbers '' @ name fm) n = (Some segs, n1)"
    "concat segs = ''-1''" "J n1"
    using says [OF Cons.prems(2) u port] by blast
  obtain n2 where "ask_chunks N fm us n1 = Some (replicate (length us) (Some ''-1''), n2)" "J n2"
    using Cons.IH [OF _ d(3)] Cons.prems(1) by auto
  then show ?case using port d by simp
qed simp

lemma GetChunks_honest:
  assumes few: "length (seeders fm) \<le> 16" and J: "J n" and sha: "\<And>d. length (sha1 d) = 20"
    and hash: "hash fm = GetFileHash2 sha1 (Some s)" and fsz: "fsize fm = nat_to_string (length s)"
    and len: "length s < 2 ^ 31" "length f = length s"
  shows "\<exists>n'. GetChunks N sha1 fm (Some f) m n =
    Some (Some s, m(name fm \<mapsto> [0..<length (pieces CHUNK_SIZE s)]), n') \<and> J n'"
proof -
  let ?c = "length (pieces CHUNK_SIZE s)" and ?u = "length (seeders fm)"
  have nch: "nchunks_of (fsize fm) = Some (int ?c)" using nchunks_of_pieces [OF len(1)] fsz by simp
  obtain n1 where n1: "ask_chunks N fm (seeders fm) n = Some (replicate ?u (Some ''-1''), n1)" "J n1"
    using ask_chunks_honest [OF subset_refl J] by blast
  obtain c where c: "CalcChunk ?c (replicate ?u (Some ''-1'')) = Some (False, c)"
    using CalcChunk_complete [of ?u ?c] few seeded [OF J] by auto
  let ?plan = "map (\<lambda>i. int (i mod ?u)) [0..<?c]"
  have plan: "plan_loop (False, c) (int ?u) [0..<?c] 0 = Some ?plan"
    using plan_round_robin [of ?u c 0 ?c] seeded [OF J] by simp
  have ok: "\<forall>(k, x)\<in>set (zip [0..<?c] ?plan). k < ?c \<and> k < 4096 \<and> 0 \<le> x \<and> x < int ?u"
    using seeded [OF J] pieces_4096 [OF len(1)] by (auto simp: set_zip)
  have "arrived s {} f" using len(2) by (simp add: arrived_def)
  then obtain f' m' n' where r: "run_chunks N sha1 fm (zip [0..<?c] ?plan) (Some f) (m(name fm \<mapsto> [])) n1 = Some (Some f', m', n')"
    "arrived s ({} \<union> fst ` set (zip [0..<?c] ?plan)) f'" "J n'"
    "m' = (if zip [0..<?c] ?plan = [] then m(name fm \<mapsto> [])
          else (m(name fm \<mapsto> []))(name fm \<mapsto> (case (m(name fm \<mapsto> [])) (name fm) of None \<Rightarrow> [] | Some js \<Rightarrow> js)
                 @ map fst (zip [0..<?c] ?plan)))"
    using run_chunks_honest [OF sha hash ok _ n1(2), of "{}" f "m(name fm \<mapsto> [])"] by blast
  have fsts: "map fst (zip [0..<?c] ?plan) = [0..<?c]" by simp
  then have "fst ` set (zip [0..<?c] ?plan) = {..<?c}" by (metis set_map set_upt atLeast0LessThan)
  then have "f' = s" using r(2) arrived_all by simp
  moreover have "m' = m(name fm \<mapsto> [0..<?c])" using r(4) fsts by (auto split: if_splits)
  ultimately show ?thesis using nch n1 c plan r(1,3) by (simp add: GetChunks_def)
qed

end


section \<open>The whole command\<close>

text \<open>The reply to \<open>give_seeders\<close>: the names and the size, each name followed by a blank.\<close>

lemma split_seeders:
  assumes "\<forall>u\<in>set us. sp \<notin> set u" "sp \<notin> set z"
  shows "split2 (concat (map (\<lambda>u. u @ [sp]) us) @ z) sp = us @ [z]"
  using assms by (induction us) (auto simp: split2_split split_str_sep split_str_last)

text \<open>
  The tracker's side of the command: while \<open>J0\<close> holds, its answers are those recorded in \<open>fm\<close>. The
  download itself may end \<open>J0\<close> (the peer becomes a seeder) but keeps \<open>J\<close>.
\<close>

locale honest_tracker = honest_seeders +
  fixes J0 :: "'a \<Rightarrow> bool"
  assumes ready: "J0 n \<Longrightarrow> J n"
    and told_hash: "J0 n \<Longrightarrow>
      \<exists>n'. ask N (join sp [''give_sha'', groupname fm, name fm, username fm]) n = (Reply (hash fm), n') \<and> J0 n'"
    and told_seeders: "J0 n \<Longrightarrow>
      \<exists>n'. ask N (join sp [''give_seeders'', groupname fm, name fm, username fm]) n =
        (Reply (concat (map (\<lambda>u. u @ [sp]) (seeders fm)) @ fsize fm), n') \<and> J0 n'"
    and told_details: "J0 n \<Longrightarrow> u \<in> set (seeders fm) \<Longrightarrow>
      \<exists>ip port n'. ask N (''give_details '' @ u) n = (Reply (join sp [ip, port]), n') \<and>
        details fm u = Some (ip, port) \<and> sp \<notin> set ip \<and> sp \<notin> set port \<and> J0 n'"
    and seeder_names: "J0 n \<Longrightarrow> u \<in> set (seeders fm) \<Longrightarrow> sp \<notin> set u"
    and only_seeders: "J0 n \<Longrightarrow> dom (details fm) = set (seeders fm)"
begin

lemma ask_details_ok:
  assumes "set us \<subseteq> set (seeders fm)" "J0 n"
  shows "\<exists>n'. ask_details N us out d n =
    Some (out, (\<lambda>u. if u \<in> set us then details fm u else d u), n') \<and> J0 n'"
  using assms
proof (induction us arbitrary: d n)
  case (Cons u us)
  obtain ip port n1 where d: "ask N (''give_details '' @ u) n = (Reply (join sp [ip, port]), n1)"
    "details fm u = Some (ip, port)" "sp \<notin> set ip" "sp \<notin> set port" "J0 n1"
    using told_details [OF Cons.prems(2), of u] Cons.prems(1) by auto
  have "split2 (join sp [ip, port]) sp = [ip, port]"
    using d split_str_join [of "[ip, port]" sp] by (simp add: split2_split)
  then have step: "ask_details N (u # us) out d n = ask_details N us out (d(u \<mapsto> (ip, port))) n1"
    using d(1) by (simp del: join.simps)
  obtain n2 where n2: "ask_details N us out (d(u \<mapsto> (ip, port))) n1 =
      Some (out, (\<lambda>v. if v \<in> set us then details fm v else (d(u \<mapsto> (ip, port))) v), n2)" "J0 n2"
    using Cons.IH [OF _ d(5), of "d(u \<mapsto> (ip, port))"] Cons.prems(1) by (meson set_subset_Cons subset_trans)
  have "(\<lambda>v. if v \<in> set us then details fm v else (d(u \<mapsto> (ip, port))) v) =
      (\<lambda>v. if v \<in> set (u # us) then details fm v else d v)"
    using d(2) by auto
  then show ?case using step n2 by simp
qed auto

lemma DownloadFile_honest:
  assumes few: "length (seeders fm) \<le> 16" and sha: "\<And>d. length (sha1 d) = 20"
    and s: "s \<noteq> []" "length s < 2 ^ 31" and J: "J0 n"
    and fm: "hash fm = GetFileHash2 sha1 (Some s)" "fsize fm = nat_to_string (length s)"
    and server: "ServerPath rows = Some (serverpath fm)"
  shows "\<exists>n'. DownloadFile N sha1 True rows (groupname fm) (name fm) (path fm) (username fm) m n =
    Some ([''Full file matched''], Some s, m(name fm := None), n') \<and> J n'"
proof -
  let ?out = "concat (map (\<lambda>u. u @ [sp]) (seeders fm)) @ fsize fm"
  have "0 < length (pieces CHUNK_SIZE s)" using s(1) by (simp add: pieces.simps [of _ s])
  then have h: "hash fm \<noteq> []"
    using hash_slot(1) [of sha1 0 s] length_chunk_hash [of sha1 "chunk_at s 0"] sha fm(1) by auto
  have "sp \<notin> set (fsize fm)" unfolding fm(2) by (rule token_sp) simp
  then have split: "split2 ?out sp = seeders fm @ [fsize fm]" using seeder_names [OF J] by (intro split_seeders) auto
  have out: "?out \<noteq> []" using fm(2) by simp
  obtain n1 where n1: "ask N (join sp [''give_sha'', groupname fm, name fm, username fm]) n = (Reply (hash fm), n1)" "J0 n1"
    using told_hash [OF J] by blast
  obtain n2 where n2: "ask N (join sp [''give_seeders'', groupname fm, name fm, username fm]) n1 = (Reply ?out, n2)" "J0 n2"
    using told_seeders [OF n1(2)] by blast
  have "details fm u = None" if "u \<notin> set (seeders fm)" for u
    using that only_seeders [OF J] domIff [of u "details fm"] by argo
  then have "(\<lambda>u. if u \<in> set (seeders fm) then details fm u else Map.empty u) = details fm"
    by (intro ext) simp
  then obtain n3 where n3: "ask_details N (seeders fm) [] Map.empty n2 = Some ([], details fm, n3)" "J0 n3"
    using ask_details_ok [OF subset_refl n2(2), of "[]" Map.empty] by auto
  have size: "atoi (fsize fm) = Some (int (length s))" unfolding fm(2) using s(2) by (intro atoi_nat_to_string) simp
  obtain n4 where n4: "GetChunks N sha1 fm (Some (replicate (length s) (CHR ''5''))) m n3 =
      Some (Some s, m(name fm \<mapsto> [0..<length (pieces CHUNK_SIZE s)]), n4)" "J n4"
    using GetChunks_honest [OF few ready [OF n3(2)] sha fm s(2), of "replicate (length s) (CHR ''5'')" m] by auto
  obtain n5 where n5: "UpdateServerComplete N fm n4 = Some n5" "J n5" using finished [OF n4(2)] by blast
  have self: "\<lparr>name = name fm, path = path fm, hash = hash fm, fsize = fsize fm, groupname = groupname fm,
    serverpath = serverpath fm, username = username fm, seeders = seeders fm, details = details fm\<rparr> = fm" by simp
  have "DownloadFile N sha1 True rows (groupname fm) (name fm) (path fm) (username fm) m n =
      Some ([MatchSHA sha1 (Some s) (hash fm)], Some s, m(name fm := None), n5)"
    using n1(1) h n2(1) out split n3(1) server size n4(1) n5(1)
    by (simp add: DownloadFile_def self del: join.simps)
  then show ?thesis using n5(2) fm(1) by (simp add: MatchSHA_def)
qed

end

end
