(* ===== verification/Peer_Client.thy ===== *)
theory Peer_Client
  imports Peer_Download
begin

text \<open>
  peer/peer.cpp: the commands a user types. Each request to the tracker is a function of its own, as
  in the source; \<open>run_command\<close> is the chain of branches of the loop in \<open>main\<close> and \<open>main_loop\<close> the
  loop. The state of the peer is the record \<open>session\<close>, with the ten strings of \<open>command_split\<close>, which
  are never cleared: \<open>operator>>\<close> leaves the old value when an argument is missing. \<open>None\<close> stands for
  \<open>exit(-1)\<close> and for undefined behaviour. Sockets and the local file system are parameters, in the
  record \<open>world\<close>. What goes to \<open>cerr\<close> is left out.
\<close>


section \<open>Definitions\<close>

record 'n world =
  online :: "string \<times> int \<Rightarrow> 'n \<Rightarrow> bool"
  talk :: "string \<times> int \<Rightarrow> string \<Rightarrow> 'n \<Rightarrow> contact \<times> 'n"
  call :: "string \<Rightarrow> int \<Rightarrow> string \<Rightarrow> 'n \<Rightarrow> string list option \<times> 'n"
  digest :: "string \<Rightarrow> string"
  tracker_rows :: "string list"
  creates :: "string \<Rightarrow> bool"
  myip :: string
  myport_i :: int

record session =
  me :: string
  login_flag :: bool
  command_split :: "string list"
  si_sp :: "string \<times> int"
  filechunks :: "string \<rightharpoonup> nat list"
  local :: "string \<rightharpoonup> string"

definition net_at :: "'n world \<Rightarrow> string \<times> int \<Rightarrow> 'n net" where
  "net_at W addr = \<lparr>dial = call W, ask = talk W addr\<rparr>"

subsection \<open>Requests to the tracker\<close>

text \<open>
  The body all requests share: connect or exit, handshake or give up, send, receive, copy the reply
  into \<open>output\<close>. The first form tests \<open>output[0]=='0'\<close>, the second prints \<open>output\<close>.
\<close>

definition request_bool :: "'n world \<Rightarrow> string \<times> int \<Rightarrow> string \<Rightarrow> 'n \<Rightarrow> (bool \<times> 'n) option" where
  "request_bool W server data n =
     (case talk W server data n of
        (ConnectFailed, n') \<Rightarrow> None
      | (HandshakeFailed, n') \<Rightarrow> Some (False, n')
      | (Reply output_str, n') \<Rightarrow> Some (hd (take 65534 output_str @ [CHR 0x00]) \<noteq> CHR ''0'', n'))"

definition request_text ::
  "'n world \<Rightarrow> string \<times> int \<Rightarrow> string \<Rightarrow> string \<Rightarrow> 'n \<Rightarrow> (string list \<times> 'n) option" where
  "request_text W server title data n =
     (case talk W server data n of
        (ConnectFailed, n') \<Rightarrow> None
      | (HandshakeFailed, n') \<Rightarrow> Some ([], n')
      | (Reply output_str, n') \<Rightarrow> Some ([title, [], c_buffer output_str, ''#####  #####''], n'))"

definition UserLogin_call ::
  "'n world \<Rightarrow> string \<times> int \<Rightarrow> string \<Rightarrow> string \<Rightarrow> 'n \<Rightarrow> (bool \<times> 'n) option" where
  "UserLogin_call W server user password n =
     request_bool W server (join sp [''login'', user, password, to_string (myport_i W), myip W]) n"

definition UserCreate_call ::
  "'n world \<Rightarrow> string \<times> int \<Rightarrow> string \<Rightarrow> string \<Rightarrow> 'n \<Rightarrow> (bool \<times> 'n) option" where
  "UserCreate_call W server user password n =
     request_bool W server (join sp [''create_user'', user, password, to_string (myport_i W), myip W]) n"

definition GroupCreate_call ::
  "'n world \<Rightarrow> string \<times> int \<Rightarrow> string \<Rightarrow> string \<Rightarrow> 'n \<Rightarrow> (bool \<times> 'n) option" where
  "GroupCreate_call W server grp user n =
     request_bool W server (join sp [''create_group'', grp, user]) n"

definition GroupList_call ::
  "'n world \<Rightarrow> string \<times> int \<Rightarrow> 'n \<Rightarrow> (string list \<times> 'n) option" where
  "GroupList_call W server n = request_text W server ''##### List of Groups #####'' ''list_groups'' n"

definition GroupJoin_call ::
  "'n world \<Rightarrow> string \<times> int \<Rightarrow> string \<Rightarrow> string \<Rightarrow> 'n \<Rightarrow> (bool \<times> 'n) option" where
  "GroupJoin_call W server grp user n =
     request_bool W server (join sp [''join_group'', grp, user]) n"

definition GroupRequestList_call ::
  "'n world \<Rightarrow> string \<times> int \<Rightarrow> string \<Rightarrow> string \<Rightarrow> 'n \<Rightarrow> (string list \<times> 'n) option" where
  "GroupRequestList_call W server grp user n =
     request_text W server ''##### List of Requests #####'' (join sp [''list_requests'', grp, user]) n"

definition GroupRequestFiles_call ::
  "'n world \<Rightarrow> string \<times> int \<Rightarrow> string \<Rightarrow> 'n \<Rightarrow> (string list \<times> 'n) option" where
  "GroupRequestFiles_call W server grp n =
     request_text W server ''##### List of Files #####'' (join sp [''list_files'', grp]) n"

definition GroupAcceptRequest_call ::
  "'n world \<Rightarrow> string \<times> int \<Rightarrow> string \<Rightarrow> string \<Rightarrow> string \<Rightarrow> 'n \<Rightarrow> (bool \<times> 'n) option" where
  "GroupAcceptRequest_call W server grp username1 user n =
     request_bool W server (join sp [''accept_request'', grp, username1, user]) n"

definition FileUpload_call ::
  "'n world \<Rightarrow> string \<times> int \<Rightarrow> string \<times> nat \<Rightarrow> string \<Rightarrow> string \<Rightarrow> string \<Rightarrow> string \<Rightarrow> 'n \<Rightarrow> (bool \<times> 'n) option" where
  "FileUpload_call W server file_metadata grp user filename filepath n =
     request_bool W server (join sp [''upload_file'', fst file_metadata, to_string (int (snd file_metadata)),
       grp, user, filename, filepath]) n"

definition GroupStopShare_call ::
  "'n world \<Rightarrow> string \<times> int \<Rightarrow> string \<Rightarrow> string \<Rightarrow> string \<Rightarrow> 'n \<Rightarrow> (bool \<times> 'n) option" where
  "GroupStopShare_call W server grp filename user n =
     request_bool W server (join sp [''stop_share'', grp, filename, user]) n"

definition GroupLeave_call ::
  "'n world \<Rightarrow> string \<times> int \<Rightarrow> string \<Rightarrow> string \<Rightarrow> 'n \<Rightarrow> (bool \<times> 'n) option" where
  "GroupLeave_call W server grp user n =
     request_bool W server (join sp [''leave_group'', grp, user]) n"

definition ShowDownloads_call ::
  "'n world \<Rightarrow> string \<times> int \<Rightarrow> string \<Rightarrow> 'n \<Rightarrow> (string list \<times> 'n) option" where
  "ShowDownloads_call W server user n =
     request_text W server ''##### List of Downloads #####'' (join sp [''show_downloads'', user]) n"

definition Logout_call ::
  "'n world \<Rightarrow> string \<times> int \<Rightarrow> string \<Rightarrow> 'n \<Rightarrow> (bool \<times> 'n) option" where
  "Logout_call W server user n = request_bool W server (join sp [''logout'', user]) n"

subsection \<open>The choice of a tracker\<close>

text \<open>
  \<open>CheckTracker\<close> tries every line of the tracker file and keeps the last address that accepts a
  connection in \<open>si\<close> and \<open>sp\<close>.
\<close>

fun CheckTracker ::
  "(string \<times> int \<Rightarrow> bool) \<Rightarrow> string list \<Rightarrow> bool \<times> string \<times> int \<Rightarrow> (bool \<times> string \<times> int) option" where
  "CheckTracker reachable [] r = Some r"
| "CheckTracker reachable (line # infile) (flag, server) =
     do {
       ip \<leftarrow> vec_at (split_str line sp) 0;
       p \<leftarrow> vec_at (split_str line sp) 1;
       port \<leftarrow> atoi p;
       CheckTracker reachable infile
         (if reachable (ip, port) then (True, ip, port) else (flag, server))
     }"

subsection \<open>The command loop\<close>

fun get_args :: "nat list \<Rightarrow> string \<Rightarrow> string list \<Rightarrow> string list" where
  "get_args [] rest cs = cs"
| "get_args (i # is) rest cs =
     (let (x, rest') = stream_get (cs ! i) rest in get_args is rest' (cs[i := x]))"

definition read_args :: "nat list \<Rightarrow> string \<Rightarrow> session \<Rightarrow> session" where
  "read_args is rest s = s\<lparr>command_split := get_args is rest (command_split s)\<rparr>"

definition arg :: "session \<Rightarrow> nat \<Rightarrow> string" where
  "arg s i = command_split s ! i"

text \<open>A branch that prints by the answer, and one that prints a list; both end with \<open>cout<<endl\<close>.\<close>

definition by_answer ::
  "string list \<Rightarrow> string list \<Rightarrow> session \<Rightarrow> (bool \<times> 'n) option \<Rightarrow> (string list \<times> session \<times> 'n) option" where
  "by_answer yes no s r = map_option (\<lambda>(ok, n'). ((if ok then yes else no) @ [[]], s, n')) r"

definition by_text ::
  "session \<Rightarrow> (string list \<times> 'n) option \<Rightarrow> (string list \<times> session \<times> 'n) option" where
  "by_text s r = map_option (\<lambda>(out, n'). (out @ [[]], s, n')) r"

definition logged_in ::
  "session \<Rightarrow> 'n \<Rightarrow> (string list \<times> session \<times> 'n) option \<Rightarrow> (string list \<times> session \<times> 'n) option" where
  "logged_in s n body = (if \<not> login_flag s then Some ([''Log in first''], s, n) else body)"

text \<open>\<open>login\<close> and \<open>create_user\<close>, which set \<open>login_flag\<close> and \<open>username\<close> from the answer.\<close>

definition sign_on ::
  "session \<Rightarrow> (bool \<times> 'n) option \<Rightarrow> (string list \<times> session \<times> 'n) option" where
  "sign_on s r =
     map_option (\<lambda>(ok, n'). ([if ok then ''Successful'' else ''Failed'', []],
       s\<lparr>login_flag := ok, me := (if ok then arg s 1 else me s)\<rparr>, n')) r"

definition upload_file ::
  "'n world \<Rightarrow> session \<Rightarrow> 'n \<Rightarrow> (string list \<times> session \<times> 'n) option" where
  "upload_file W s n =
     (let file_metadata = GetFileHash (digest W) (local s (arg s 1)) in
      if fst file_metadata = [] then Some ([''Cannot open file''], s, n)
      else by_answer [''Successful''] [''Invalid Request''] s
        (FileUpload_call W (si_sp s) file_metadata (arg s 2) (me s)
           (last (split_str (arg s 1) (CHR ''/''))) (arg s 1) n))"

definition download_file ::
  "'n world \<Rightarrow> session \<Rightarrow> 'n \<Rightarrow> (string list \<times> session \<times> 'n) option" where
  "download_file W s n =
     map_option (\<lambda>(out, file, m', n'). (out @ [[]],
       s\<lparr>filechunks := m',
         local := (case file of None \<Rightarrow> local s | Some f \<Rightarrow> (local s)(arg s 3 \<mapsto> f))\<rparr>, n'))
       (DownloadFile (net_at W (si_sp s)) (digest W) (creates W (arg s 3)) (tracker_rows W)
          (arg s 1) (arg s 2) (arg s 3) (me s) (filechunks s) n)"

definition log_out ::
  "'n world \<Rightarrow> session \<Rightarrow> 'n \<Rightarrow> (string list \<times> session \<times> 'n) option" where
  "log_out W s n =
     map_option (\<lambda>(ok, n'). ([if ok then ''Successful'' else ''Failed'', []],
       s\<lparr>login_flag := (if ok then False else login_flag s)\<rparr>, n'))
       (Logout_call W (si_sp s) (me s) n)"

definition run_command ::
  "'n world \<Rightarrow> string \<Rightarrow> session \<Rightarrow> 'n \<Rightarrow> (string list \<times> session \<times> 'n) option" where
  "run_command W rest s n =
     (let c = arg s 0; s1 = read_args [1] rest s; s2 = read_args [1, 2] rest s; s3 = read_args [1, 2, 3] rest s in
      if c = ''login'' then
        (if login_flag s then Some ([''Already Logged in''], s, n)
         else sign_on s2 (UserLogin_call W (si_sp s) (arg s2 1) (arg s2 2) n))
      else if c = ''create_user'' then
        (if login_flag s then Some ([''Already Logged in''], s, n)
         else sign_on s2 (UserCreate_call W (si_sp s) (arg s2 1) (arg s2 2) n))
      else logged_in s n
       (if c = ''create_group'' then
          by_answer [''Successful''] [''Failed''] s1 (GroupCreate_call W (si_sp s) (arg s1 1) (me s) n)
        else if c = ''list_groups'' then by_text s (GroupList_call W (si_sp s) n)
        else if c = ''join_group'' then
          by_answer [] [''Group Doesn'' @ [CHR 0x27] @ ''t exists''] s1
            (GroupJoin_call W (si_sp s) (arg s1 1) (me s) n)
        else if c = ''list_requests'' then
          by_text s1 (GroupRequestList_call W (si_sp s) (arg s1 1) (me s) n)
        else if c = ''accept_request'' then
          by_answer [''Successful''] [''Invalid Request''] s2
            (GroupAcceptRequest_call W (si_sp s) (arg s2 1) (arg s2 2) (me s) n)
        else if c = ''upload_file'' then upload_file W s2 n
        else if c = ''list_files'' then by_text s1 (GroupRequestFiles_call W (si_sp s) (arg s1 1) n)
        else if c = ''stop_share'' then
          by_answer [''Successful''] [''Invalid Request''] s2
            (GroupStopShare_call W (si_sp s) (arg s2 1) (arg s2 2) (me s) n)
        else if c = ''leave_group'' then
          by_answer [''Successful''] [''Invalid Request''] s1
            (GroupLeave_call W (si_sp s) (arg s1 1) (me s) n)
        else if c = ''download_file'' then download_file W s3 n
        else if c = ''show_downloads'' then by_text s (ShowDownloads_call W (si_sp s) (me s) n)
        else if c = ''logout'' then log_out W s n
        else Some ([''Invalid command'', []], s, n)))"

text \<open>One turn of the loop: \<open>None\<close> in the inner option for \<open>quit\<close>.\<close>

definition main_turn ::
  "'n world \<Rightarrow> string \<Rightarrow> session \<Rightarrow> 'n \<Rightarrow> (string list \<times> session \<times> 'n) option option" where
  "main_turn W command s n =
     (let (c, rest) = stream_get (arg s 0) command; s0 = s\<lparr>command_split := (command_split s)[0 := c]\<rparr> in
      if c = ''quit'' then Some None
      else do {
        (up, server) \<leftarrow> CheckTracker (\<lambda>a. online W a n) (tracker_rows W) (False, si_sp s);
        let s' = s0\<lparr>si_sp := server\<rparr>;
        if \<not> up then Some (Some ([''No tracker online''], s', n))
        else map_option Some (run_command W rest s' n)
      })"

text \<open>
  The loop over the lines of the standard input that end with a newline; at its end the peer goes on
  serving chunks, in the state reached.
\<close>

fun main_loop ::
  "'n world \<Rightarrow> string list \<Rightarrow> session \<Rightarrow> 'n \<Rightarrow> (string list \<times> session \<times> 'n) option" where
  "main_loop W [] s n = Some ([], s, n)"
| "main_loop W (command # cin) s n =
     (case main_turn W command s n of
        None \<Rightarrow> None
      | Some None \<Rightarrow> Some ([], s, n)
      | Some (Some (out, s', n')) \<Rightarrow>
          map_option (\<lambda>(outs, s'', n''). (out @ outs, s'', n'')) (main_loop W cin s' n'))"

definition fresh_session :: "(string \<rightharpoonup> string) \<Rightarrow> session" where
  "fresh_session files = \<lparr>me = [], login_flag = False, command_split = replicate 10 [], si_sp = ([], 0),
     filechunks = Map.empty, local = files\<rparr>"


section \<open>Requests\<close>

lemma request_bool_Reply:
  "talk W server data n = (Reply x, n') \<Longrightarrow>
     request_bool W server data n = Some (x = [] \<or> hd x \<noteq> CHR ''0'', n')"
  by (cases x) (auto simp: request_bool_def)

lemmas bool_calls = UserLogin_call_def UserCreate_call_def GroupCreate_call_def GroupJoin_call_def
  GroupAcceptRequest_call_def FileUpload_call_def GroupStopShare_call_def GroupLeave_call_def Logout_call_def

lemmas text_calls = GroupList_call_def GroupRequestList_call_def GroupRequestFiles_call_def ShowDownloads_call_def


section \<open>The choice of a tracker\<close>

definition tracker_addr :: "string \<Rightarrow> (string \<times> int) option" where
  "tracker_addr line =
     do { ip \<leftarrow> vec_at (split_str line sp) 0; p \<leftarrow> vec_at (split_str line sp) 1; port \<leftarrow> atoi p; Some (ip, port) }"

lemma CheckTracker_filter:
  assumes "map_opt tracker_addr infile = Some as"
  shows "CheckTracker reachable infile (flag, d) =
    Some (if filter reachable as = [] then (flag, d) else (True, last (filter reachable as)))"
  using assms
proof (induction infile arbitrary: as flag d)
  case (Cons line infile)
  obtain ip port as' where a: "tracker_addr line = Some (ip, port)" "map_opt tracker_addr infile = Some as'"
    "as = (ip, port) # as'"
    using Cons.prems by (auto simp: bind_Some_conv)
  have "CheckTracker reachable (line # infile) (flag, d) =
      CheckTracker reachable infile (if reachable (ip, port) then (True, ip, port) else (flag, d))"
    using a(1) by (auto simp: tracker_addr_def bind_Some_conv)
  then show ?case using Cons.IH [OF a(2)] a(3) by auto
qed simp


section \<open>Arguments\<close>

lemma length_get_args [simp]: "length (get_args is rest cs) = length cs"
  by (induction "is" rest cs rule: get_args.induct) (auto simp: Let_def case_prod_unfold)

lemma get_args_0: "0 \<notin> set is \<Longrightarrow> get_args is rest cs ! 0 = cs ! 0"
  by (induction "is" rest cs rule: get_args.induct) (auto simp: Let_def case_prod_unfold)

lemma get_args_nil [simp]: "get_args is [] cs = cs"
  by (induction "is" arbitrary: cs) auto

lemma stream_get_spaces: "\<forall>c\<in>set x. is_space c \<Longrightarrow> stream_get old x = (old, [])"
  by (simp add: stream_get_def dropWhile_eq_Nil_conv)

lemma get_args_spaces: "\<forall>c\<in>set rest. is_space c \<Longrightarrow> get_args is rest cs = cs"
  by (cases "is") (simp_all add: stream_get_spaces)

lemma read_args_simps [simp]:
  "me (read_args is rest s) = me s" "login_flag (read_args is rest s) = login_flag s"
  "si_sp (read_args is rest s) = si_sp s" "filechunks (read_args is rest s) = filechunks s"
  "local (read_args is rest s) = local s"
  "length (command_split (read_args is rest s)) = length (command_split s)"
  by (simp_all add: read_args_def)

text \<open>Words that are already in \<open>command_split\<close>, read again or not read at all, change nothing.\<close>

lemma get_args_same:
  assumes "\<forall>w\<in>set ws. token w \<and> w \<noteq> []" "\<forall>j<length ws. ws ! j = cs ! (i + j)"
  shows "get_args [i..<i + m] (join sp ws) cs = cs \<and> get_args [i..<i + m] (sp # join sp ws) cs = cs"
  using assms
proof (induction m arbitrary: i ws)
  case (Suc m)
  have upt: "[i..<i + Suc m] = i # [Suc i..<Suc i + m]" by (simp add: upt_conv_Cons del: upt_Suc)
  show ?case
  proof (cases ws)
    case (Cons w ws')
    have w: "token w" "w \<noteq> []" "cs ! i = w" using Suc.prems Cons by auto
    have "\<forall>j<length ws'. ws' ! j = cs ! (Suc i + j)" using Suc.prems(2) Cons by auto
    then have ih: "get_args [Suc i..<Suc i + m] (join sp ws') cs = cs \<and>
        get_args [Suc i..<Suc i + m] (sp # join sp ws') cs = cs"
      using Suc.prems(1) Cons by (intro Suc.IH) auto
    have same: "cs[i := w] = cs" using w(3) by auto
    show ?thesis
    proof (cases ws')
      case Nil
      then show ?thesis using w same Cons unfolding upt by simp
    next
      case (Cons v vs)
      then have "join sp ws = w @ sp # join sp ws'" using \<open>ws = w # ws'\<close> by simp
      then show ?thesis using w same ih unfolding upt by simp
    qed
  qed (auto intro!: get_args_spaces simp: is_space_def)
qed simp

text \<open>
  A blank line is the previous command again, and so is any prefix of it: the words \<open>ws\<close> that are
  left out are taken from \<open>command_split\<close>.
\<close>

lemma main_turn_stale:
  assumes "\<forall>c\<in>set blank. is_space c" "0 < k" "k \<le> length (command_split s)"
    "\<forall>w\<in>set (take k (command_split s)). token w \<and> w \<noteq> []"
  shows "main_turn W blank s n = main_turn W (join sp (take k (command_split s))) s n"
proof -
  let ?cs = "command_split s"
  obtain c ws where ws: "take k ?cs = c # ws" using assms(2,3) by (cases "take k ?cs") auto
  have c: "c = ?cs ! 0" "token c" "c \<noteq> []" using ws assms(2,4) nth_take [of 0 k ?cs] by simp_all
  have nth: "\<forall>j<length ws. ws ! j = ?cs ! (1 + j)"
  proof (intro allI impI)
    fix j assume "j < length ws"
    then have "take k ?cs ! Suc j = ws ! j" "Suc j < k" using ws assms(3) by (simp, metis Suc_less_eq length_Cons length_take min.absorb2)
    then show "ws ! j = ?cs ! (1 + j)" by simp
  qed
  have tok: "\<forall>w\<in>set ws. token w \<and> w \<noteq> []" using ws assms(4) by simp
  obtain rest where rest: "stream_get (arg s 0) (join sp (c # ws)) = (c, rest)"
    "rest = [] \<or> rest = sp # join sp ws"
    using c by (cases ws) auto
  have "get_args [1..<1 + m] rest ?cs = ?cs" for m
    using rest(2) get_args_same [OF tok nth, of m] by auto
  from this [of 1] this [of 2] this [of 3]
  have same: "get_args [1] rest ?cs = ?cs" "get_args [1, 2] rest ?cs = ?cs" "get_args [1, 2, 3] rest ?cs = ?cs"
    by (simp_all add: upt_rec [of 1] upt_rec [of 2] upt_rec [of 3] numeral_2_eq_2 numeral_3_eq_3)
  have "run_command W rest t n = run_command W [] t n" if "command_split t = ?cs" for t
    using same that by (simp add: run_command_def Let_def read_args_def)
  then show ?thesis
    using rest(1) c(1) ws stream_get_spaces [OF assms(1), of "arg s 0"]
    by (simp add: main_turn_def Let_def arg_def cong: if_cong)
qed


section \<open>The session\<close>

text \<open>Without a login only \<open>login\<close> and \<open>create_user\<close> reach the tracker.\<close>

lemma run_command_needs_login:
  "\<not> login_flag s \<Longrightarrow> arg s 0 \<noteq> ''login'' \<Longrightarrow> arg s 0 \<noteq> ''create_user'' \<Longrightarrow>
     run_command W rest s n = Some ([''Log in first''], s, n)"
  by (simp add: run_command_def Let_def logged_in_def)

text \<open>
  The session as a state machine: the user changes only with an accepted \<open>login\<close> or \<open>create_user\<close>
  that names the new user, and the session ends only with an accepted \<open>logout\<close>.
\<close>

definition session_step :: "'n world \<Rightarrow> session \<Rightarrow> 'n \<Rightarrow> session \<Rightarrow> 'n \<Rightarrow> bool" where
  "session_step W s n s' n' \<longleftrightarrow>
     login_flag s' = login_flag s \<and> me s' = me s \<or>
     \<not> login_flag s \<and> login_flag s' \<and>
       (\<exists>v\<in>{''login'', ''create_user''}. \<exists>pw.
          request_bool W (si_sp s') (join sp [v, me s', pw, to_string (myport_i W), myip W]) n = Some (True, n')) \<or>
     login_flag s \<and> \<not> login_flag s' \<and> me s' = me s \<and>
       request_bool W (si_sp s') (join sp [''logout'', me s]) n = Some (True, n')"

lemma by_answer_session:
  "by_answer yes no s r = Some (out, s', n') \<Longrightarrow> s' = s"
  "by_text s q = Some (out, s', n') \<Longrightarrow> s' = s"
  by (auto simp: by_answer_def by_text_def)

lemma file_commands_session:
  "upload_file W s n = Some (out, s', n') \<Longrightarrow> s' = s"
  "download_file W s n = Some (out, s', n') \<Longrightarrow>
     login_flag s' = login_flag s \<and> me s' = me s \<and> command_split s' = command_split s"
  by (auto simp: upload_file_def download_file_def Let_def by_answer_session split: if_splits)

lemma sign_on_session:
  assumes "sign_on s (request_bool W (si_sp s) (join sp [v, arg s 1, pw, to_string (myport_i W), myip W]) n) =
      Some (out, s', n')"
    "v \<in> {''login'', ''create_user''}" "\<not> login_flag s"
  shows "session_step W s n s' n'"
  using assms by (auto simp: sign_on_def session_step_def simp del: join.simps)

lemma log_out_session:
  "log_out W s n = Some (out, s', n') \<Longrightarrow> login_flag s \<Longrightarrow> session_step W s n s' n'"
  by (auto simp: log_out_def Logout_call_def session_step_def split: if_splits simp del: join.simps)

lemma run_command_session:
  assumes "run_command W rest s n = Some (out, s', n')"
  shows "session_step W s n s' n' \<and> length (command_split s') = length (command_split s)"
proof -
  let ?s1 = "read_args [1] rest s" and ?s2 = "read_args [1, 2] rest s" and ?s3 = "read_args [1, 2, 3] rest s"
  have same: "session_step W s n t n'" if "login_flag t = login_flag s" "me t = me s" for t
    using that by (simp add: session_step_def)
  consider (login) "arg s 0 = ''login''" "\<not> login_flag s" | (create) "arg s 0 = ''create_user''" "\<not> login_flag s"
    | (out) "arg s 0 = ''logout''" "login_flag s" | (get) "arg s 0 = ''download_file''" "login_flag s" | (kept) "s' \<in> {s, ?s1, ?s2}"
    using assms unfolding run_command_def Let_def logged_in_def
    by (auto dest: by_answer_session file_commands_session split: if_splits)
  then show ?thesis
  proof cases
    case login
    then have r: "sign_on ?s2 (request_bool W (si_sp ?s2)
        (join sp [''login'', arg ?s2 1, arg ?s2 2, to_string (myport_i W), myip W]) n) = Some (out, s', n')"
      using assms by (simp add: run_command_def Let_def UserLogin_call_def del: join.simps)
    have "session_step W ?s2 n s' n'" by (rule sign_on_session [OF r]) (use login in simp_all)
    moreover have "length (command_split s') = length (command_split s)" using r by (auto simp: sign_on_def)
    ultimately show ?thesis by (simp add: session_step_def)
  next
    case create
    then have r: "sign_on ?s2 (request_bool W (si_sp ?s2)
        (join sp [''create_user'', arg ?s2 1, arg ?s2 2, to_string (myport_i W), myip W]) n) = Some (out, s', n')"
      using assms by (simp add: run_command_def Let_def UserCreate_call_def del: join.simps)
    have "session_step W ?s2 n s' n'" by (rule sign_on_session [OF r]) (use create in simp_all)
    moreover have "length (command_split s') = length (command_split s)" using r by (auto simp: sign_on_def)
    ultimately show ?thesis by (simp add: session_step_def)
  next
    case out
    then have r: "log_out W s n = Some (out, s', n')" using assms by (simp add: run_command_def Let_def logged_in_def)
    then have "command_split s' = command_split s" by (auto simp: log_out_def)
    then show ?thesis using log_out_session [OF r out(2)] by simp
  next
    case get
    then have "download_file W ?s3 n = Some (out, s', n')" using assms by (simp add: run_command_def Let_def logged_in_def)
    then show ?thesis using file_commands_session(2) [of W ?s3 n out s' n'] same [of s'] by simp
  next
    case kept
    then show ?thesis using same [of s'] by auto
  qed
qed

lemma main_turn_session:
  assumes "main_turn W c s n = Some (Some (out, s', n'))"
  shows "session_step W s n s' n' \<and> length (command_split s') = length (command_split s)"
proof -
  obtain w rest where w: "stream_get (arg s 0) c = (w, rest)" by fastforce
  obtain up server where up: "CheckTracker (\<lambda>a. online W a n) (tracker_rows W) (False, si_sp s) = Some (up, server)"
    using assms w by (auto simp: main_turn_def bind_Some_conv split: if_splits)
  let ?s = "s\<lparr>command_split := (command_split s)[0 := w], si_sp := server\<rparr>"
  show ?thesis
  proof (cases up)
    case True
    then have "run_command W rest ?s n = Some (out, s', n')"
      using assms w up by (auto simp: main_turn_def split: if_splits)
    then show ?thesis using run_command_session [of W rest ?s n out s' n'] by (simp add: session_step_def)
  next
    case False
    then have "s' = ?s" using assms w up by (auto simp: main_turn_def split: if_splits)
    then show ?thesis by (simp add: session_step_def)
  qed
qed

end
