(* ===== verification/Peer_Threads.thy ===== *)
theory Peer_Threads
  imports Peer_Download
begin

text \<open>
  The chunk threads of a download, interleaved. \<open>GetChunks\<close> runs \<open>DownloadKernel\<close> in one thread per
  chunk; the threads share the destination file, \<open>filechunks_map\<close> and the network. A state has the
  point each thread is at, and a step is one thread moving on: a connection, a part of the received
  bytes reaching the file, the message to the tracker, the check of the chunk. Bytes are written in
  parts of any length, since \<open>fwrite\<close> buffers. The chunk threads one after the other, as in
  \<open>Peer_Download\<close>, are one of the interleavings.
\<close>


section \<open>Definitions\<close>

text \<open>
  Where a thread is: before a connection to a seeder (with the attempts so far), with received bytes
  still to be written from a position on, before the check of its chunk, or gone.
\<close>

datatype phase = Ask int nat | Store int nat nat string | Verify int nat | Ended

record 'n pool =
  dest :: string
  announced :: "string \<rightharpoonup> nat list"
  net_state :: 'n
  thread :: "nat \<rightharpoonup> phase"

definition start_pool :: "(nat \<times> int) list \<Rightarrow> string \<Rightarrow> (string \<rightharpoonup> nat list) \<Rightarrow> 'n \<Rightarrow> 'n pool" where
  "start_pool plan f m n =
     \<lparr>dest = f, announced = m, net_state = n, thread = map_of (map (\<lambda>(k, x). (k, Ask x 0)) plan)\<rparr>"

inductive kernel_step :: "'n net \<Rightarrow> (string \<Rightarrow> string) \<Rightarrow> filedata \<Rightarrow> 'n pool \<Rightarrow> 'n pool \<Rightarrow> bool"
  for N sha1 fm where
  refused: "thread st k = Some (Ask num att) \<Longrightarrow> seeder_at fm num = Some u \<Longrightarrow>
    atoi (snd (detail_of fm u)) = Some port \<Longrightarrow>
    dial N (fst (detail_of fm u)) port (send_chunk_message (groupname fm) (name fm) k (serverpath fm) u)
      (net_state st) = (None, n') \<Longrightarrow>
    kernel_step N sha1 fm st (st\<lparr>net_state := n', thread := (thread st)(k \<mapsto>
      if att + 1 \<ge> length (seeders fm) then Ended
      else Ask ((num + 1) mod int (length (seeders fm))) (att + 1))\<rparr>)"
| connected: "thread st k = Some (Ask num att) \<Longrightarrow> seeder_at fm num = Some u \<Longrightarrow>
    atoi (snd (detail_of fm u)) = Some port \<Longrightarrow>
    dial N (fst (detail_of fm u)) port (send_chunk_message (groupname fm) (name fm) k (serverpath fm) u)
      (net_state st) = (Some segments, n') \<Longrightarrow>
    int_range (int k * int CHUNK_SIZE1) = Some pos \<Longrightarrow>
    kernel_step N sha1 fm st (st\<lparr>net_state := n', thread := (thread st)(k \<mapsto>
      Store num att (nat pos) (recv_loop record_read segments (int CHUNK_SIZE1)))\<rparr>)"
| stored: "thread st k = Some (Store num att pos d) \<Longrightarrow> 0 < j \<Longrightarrow> j \<le> length d \<Longrightarrow>
    kernel_step N sha1 fm st (st\<lparr>dest := write_at (dest st) pos (take j d),
      thread := (thread st)(k \<mapsto> Store num att (pos + j) (drop j d))\<rparr>)"
| closed: "thread st k = Some (Store num att pos []) \<Longrightarrow>
    (if k = 0 then UpdateServer N fm (net_state st) else Some (net_state st)) = Some n' \<Longrightarrow>
    kernel_step N sha1 fm st (st\<lparr>net_state := n', thread := (thread st)(k \<mapsto> Verify num att)\<rparr>)"
| mismatch: "thread st k = Some (Verify num att) \<Longrightarrow>
    GetFileHashsmall sha1 (Some (dest st)) k (hash fm) = Some False \<Longrightarrow>
    kernel_step N sha1 fm st (st\<lparr>thread := (thread st)(k \<mapsto> Ask num att)\<rparr>)"
| matched: "thread st k = Some (Verify num att) \<Longrightarrow>
    GetFileHashsmall sha1 (Some (dest st)) k (hash fm) = Some True \<Longrightarrow>
    kernel_step N sha1 fm st (st\<lparr>announced := (announced st)(name fm \<mapsto>
        (case announced st (name fm) of None \<Rightarrow> [] | Some ks \<Rightarrow> ks) @ [k]),
      thread := (thread st)(k \<mapsto> Ended)\<rparr>)"

lemmas kernel_connects = kernel_step.connected [unfolded same_sizes]

text \<open>The bytes of chunk \<open>k\<close> before position \<open>q\<close> are right.\<close>

definition right_upto :: "string \<Rightarrow> string \<Rightarrow> nat \<Rightarrow> nat \<Rightarrow> bool" where
  "right_upto s f k q \<longleftrightarrow> (\<forall>p<length s. k * CHUNK_SIZE \<le> p \<and> p < q \<longrightarrow> f ! p = s ! p)"

fun phase_ok :: "filedata \<Rightarrow> string \<Rightarrow> string \<Rightarrow> nat \<Rightarrow> phase \<Rightarrow> bool" where
  "phase_ok fm s f k (Ask num att) \<longleftrightarrow> 0 \<le> num \<and> num < int (length (seeders fm))"
| "phase_ok fm s f k (Store num att pos d) \<longleftrightarrow> 0 \<le> num \<and> num < int (length (seeders fm)) \<and>
     k * CHUNK_SIZE \<le> pos \<and> pos + length d \<le> length s \<and> d = take (length d) (drop pos s) \<and>
     min (length s) (k * CHUNK_SIZE + CHUNK_SIZE) \<le> pos + length d \<and> right_upto s f k pos"
| "phase_ok fm s f k (Verify num att) \<longleftrightarrow> 0 \<le> num \<and> num < int (length (seeders fm)) \<and>
     right_upto s f k (k * CHUNK_SIZE + CHUNK_SIZE)"
| "phase_ok fm s f k Ended \<longleftrightarrow> right_upto s f k (k * CHUNK_SIZE + CHUNK_SIZE)"

definition pool_ok :: "('n \<Rightarrow> bool) \<Rightarrow> filedata \<Rightarrow> string \<Rightarrow> 'n pool \<Rightarrow> bool" where
  "pool_ok J fm s st \<longleftrightarrow>
     J (net_state st) \<and> length (dest st) = length s \<and> finite (dom (thread st)) \<and>
     (\<forall>k ph. thread st k = Some ph \<longrightarrow>
        k < length (pieces CHUNK_SIZE s) \<and> k < 4096 \<and> phase_ok fm s (dest st) k ph) \<and>
     (\<exists>ks. announced st (name fm) = Some ks \<and> distinct ks \<and> set ks = {k. thread st k = Some Ended})"

fun phase_weight :: "phase \<Rightarrow> nat" where
  "phase_weight (Ask num att) = CHUNK_SIZE + SMALL_CHUNK_SIZE1 + 3"
| "phase_weight (Store num att pos d) = length d + 2"
| "phase_weight (Verify num att) = 1"
| "phase_weight Ended = 0"

definition pool_weight :: "'n pool \<Rightarrow> nat" where
  "pool_weight st = (\<Sum>k\<in>dom (thread st). phase_weight (the (thread st k)))"

definition all_ended :: "'n pool \<Rightarrow> bool" where
  "all_ended st \<longleftrightarrow> ran (thread st) \<subseteq> {Ended}"


section \<open>The threads in sequence\<close>

text \<open>One pass of \<open>DownloadKernel\<close> is a run of its thread alone.\<close>

lemma store_all:
  assumes "thread st k = Some (Store num att pos d)"
  shows "(kernel_step N sha1 fm)\<^sup>*\<^sup>* st (st\<lparr>dest := write_at (dest st) pos d,
    thread := (thread st)(k \<mapsto> Store num att (pos + length d) [])\<rparr>)"
proof (cases "d = []")
  case True
  then have "(thread st)(k \<mapsto> Store num att pos []) = thread st" using assms by auto
  then show ?thesis using True by (simp add: write_at_def)
next
  case False
  then show ?thesis using stored [OF assms, of "length d" N sha1 fm] by auto
qed

text \<open>Where the thread of a chunk is after one pass of the loop.\<close>

definition after_pass :: "nat \<Rightarrow> (string option \<times> (string \<rightharpoonup> nat list) \<times> 'n) + (int \<times> nat \<times> string option \<times> 'n) \<Rightarrow> 'n pool \<Rightarrow> 'n pool" where
  "after_pass k r st =
     (case r of
        Inl (file, m, n) \<Rightarrow> st\<lparr>dest := the file, announced := m, net_state := n, thread := (thread st)(k \<mapsto> Ended)\<rparr>
      | Inr (num, att, file, n) \<Rightarrow> st\<lparr>dest := the file, net_state := n, thread := (thread st)(k \<mapsto> Ask num att)\<rparr>)"

lemma pool_swap: "(st :: 'n pool)\<lparr>net_state := n, announced := m\<rparr> = st\<lparr>announced := m, net_state := n\<rparr>"
  by simp

lemma attempt_is_run:
  assumes th: "thread st k = Some (Ask num att)"
    and ret: "DownloadAttempt N sha1 fm k num att (Some (dest st)) (announced st) (net_state st) = Some r"
  shows "(kernel_step N sha1 fm)\<^sup>*\<^sup>* st (after_pass k r st)"
  using ret
proof (cases rule: DownloadAttempt_cases)
  case (refused u port n')
  have "kernel_step N sha1 fm st (after_pass k r st)"
    using kernel_step.refused [OF th refused(1-3), of sha1] refused(4)
    by (auto simp: after_pass_def split: if_splits)
  then show ?thesis by blast
next
  case (data u port segs n' n'' pos f ok)
  let ?d = "recv_loop record_read segs (int CHUNK_SIZE)"
  let ?w = "write_at (dest st) (nat pos) ?d"
  define s1 where "s1 = st\<lparr>net_state := n', thread := (thread st)(k \<mapsto> Store num att (nat pos) ?d)\<rparr>"
  define s2 where "s2 = s1\<lparr>dest := ?w, thread := (thread s1)(k \<mapsto> Store num att (nat pos + length ?d) [])\<rparr>"
  define s3 where "s3 = s2\<lparr>net_state := n'', thread := (thread s2)(k \<mapsto> Verify num att)\<rparr>"
  have "kernel_step N sha1 fm st s1"
    unfolding s1_def by (rule kernel_connects [OF th data(1-3,6)])
  also have "(kernel_step N sha1 fm)\<^sup>*\<^sup>* s1 s2"
    using store_all [of s1 k num att "nat pos" ?d N sha1 fm] by (simp add: s1_def s2_def)
  also have "kernel_step N sha1 fm s2 s3"
    unfolding s3_def using data(5) by (intro closed, simp add: s2_def, cases "k = 0") (simp_all add: s2_def s1_def)
  also have "kernel_step N sha1 fm s3 (after_pass k r st)"
  proof (cases ok)
    case True
    then show ?thesis
      using matched [of s3 k num att sha1 fm N] data(4,7,8)
      by (simp add: s3_def s2_def s1_def after_pass_def pool_swap)
  next
    case False
    then show ?thesis
      using mismatch [of s3 k num att sha1 fm N] data(4,7,8)
      by (simp add: s3_def s2_def s1_def after_pass_def)
  qed
  finally show ?thesis .
qed

lemma kernel_is_run:
  fixes N :: "'n net"
  assumes ret: "DownloadKernel N sha1 fm k num att (Some f) m n = Some (file', m', n')"
    and "thread st k = Some (Ask num att)" "dest st = f" "announced st = m" "net_state st = n"
  shows "\<exists>f'. file' = Some f' \<and> (kernel_step N sha1 fm)\<^sup>*\<^sup>* st
    (st\<lparr>dest := f', announced := m', net_state := n', thread := (thread st)(k \<mapsto> Ended)\<rparr>)"
proof -
  let ?P = "\<lambda>N sha1 fm k num att file m n y. \<forall>st. file \<noteq> None \<longrightarrow> thread st k = Some (Ask num att) \<longrightarrow>
    file = Some (dest st) \<longrightarrow> announced st = m \<longrightarrow> net_state st = n \<longrightarrow>
    fst y \<noteq> None \<and> (kernel_step N sha1 fm)\<^sup>*\<^sup>* st (st\<lparr>dest := the (fst y), announced := fst (snd y),
      net_state := snd (snd y), thread := (thread st)(k \<mapsto> Ended)\<rparr>)"
  have "?P N sha1 fm k num att (Some f) m n (file', m', n')"
  proof (rule DownloadKernel.raw_induct [where P = ?P, OF _ ret], goal_cases)
    case (1 K N sha1 fm k num att fl m n y)
    from 1(2) obtain r where r: "DownloadAttempt N sha1 fm k num att fl m n = Some r"
      "(case r of Inl y \<Rightarrow> Some y | Inr (num', att', fl', n') \<Rightarrow> K N sha1 fm k num' att' fl' m n') = Some y"
      by (auto simp: bind_Some_conv)
    have some: "(case r of Inl z \<Rightarrow> fst z \<noteq> None | Inr (num', att', fl', n') \<Rightarrow> fl' \<noteq> None)" if "fl \<noteq> None"
      using r(1) that by (cases rule: DownloadAttempt_cases) auto
    show ?case
    proof (intro allI impI)
      fix st :: "'n pool"
      assume st: "fl \<noteq> None" "thread st k = Some (Ask num att)" "fl = Some (dest st)" "announced st = m" "net_state st = n"
      note pass = attempt_is_run [OF st(2), of N sha1 fm r]
      show "fst y \<noteq> None \<and> (kernel_step N sha1 fm)\<^sup>*\<^sup>* st (st\<lparr>dest := the (fst y), announced := fst (snd y),
        net_state := snd (snd y), thread := (thread st)(k \<mapsto> Ended)\<rparr>)"
      proof (cases r)
        case (Inl z)
        then show ?thesis using r pass some st by (cases z) (auto simp: after_pass_def)
      next
        case (Inr z)
        obtain num' att' fl' n' where z: "z = (num', att', fl', n')" by (cases z)
        then obtain f' where f': "fl' = Some f'" using some st(1) Inr by auto
        let ?st = "st\<lparr>dest := f', net_state := n', thread := (thread st)(k \<mapsto> Ask num' att')\<rparr>"
        have one: "(kernel_step N sha1 fm)\<^sup>*\<^sup>* st ?st"
          using pass r(1) st Inr z f' by (simp add: after_pass_def)
        have "K N sha1 fm k num' att' fl' m n' = Some y" using r(2) Inr z by simp
        from 1(1) [OF this, rule_format, of ?st] show ?thesis
          using one st f' by (auto intro: rtranclp_trans)
      qed
    qed
  qed
  then show ?thesis using assms(2-5) by auto
qed

text \<open>The chunk threads in the order of their creation are one interleaving.\<close>

lemma chunks_are_run:
  assumes "run_chunks N sha1 fm plan (Some f) m n = Some (file', m', n')" "distinct (map fst plan)"
    "dest st = f" "announced st = m" "net_state st = n"
    "\<forall>(k, x)\<in>set plan. thread st k = Some (Ask x 0)"
  shows "\<exists>f'. file' = Some f' \<and> (kernel_step N sha1 fm)\<^sup>*\<^sup>* st
    (st\<lparr>dest := f', announced := m', net_state := n',
       thread := (\<lambda>k. if k \<in> fst ` set plan then Some Ended else thread st k)\<rparr>)"
  using assms
proof (induction plan arbitrary: f m n st)
  case Nil
  then show ?case by auto
next
  case (Cons p plan)
  obtain k x where p: "p = (k, x)" by fastforce
  obtain file1 m1 n1 where d: "DownloadKernel N sha1 fm k x 0 (Some f) m n = Some (file1, m1, n1)"
    and rest: "run_chunks N sha1 fm plan file1 m1 n1 = Some (file', m', n')"
    using Cons.prems(1) p by (auto simp: bind_Some_conv)
  obtain f1 where f1: "file1 = Some f1" and one: "(kernel_step N sha1 fm)\<^sup>*\<^sup>* st
      (st\<lparr>dest := f1, announced := m1, net_state := n1, thread := (thread st)(k \<mapsto> Ended)\<rparr>)"
    using kernel_is_run [OF d] Cons.prems p by auto
  let ?st = "st\<lparr>dest := f1, announced := m1, net_state := n1, thread := (thread st)(k \<mapsto> Ended)\<rparr>"
  have "\<forall>(j, y)\<in>set plan. thread ?st j = Some (Ask y 0)" using Cons.prems(2,6) p by force
  then obtain f' where f': "file' = Some f'" "(kernel_step N sha1 fm)\<^sup>*\<^sup>* ?st
      (?st\<lparr>dest := f', announced := m', net_state := n',
         thread := (\<lambda>j. if j \<in> fst ` set plan then Some Ended else thread ?st j)\<rparr>)"
    using Cons.IH [of f1 m1 n1 ?st] rest f1 Cons.prems(2) by auto
  have "(\<lambda>j. if j \<in> fst ` set plan then Some Ended else thread ?st j) =
      (\<lambda>j. if j \<in> fst ` set (p # plan) then Some Ended else thread st j)"
    using p by (auto simp: fun_eq_iff)
  then show ?case using rtranclp_trans [OF one f'(2)] f'(1) by simp
qed


section \<open>Every interleaving\<close>

lemma step_dom: "kernel_step N sha1 fm st st' \<Longrightarrow> dom (thread st') = dom (thread st)"
  by (induction rule: kernel_step.induct) (auto split: if_splits)

lemma run_dom: "(kernel_step N sha1 fm)\<^sup>*\<^sup>* st st' \<Longrightarrow> dom (thread st') = dom (thread st)"
  by (induction rule: rtranclp_induct) (simp_all add: step_dom)

lemma start_fields [simp]:
  "dest (start_pool plan f m n) = f" "announced (start_pool plan f m n) = m"
  "net_state (start_pool plan f m n) = n" "dom (thread (start_pool plan f m n)) = fst ` set plan"
  by (simp_all add: start_pool_def dom_map_of_conv_image_fst image_image case_prod_unfold)

lemma start_thread: "thread (start_pool plan f m n) k = Some ph \<Longrightarrow> \<exists>x. (k, x) \<in> set plan \<and> ph = Ask x 0"
  by (auto simp: start_pool_def dest!: map_of_SomeD)

lemma right_upto_mono:
  "right_upto s f k q \<Longrightarrow> (\<And>p. p < length s \<Longrightarrow> f ! p = s ! p \<Longrightarrow> f' ! p = s ! p) \<Longrightarrow> right_upto s f' k q"
  by (simp add: right_upto_def)

lemma phase_ok_mono:
  assumes "phase_ok fm s f k ph" "\<And>p. p < length s \<Longrightarrow> f ! p = s ! p \<Longrightarrow> f' ! p = s ! p"
  shows "phase_ok fm s f' k ph"
  using assms by (cases ph) (auto intro: right_upto_mono)

text \<open>Writing bytes of the file where they belong makes nothing wrong that was right.\<close>

lemma write_right:
  assumes "length f = length s" "pos + length d \<le> length s" "d = take (length d) (drop pos s)"
  shows "length (write_at f pos d) = length s"
    "\<And>p. p < length s \<Longrightarrow> f ! p = s ! p \<or> pos \<le> p \<and> p < pos + length d \<Longrightarrow> write_at f pos d ! p = s ! p"
proof -
  have fit: "pos + length d \<le> length f" using assms by simp
  show "length (write_at f pos d) = length s" using write_at_nth(1) [OF fit] assms(1) by simp
  fix p assume p: "p < length s" "f ! p = s ! p \<or> pos \<le> p \<and> p < pos + length d"
  have "d ! (p - pos) = s ! p" if "pos \<le> p" "p < pos + length d"
  proof -
    have "d ! (p - pos) = take (length d) (drop pos s) ! (p - pos)" using assms(3) by simp
    also have "\<dots> = s ! p" using that p(1) by (subst nth_take) auto
    finally show ?thesis .
  qed
  then show "write_at f pos d ! p = s ! p"
    using write_at_nth(2) [OF fit, of p] assms(1) p by auto
qed

lemma pool_okD:
  assumes "pool_ok J fm s st"
  shows "J (net_state st)" "length (dest st) = length s" "announced st (name fm) \<noteq> None"
    "thread st k = Some ph \<Longrightarrow> k < length (pieces CHUNK_SIZE s)" "thread st k = Some ph \<Longrightarrow> k < 4096"
    "thread st k = Some ph \<Longrightarrow> phase_ok fm s (dest st) k ph"
  using assms by (auto simp: pool_ok_def)

text \<open>What the invariant asks of the step of one thread.\<close>

lemma pool_move:
  assumes ok: "pool_ok J fm s st" and th: "thread st k = Some ph"
    and new: "J n'" "length f' = length s" "\<And>p. p < length s \<Longrightarrow> dest st ! p = s ! p \<Longrightarrow> f' ! p = s ! p"
      "phase_ok fm s f' k ph'" "phase_weight ph' < phase_weight ph"
      "m' = (if ph' = Ended then (announced st)(name fm \<mapsto> the (announced st (name fm)) @ [k]) else announced st)"
  defines "st' \<equiv> st\<lparr>dest := f', announced := m', net_state := n', thread := (thread st)(k \<mapsto> ph')\<rparr>"
  shows "pool_ok J fm s st'" "pool_weight st' < pool_weight st"
proof -
  obtain ks where ks: "announced st (name fm) = Some ks" "distinct ks" "set ks = {k. thread st k = Some Ended}"
    using ok by (auto simp: pool_ok_def)
  have live: "ph \<noteq> Ended" using new(5) by auto
  have "\<exists>ks. announced st' (name fm) = Some ks \<and> distinct ks \<and> set ks = {k. thread st' k = Some Ended}"
  proof (cases "ph' = Ended")
    case True
    then have "announced st' (name fm) = Some (ks @ [k])" "{j. thread st' j = Some Ended} = insert k (set ks)"
      using new(6) ks(1,3) by (auto simp: st'_def)
    moreover have "k \<notin> set ks" using ks(3) th live by simp
    ultimately show ?thesis using ks(2) by simp
  next
    case False
    then have "announced st' (name fm) = Some ks" "{j. thread st' j = Some Ended} = set ks"
      using new(6) ks(1,3) th live by (auto simp: st'_def)
    then show ?thesis using ks(2) by simp
  qed
  moreover have "j < length (pieces CHUNK_SIZE s) \<and> j < 4096 \<and> phase_ok fm s f' j q" if "thread st' j = Some q" for j q
  proof (cases "j = k")
    case True
    then show ?thesis using that new(4) ok th by (auto simp: st'_def pool_ok_def)
  next
    case False
    then have "thread st j = Some q" using that by (simp add: st'_def)
    then show ?thesis using ok new(3) by (auto simp: pool_ok_def intro: phase_ok_mono)
  qed
  ultimately show "pool_ok J fm s st'" using ok new(1,2) by (simp add: pool_ok_def st'_def)
  have dom: "finite (dom (thread st))" "k \<in> dom (thread st)" "dom (thread st') = dom (thread st)"
    using ok th by (auto simp: pool_ok_def st'_def)
  have "(\<Sum>j\<in>dom (thread st) - {k}. phase_weight (the (thread st' j))) =
      (\<Sum>j\<in>dom (thread st) - {k}. phase_weight (the (thread st j)))"
    by (intro sum.cong) (auto simp: st'_def)
  then show "pool_weight st' < pool_weight st"
    using new(5) th dom by (simp add: pool_weight_def sum.remove [OF dom(1,2)] st'_def)
qed

text \<open>
  Honest seeders, the hash that was registered for the file they have, and a file the positions of
  which fit into an \<open>int\<close>.
\<close>

locale honest_threads = honest_seeders +
  fixes sha1 :: "string \<Rightarrow> string"
  assumes digest_length: "J n \<Longrightarrow> length (sha1 d) = 20"
    and registered_hash: "J n \<Longrightarrow> hash fm = GetFileHash2 sha1 (Some s)"
begin

lemma seeder_dials:
  assumes "J n" "0 \<le> num" "num < int (length (seeders fm))" "k < 4096"
  obtains u port segs n' where "seeder_at fm num = Some u" "atoi (snd (detail_of fm u)) = Some port"
    "dial N (fst (detail_of fm u)) port
       (send_chunk_message (groupname fm) (name fm) k (serverpath fm) u) n = (Some segs, n')"
    "concat segs = concat (chunk_blocks s (k * CHUNK_SIZE))" "J n'"
proof -
  define u where "u = seeders fm ! nat num"
  have u: "seeder_at fm num = Some u" "u \<in> set (seeders fm)"
    using assms(2,3) by (auto simp: seeder_at_def u_def nat_less_iff)
  obtain port where port: "atoi (snd (detail_of fm u)) = Some port" using port [OF assms(1) u(2)] by blast
  then show thesis using sends [OF assms(1) u(2) port assms(4)] that u(1) by blast
qed

text \<open>What is received, before it is written.\<close>

lemma received:
  assumes segs: "concat segs = concat (chunk_blocks s (k * CHUNK_SIZE))" and k: "k < length (pieces CHUNK_SIZE s)"
    and num: "0 \<le> num" "num < int (length (seeders fm))"
  defines "d \<equiv> recv_loop record_read segs (int CHUNK_SIZE)"
  shows "phase_ok fm s f k (Store num att (k * CHUNK_SIZE) d)" "length d < CHUNK_SIZE + SMALL_CHUNK_SIZE1"
proof -
  let ?pos = "k * CHUNK_SIZE"
  have pos: "?pos < length s"
  proof -
    have "pieces CHUNK_SIZE s ! k \<noteq> []" using pieces_bound nth_mem [OF k] by blast
    then have "take CHUNK_SIZE (drop ?pos s) \<noteq> []" using pieces_nth [OF _ k] by simp
    then show ?thesis by auto
  qed
  obtain j where j: "d = take j (concat segs)" "j \<le> length (concat segs)" "min CHUNK_SIZE (length (concat segs)) \<le> j"
    "j < CHUNK_SIZE + SMALL_CHUNK_SIZE1"
    using record_stream.recv_loop_bytes [of segs CHUNK_SIZE] d_def by blast
  have b: "concat segs = take (CHUNK_SIZE + SMALL_CHUNK_SIZE1) (drop ?pos s)" using segs chunk_blocks_bytes by simp
  have d: "d = take j (drop ?pos s)" "length d = j" using j(1,2,4) b by (auto simp: min_def split: if_splits)
  show "length d < CHUNK_SIZE + SMALL_CHUNK_SIZE1" using d j(4) by simp
  show "phase_ok fm s f k (Store num att ?pos d)"
    using num d j(2,3) b pos by (auto simp: right_upto_def min_def split: if_splits)
qed

lemma check_passes:
  assumes "J n" "k < length (pieces CHUNK_SIZE s)" "k < 4096" "length f = length s"
    "right_upto s f k (k * CHUNK_SIZE + CHUNK_SIZE)"
  shows "GetFileHashsmall sha1 (Some f) k (hash fm) = Some True"
proof -
  have "chunk_at f k = chunk_at s k"
  proof (rule nth_equalityI)
    show "length (chunk_at f k) = length (chunk_at s k)" using assms(4) by (simp add: chunk_at_def)
    fix j assume "j < length (chunk_at f k)"
    then have "j < CHUNK_SIZE \<and> k * CHUNK_SIZE + j < length s" using assms(4) by (auto simp: chunk_at_def)
    then show "chunk_at f k ! j = chunk_at s k ! j" using assms(4,5) by (simp add: chunk_at_def right_upto_def)
  qed
  moreover have "\<And>d. length (sha1 d) = 20" by (rule digest_length [OF assms(1)])
  ultimately show ?thesis
    using hash_slot [of sha1 k s] assms(2,3) registered_hash [OF assms(1)] GetFileHashsmall_eq [of k "hash fm" sha1 f] by simp
qed

text \<open>A thread that is still going can move, and whatever it does keeps the invariant.\<close>

lemma step_keeps:
  assumes ok: "pool_ok J fm s st" and "kernel_step N sha1 fm st st'"
  shows "pool_ok J fm s st' \<and> pool_weight st' < pool_weight st"
  using assms(2)
proof cases
  case (refused k num att u port n')
  have num: "J (net_state st)" "0 \<le> num" "num < int (length (seeders fm))" "k < 4096"
    using pool_okD(1) [OF ok] pool_okD(5,6) [OF ok refused(2)] by simp_all
  show ?thesis by (rule seeder_dials [OF num]) (use refused in auto)
next
  case (connected k num att u port segs n' pos)
  have th: "J (net_state st)" "0 \<le> num" "num < int (length (seeders fm))" "k < 4096" "k < length (pieces CHUNK_SIZE s)"
    using pool_okD(1) [OF ok] pool_okD(4-6) [OF ok connected(2)] by simp_all
  have "concat segs = concat (chunk_blocks s (k * CHUNK_SIZE)) \<and> J n'"
    by (rule seeder_dials [OF th(1-4)]) (use connected(3-5) in auto)
  then have segs: "concat segs = concat (chunk_blocks s (k * CHUNK_SIZE))" and J: "J n'" by simp_all
  note rec = received(1) [OF segs th(5,2,3), where f = "dest st" and att = att] received(2) [OF segs th(5,2,3)]
  have "nat pos = k * CHUNK_SIZE" using connected(6) chunk_pos [OF th(4)] by (simp only: same_sizes option.inject nat_int)
  then show ?thesis
    using pool_move [OF ok connected(2) J pool_okD(2) [OF ok] _ rec(1), where m' = "announced st"] rec(2) connected(1)
    by simp
next
  case (stored k num att pos d j)
  let ?d = "take j d" and ?r = "drop j d"
  note ph = pool_okD(6) [OF ok stored(2)]
  have part: "pos + length ?d \<le> length s" "?d = take (length ?d) (drop pos s)" "?r = take (length ?r) (drop (pos + j) s)"
  proof -
    have d: "d = take (length d) (drop pos s)" "pos + length d \<le> length s" using ph by simp_all
    show "pos + length ?d \<le> length s" using d(2) stored(4) by simp
    show "?d = take (length ?d) (drop pos s)" using stored(4) by (subst (1) d(1)) simp
    show "?r = take (length ?r) (drop (pos + j) s)"
      by (subst (1) d(1)) (simp add: drop_take add.commute)
  qed
  note wr = write_right [OF pool_okD(2) [OF ok] part(1,2)]
  have "right_upto s (write_at (dest st) pos ?d) k (pos + j)"
    unfolding right_upto_def
  proof (intro allI impI)
    fix p assume p: "p < length s" "k * CHUNK_SIZE \<le> p \<and> p < pos + j"
    then have "dest st ! p = s ! p \<or> pos \<le> p \<and> p < pos + length ?d"
      using ph stored(4) by (cases "pos \<le> p") (simp_all add: right_upto_def)
    then show "write_at (dest st) pos ?d ! p = s ! p" by (rule wr(2) [OF p(1)])
  qed
  then have next_ok: "phase_ok fm s (write_at (dest st) pos ?d) k (Store num att (pos + j) ?r)"
    using ph part(3) [symmetric] stored(4) by simp
  have "write_at (dest st) pos ?d ! p = s ! p" if "p < length s" "dest st ! p = s ! p" for p
    using wr(2) that by blast
  from pool_move [OF ok stored(2) pool_okD(1) [OF ok] wr(1) this next_ok, where m' = "announced st"]
  show ?thesis using stored(1,3,4) by simp
next
  case (closed k num att pos n')
  note J = pool_okD(1) [OF ok]
  have "J n'" using closed(3) started [OF J] J by (cases "k = 0") auto
  moreover have "phase_ok fm s (dest st) k (Verify num att)"
    using pool_okD(6) [OF ok closed(2)] by (auto simp: right_upto_def)
  ultimately show ?thesis
    using pool_move [OF ok closed(2) _ pool_okD(2) [OF ok], of n' "Verify num att" "announced st"] closed(1) by simp
next
  case (mismatch k num att)
  then show ?thesis
    using check_passes [OF pool_okD(1) [OF ok] pool_okD(4,5) [OF ok mismatch(2)] pool_okD(2) [OF ok]]
      pool_okD(6) [OF ok mismatch(2)] by simp
next
  case (matched k num att)
  have "phase_ok fm s (dest st) k Ended" using pool_okD(6) [OF ok matched(2)] by simp
  then show ?thesis
    using pool_move [OF ok matched(2) pool_okD(1,2) [OF ok], of Ended "announced st'"] pool_okD(3) [OF ok] matched(1)
    by auto
qed

lemma some_step:
  assumes ok: "pool_ok J fm s st" and "\<not> all_ended st"
  shows "\<exists>st'. kernel_step N sha1 fm st st'"
proof -
  obtain k ph where th: "thread st k = Some ph" "ph \<noteq> Ended" using assms(2) by (auto simp: all_ended_def ran_def)
  have J: "J (net_state st)" "length (dest st) = length s" and k: "k < length (pieces CHUNK_SIZE s)" "k < 4096"
    "phase_ok fm s (dest st) k ph"
    using pool_okD(1,2) [OF ok] pool_okD(4-6) [OF ok th(1)] by simp_all
  show ?thesis
  proof (cases ph)
    case (Ask num att)
    then have num: "0 \<le> num" "num < int (length (seeders fm))" using k(3) by auto
    obtain u port segs n' where "seeder_at fm num = Some u" "atoi (snd (detail_of fm u)) = Some port"
      "dial N (fst (detail_of fm u)) port
         (send_chunk_message (groupname fm) (name fm) k (serverpath fm) u) (net_state st) = (Some segs, n')"
      by (rule seeder_dials [OF J(1) num k(2)])
    then show ?thesis using kernel_connects [OF th(1) [unfolded Ask] _ _ _ chunk_pos [OF k(2)]] by blast
  next
    case (Store num att pos d)
    then show ?thesis
    proof (cases d)
      case Nil
      obtain n' where "(if k = 0 then UpdateServer N fm (net_state st) else Some (net_state st)) = Some n'"
        using started [OF J(1)] by (cases "k = 0") auto
      then show ?thesis using closed [OF th(1) [unfolded Store Nil]] by blast
    next
      case (Cons c cs)
      then show ?thesis using stored [of st k num att pos d "length d"] th(1) Store by blast
    qed
  next
    case (Verify num att)
    then show ?thesis using matched [OF _ check_passes [OF J(1) k(1,2) J(2)]] k(3) th(1) by auto
  qed (simp add: th(2))
qed

end

sublocale honest_threads \<subseteq> progress "kernel_step N sha1 fm" "pool_ok J fm s" pool_weight all_ended
  using step_keeps some_step by unfold_locales blast+

context honest_threads
begin

text \<open>When all threads have ended the file is complete and every chunk is announced once.\<close>

lemma ended_complete:
  assumes "pool_ok J fm s st" "all_ended st" "dom (thread st) = {..<length (pieces CHUNK_SIZE s)}"
  shows "dest st = s \<and> (\<exists>ks. announced st (name fm) = Some ks \<and> distinct ks \<and> set ks = {..<length (pieces CHUNK_SIZE s)})"
proof
  have all: "{k. thread st k = Some Ended} = dom (thread st)"
    using assms(2) by (auto simp: all_ended_def ran_def)
  then show "\<exists>ks. announced st (name fm) = Some ks \<and> distinct ks \<and> set ks = {..<length (pieces CHUNK_SIZE s)}"
    using assms(1,3) by (auto simp: pool_ok_def)
  have "dest st ! p = s ! p" if "p < length s" "p div CHUNK_SIZE < length (pieces CHUNK_SIZE s)" for p
  proof -
    let ?k = "p div CHUNK_SIZE"
    have "thread st ?k = Some Ended" using all assms(3) that(2) by auto
    then have "phase_ok fm s (dest st) ?k Ended" using assms(1) unfolding pool_ok_def by blast
    then have "right_upto s (dest st) ?k (?k * CHUNK_SIZE + CHUNK_SIZE)" by simp
    moreover have "?k * CHUNK_SIZE \<le> p" "p < ?k * CHUNK_SIZE + CHUNK_SIZE"
      using div_mult_mod_eq [of p CHUNK_SIZE] mod_less_divisor [OF CHUNK_SIZE_pos(1), of p] by linarith+
    ultimately show ?thesis using that(1) by (simp add: right_upto_def)
  qed
  then have "arrived s {..<length (pieces CHUNK_SIZE s)} (dest st)"
    using assms(1) by (simp add: arrived_def pool_ok_def)
  then show "dest st = s" by (rule arrived_all)
qed

lemma start_ok:
  assumes "J n" "length f = length s" "length s < 2 ^ 31" "fst ` set plan = {..<length (pieces CHUNK_SIZE s)}"
    "\<forall>(k, x)\<in>set plan. 0 \<le> x \<and> x < int (length (seeders fm))"
  shows "pool_ok J fm s (start_pool plan f (m(name fm \<mapsto> [])) n)"
proof -
  have "length (pieces CHUNK_SIZE s) \<le> 4096" using pieces_4096 [OF assms(3)] .
  then have "k < length (pieces CHUNK_SIZE s) \<and> k < 4096 \<and> 0 \<le> x \<and> x < int (length (seeders fm))"
    if "(k, x) \<in> set plan" for k x
    using that assms(4,5) by (metis (no_types, lifting) case_prodD fst_conv imageI lessThan_iff less_le_trans)
  then show ?thesis
    using assms(1,2) start_thread [of plan f "m(name fm \<mapsto> [])" n]
    unfolding pool_ok_def by (fastforce simp del: fun_upd_apply simp: fun_upd_same)
qed

text \<open>The three facts about a download with interleaved threads: it stops, and where it stops it is complete.\<close>

lemma interleavings_deliver:
  fixes m
  assumes "J n" "length f = length s" "length s < 2 ^ 31" "fst ` set plan = {..<length (pieces CHUNK_SIZE s)}"
    "\<forall>(k, x)\<in>set plan. 0 \<le> x \<and> x < int (length (seeders fm))"
  defines "st0 \<equiv> start_pool plan f (m(name fm \<mapsto> [])) n"
  shows "g 0 = st0 \<Longrightarrow> \<exists>i. \<not> kernel_step N sha1 fm (g i) (g (Suc i))"
    "(kernel_step N sha1 fm)\<^sup>*\<^sup>* st0 st \<Longrightarrow> (\<And>st'. \<not> kernel_step N sha1 fm st st') \<Longrightarrow>
      dest st = s \<and> (\<exists>ks. announced st (name fm) = Some ks \<and> distinct ks \<and> set ks = {..<length (pieces CHUNK_SIZE s)})"
proof -
  have ok: "pool_ok J fm s st0" unfolding st0_def by (rule start_ok [OF assms(1-5)])
  show "\<exists>i. \<not> kernel_step N sha1 fm (g i) (g (Suc i))" if "g 0 = st0" using run_ends [of g] that ok by blast
  assume run: "(kernel_step N sha1 fm)\<^sup>*\<^sup>* st0 st" and stuck: "\<And>st'. \<not> kernel_step N sha1 fm st st'"
  have inv: "pool_ok J fm s st" by (rule reach_inv [OF run ok])
  moreover have "all_ended st" using moves [OF inv] stuck by blast
  moreover have "dom (thread st) = {..<length (pieces CHUNK_SIZE s)}"
    using run_dom [OF run] assms(4) by (simp add: st0_def)
  ultimately show "dest st = s \<and>
      (\<exists>ks. announced st (name fm) = Some ks \<and> distinct ks \<and> set ks = {..<length (pieces CHUNK_SIZE s)})"
    by (rule ended_complete)
qed

end

end
