(* ===== verification/Swarm.thy ===== *)
theory Swarm
  imports Tracker_Runs Peer_Client Peer_Threads
begin

text \<open>
  The peers and the tracker put together. The network of a peer is made of the models themselves: an
  exchange with a tracker is \<open>TrackerKernel\<close> on the framed message, an exchange with another peer is
  \<open>ClientServerKernel\<close> on the files of that peer, which in turn asks the tracker. The contracts of the
  download (\<open>honest_seeders\<close>, \<open>honest_threads\<close>, \<open>honest_tracker\<close>) are interpreted on this network.
\<close>


section \<open>Definitions\<close>

text \<open>
  One exchange of a peer with the tracker: a tracker that sends no reply just closes the connection;
  one that ends in undefined behaviour is gone.
\<close>

definition tracker_ask :: "env \<Rightarrow> string \<Rightarrow> tracker \<Rightarrow> contact \<times> tracker" where
  "tracker_ask E msg t =
     (case TrackerKernel True E record_read (wire msg) t of
        None \<Rightarrow> (ConnectFailed, t)
      | Some (None, t') \<Rightarrow> (Reply [], t')
      | Some (Some r, t') \<Rightarrow> (Reply (fst (TLSRecvMsg record_read (wire r))), t'))"

definition tracker_at :: "env \<Rightarrow> (string \<times> int \<Rightarrow> bool) \<Rightarrow> string \<times> int \<Rightarrow> string \<Rightarrow> tracker \<Rightarrow> contact \<times> tracker" where
  "tracker_at E up addr msg t = (if up addr then tracker_ask E msg t else (ConnectFailed, t))"

text \<open>The other peers: the files each of them has and what it is downloading itself.\<close>

record host =
  served :: "string \<rightharpoonup> string"
  progress :: "string \<rightharpoonup> nat list"

definition peer_dial ::
  "env \<Rightarrow> (string \<times> int \<Rightarrow> bool) \<Rightarrow> (string \<times> int \<rightharpoonup> host) \<Rightarrow> string \<Rightarrow> int \<Rightarrow> string \<Rightarrow> tracker \<Rightarrow>
     string list option \<times> tracker" where
  "peer_dial E up hosts ip port msg t =
     (case hosts (ip, port) of
        None \<Rightarrow> (None, t)
      | Some h \<Rightarrow>
          (case ClientServerKernel up (tracker_at E up) (served h) (progress h) msg t of
             None \<Rightarrow> (Some [], t)
           | Some (blocks, t') \<Rightarrow> (Some blocks, t')))"

record place =
  env_of :: env
  up_at :: "string \<times> int \<Rightarrow> bool"
  hosts_of :: "string \<times> int \<rightharpoonup> host"

definition swarm_net :: "place \<Rightarrow> string \<times> int \<Rightarrow> tracker net" where
  "swarm_net P addr = \<lparr>dial = peer_dial (env_of P) (up_at P) (hosts_of P), ask = tracker_at (env_of P) (up_at P) addr\<rparr>"

definition swarm_world ::
  "place \<Rightarrow> (string \<Rightarrow> string) \<Rightarrow> string list \<Rightarrow> (string \<Rightarrow> bool) \<Rightarrow> string \<Rightarrow> int \<Rightarrow> tracker world" where
  "swarm_world P sha1 rows creatable ip port =
     \<lparr>online = (\<lambda>a t. up_at P a), talk = tracker_at (env_of P) (up_at P),
      call = peer_dial (env_of P) (up_at P) (hosts_of P),
      digest = sha1, tracker_rows = rows, creates = creatable, myip = ip, myport_i = port\<rparr>"

lemma net_at_swarm [simp]: "net_at (swarm_world P sha1 rows cr ip port) addr = swarm_net P addr"
  by (simp add: net_at_def swarm_world_def swarm_net_def)

subsection \<open>What a download needs of the swarm\<close>

definition fits :: "string \<Rightarrow> bool" where
  "fits x \<longleftrightarrow> length x \<le> MAX_MSG_SIZE"

text \<open>A path the answer to \<open>send_full_path\<close> carries whole through the buffer of the peer.\<close>

definition plain :: "string \<Rightarrow> bool" where
  "plain x \<longleftrightarrow> CHR 0x00 \<notin> set x \<and> length x < 65535"

definition file_of :: "swarm \<Rightarrow> string \<Rightarrow> string \<Rightarrow> string \<Rightarrow> entry option" where
  "file_of a u g n = find (\<lambda>e. e_group e = g \<and> e_name e = n) (library a u)"

text \<open>Seeder \<open>u\<close> runs a peer at the address the tracker gives out, and that peer has the file.\<close>

definition seeds :: "place \<Rightarrow> filedata \<Rightarrow> string \<Rightarrow> swarm \<Rightarrow> string \<Rightarrow> bool" where
  "seeds P fm s a u \<longleftrightarrow>
     (\<exists>ip port p h e. details fm u = Some (ip, port) \<and> atoi port = Some p \<and> hosts_of P (ip, p) = Some h \<and>
        progress h (name fm) = None \<and> file_of a u (groupname fm) (name fm) = Some e \<and>
        plain (e_path e) \<and> served h (e_path e) = Some s)"

text \<open>The names in a download are usable, and so are the two trackers of the tracker file.\<close>

definition usable :: "place \<Rightarrow> string \<times> int \<Rightarrow> filedata \<Rightarrow> bool" where
  "usable P addr fm \<longleftrightarrow>
     up_at P addr \<and> seeders fm \<noteq> [] \<and>
     (\<forall>r\<in>set ([GiveSha (groupname fm) (name fm) (username fm), GiveSeeders (groupname fm) (name fm) (username fm),
           AddFile (groupname fm) (name fm) (path fm) (username fm),
           Complete (groupname fm) (name fm) (path fm) (username fm)] @
         map GiveDetails (seeders fm) @
         map (\<lambda>u. SendFullPath u (groupname fm) (name fm)) (seeders fm)). benign r \<and> fits (message r)) \<and>
     (\<exists>ip1 p1 ip2 p2 port1 port2.
        serverpath fm = join sp [ip1, p1, ip2, p2] \<and> (\<forall>x\<in>set [ip1, p1, ip2, p2]. sp \<notin> set x) \<and>
        atoi p1 = Some port1 \<and> atoi p2 = Some port2 \<and> (up_at P (ip1, port1) \<or> up_at P (ip2, port2)))"

definition serving :: "place \<Rightarrow> string \<times> int \<Rightarrow> filedata \<Rightarrow> string \<Rightarrow> tracker \<Rightarrow> bool" where
  "serving P addr fm s t \<longleftrightarrow>
     swarm_inv t \<and> usable P addr fm \<and> (\<forall>u\<in>set (seeders fm). seeds P fm s (view (disk t)) u)"

text \<open>The tracker knows of the file what is in \<open>fm\<close>.\<close>

definition listed :: "filedata \<Rightarrow> swarm \<Rightarrow> bool" where
  "listed fm a \<longleftrightarrow>
     has_member a (groupname fm) (username fm) \<and>
     (\<exists>sh. find (\<lambda>s. s_name s = name fm) (shares a (groupname fm)) = Some sh \<and> s_hash sh = hash fm) \<and>
     finite (seeders_of a (groupname fm) (name fm)) \<and>
     sorted_list_of_set (seeders_of a (groupname fm) (name fm)) = seeders fm \<and>
     size_of a (groupname fm) (name fm) = fsize fm \<and>
     (\<forall>u\<in>set (seeders fm). \<exists>ip port. addresses a u = Some (ip, port) \<and> details fm u = Some (ip, port) \<and>
        sp \<notin> set ip \<and> sp \<notin> set port \<and> fits (ip @ [sp] @ port)) \<and>
     dom (details fm) = set (seeders fm) \<and> fits (hash fm) \<and>
     fits (concat (map (\<lambda>u. u @ [sp]) (seeders fm)) @ fsize fm)"

definition sharing :: "place \<Rightarrow> string \<times> int \<Rightarrow> filedata \<Rightarrow> string \<Rightarrow> tracker \<Rightarrow> bool" where
  "sharing P addr fm s t \<longleftrightarrow> serving P addr fm s t \<and> listed fm (view (disk t))"


section \<open>Exchanges\<close>

lemma TLSRecvMsg_reply: "fits r \<Longrightarrow> fst (TLSRecvMsg record_read (wire r)) = r"
proof (cases "r = []")
  case True
  have "wire [] = pieces TLS_RECORD (htonl 0)" by (simp add: wire_def TLSSendMsg_def SSLWriteAll_record Let_def)
  moreover have "SSLReadAll record_read (pieces TLS_RECORD (htonl 0)) 4 = (Some (htonl 0), [])"
    using SSLReadAll_pieces [of TLS_RECORD "htonl 0" "[]"] by (simp add: TLS_RECORD_def)
  ultimately show ?thesis using True by (simp add: TLSRecvMsg_def)
next
  case False
  then show "fits r \<Longrightarrow> fst (TLSRecvMsg record_read (wire r)) = r"
    using TLSRecvMsg_wire [of r "[]"] by (simp add: fits_def)
qed

definition text_of :: "string option \<Rightarrow> string" where
  "text_of r = (case r of None \<Rightarrow> [] | Some x \<Rightarrow> x)"

text \<open>A benign request gets the answer of the abstract tracker, and has its effect.\<close>

lemma tracker_ask_spec:
  assumes inv: "swarm_inv t" and b: "benign r" "fits (message r)" "\<And>g u c. r \<noteq> AcceptRequest g u c"
    and rep: "spec_reply E r (view (disk t)) = rep" "fits (text_of rep)"
  shows "\<exists>t'. tracker_ask E (message r) t = (Reply (text_of rep), t') \<and>
    swarm_inv t' \<and> view (disk t') = spec_state E r (view (disk t))"
proof -
  obtain t' where t': "handle E r t = Some (spec_reply E r (view (disk t)), t')" "swarm_inv t'"
    "view (disk t') = spec_state E r (view (disk t))"
    using handle_refines [OF inv b(1), of E] b(3) unfolding refines_def by blast
  have "TrackerKernel True E record_read (wire (message r)) t = Some (rep, t')"
    using TLSRecvMsg_wire [of "message r" "[]"] dispatch_message [of r E record_read "[]" t] b t'(1) rep(1)
    by (simp add: TrackerKernel_def benign_def fits_def)
  then have "tracker_ask E (message r) t = (Reply (text_of rep), t')"
    using rep(2) TLSRecvMsg_reply by (simp add: tracker_ask_def text_of_def split: option.splits)
  then show ?thesis using t'(2,3) by blast
qed

lemma find_append_Some: "find Q xs = Some x \<Longrightarrow> find Q (xs @ ys) = Some x"
  by (induction xs) auto

lemma file_of_AddFile:
  "file_of a u g n = Some e \<Longrightarrow> file_of (spec_state E (AddFile g' n' p v) a) u g n = Some e"
  by (auto simp: file_of_def find_append_Some)

lemma file_of_same:
  "library b u = library a u \<Longrightarrow> file_of b u g n = file_of a u g n"
  by (simp add: file_of_def)

lemma serving_step:
  assumes "serving P addr fm s t" "swarm_inv t'"
    "\<And>u e. file_of (view (disk t)) u (groupname fm) (name fm) = Some e \<Longrightarrow>
       file_of (view (disk t')) u (groupname fm) (name fm) = Some e"
  shows "serving P addr fm s t'"
  using assms unfolding serving_def seeds_def by metis

text \<open>The exchanges of a download, one by one.\<close>

lemma usableD:
  assumes "usable P addr fm"
  shows "up_at P addr" "seeders fm \<noteq> []" "token (groupname fm)" "token (name fm)" "name fm \<noteq> []"
    "benign (GiveSha (groupname fm) (name fm) (username fm))"
    "fits (message (GiveSha (groupname fm) (name fm) (username fm)))"
    "benign (GiveSeeders (groupname fm) (name fm) (username fm))"
    "fits (message (GiveSeeders (groupname fm) (name fm) (username fm)))"
    "benign (AddFile (groupname fm) (name fm) (path fm) (username fm))"
    "fits (message (AddFile (groupname fm) (name fm) (path fm) (username fm)))"
    "benign (Complete (groupname fm) (name fm) (path fm) (username fm))"
    "fits (message (Complete (groupname fm) (name fm) (path fm) (username fm)))"
    "u \<in> set (seeders fm) \<Longrightarrow> benign (GiveDetails u) \<and> fits (message (GiveDetails u))"
    "u \<in> set (seeders fm) \<Longrightarrow> benign (SendFullPath u (groupname fm) (name fm)) \<and>
       fits (message (SendFullPath u (groupname fm) (name fm)))"
    "u \<in> set (seeders fm) \<Longrightarrow> token u"
proof -
  have req: "benign (GiveSha (groupname fm) (name fm) (username fm))" using assms by (simp add: usable_def)
  show "token (groupname fm)" "token (name fm)" "name fm \<noteq> []" using benign_token [OF req] by simp_all
  show "token u" if "u \<in> set (seeders fm)"
  proof -
    have "benign (GiveDetails u)" using assms that by (simp add: usable_def ball_Un)
    from benign_token [OF this] show ?thesis by simp
  qed
qed (use assms in \<open>simp_all add: usable_def ball_Un\<close>)

lemma notify_spec:
  assumes "serving P addr fm s t" "benign r" "fits (message r)" "spec_reply (env_of P) r (view (disk t)) = None"
    "(\<exists>p v. r = AddFile (groupname fm) (name fm) p v) \<or> library (spec_state (env_of P) r (view (disk t))) = library (view (disk t))"
  shows "\<exists>t'. notify (swarm_net P addr) (message r) t = Some t' \<and> serving P addr fm s t'"
proof -
  have "swarm_inv t" "up_at P addr" using assms(1) by (simp_all add: serving_def usable_def)
  moreover have "r \<noteq> AcceptRequest g u c" for g u c using assms(4) by (auto simp: yes_no_def)
  ultimately obtain t' where t': "tracker_ask (env_of P) (message r) t = (Reply [], t')" "swarm_inv t'"
    "view (disk t') = spec_state (env_of P) r (view (disk t))"
    using tracker_ask_spec [OF _ assms(2,3) _ assms(4)] by (auto simp: text_of_def fits_def)
  have "serving P addr fm s t'"
  proof (rule serving_step [OF assms(1) t'(2)])
    fix u e assume "file_of (view (disk t)) u (groupname fm) (name fm) = Some e"
    then show "file_of (view (disk t')) u (groupname fm) (name fm) = Some e"
      unfolding t'(3) using assms(5) file_of_AddFile file_of_same by metis
  qed
  then show ?thesis using t'(1) \<open>up_at P addr\<close> by (simp add: notify_def swarm_net_def tracker_at_def)
qed

lemma dial_says:
  assumes "serving P addr fm s t" "u \<in> set (seeders fm)" "atoi (snd (detail_of fm u)) = Some p"
  shows "peer_dial (env_of P) (up_at P) (hosts_of P) (fst (detail_of fm u)) p (''chunk_numbers '' @ name fm) t =
    (Some [''-1''], t)"
proof -
  have u: "usable P addr fm" "seeds P fm s (view (disk t)) u" using assms(1,2) by (simp_all add: serving_def)
  obtain h where "hosts_of P (fst (detail_of fm u), p) = Some h" "progress h (name fm) = None"
    using u(2) assms(3) by (auto simp: seeds_def detail_of_def)
  then show ?thesis
    using chunk_numbers_served [OF usableD(4,5) [OF u(1)], of "up_at P" "tracker_at (env_of P) (up_at P)" "served h" "progress h" t]
    by (simp add: peer_dial_def GetChunkInfo_def)
qed

lemma c_buffer_plain: "plain x \<Longrightarrow> c_buffer x = x"
  by (auto simp: c_buffer_def plain_def takeWhile_eq_all_conv)

lemma dial_sends:
  assumes sv: "serving P addr fm s t" and u: "u \<in> set (seeders fm)"
    and p: "atoi (snd (detail_of fm u)) = Some p" and k: "k < 4096"
  shows "\<exists>t'. peer_dial (env_of P) (up_at P) (hosts_of P) (fst (detail_of fm u)) p
      (send_chunk_message (groupname fm) (name fm) k (serverpath fm) u) t =
      (Some (chunk_blocks s (k * CHUNK_SIZE)), t') \<and> serving P addr fm s t'"
proof -
  have us: "usable P addr fm" "seeds P fm s (view (disk t)) u" "swarm_inv t" using sv u by (simp_all add: serving_def)
  obtain h e where h: "hosts_of P (fst (detail_of fm u), p) = Some h" "plain (e_path e)"
    "file_of (view (disk t)) u (groupname fm) (name fm) = Some e" "served h (e_path e) = Some s"
    using us(2) p by (auto simp: seeds_def detail_of_def)
  obtain ip1 p1 ip2 p2 port1 port2 where srv: "serverpath fm = join sp [ip1, p1, ip2, p2]"
    "\<forall>x\<in>set [ip1, p1, ip2, p2]. sp \<notin> set x" "atoi p1 = Some port1" "atoi p2 = Some port2"
    "up_at P (ip1, port1) \<or> up_at P (ip2, port2)"
    using us(1) unfolding usable_def by blast
  let ?r = "SendFullPath u (groupname fm) (name fm)"
  have reply: "spec_reply (env_of P) ?r (view (disk t)) = Some (e_path e)"
    using h(3) by (simp add: file_of_def)
  have "fits (e_path e)" using h(2) by (simp add: plain_def fits_def MAX_MSG_SIZE_def)
  then obtain t' where t': "tracker_ask (env_of P) (message ?r) t = (Reply (e_path e), t')" "swarm_inv t'"
    "view (disk t') = view (disk t)"
    using tracker_ask_spec [OF us(3) _ _ _ reply] usableD(15) [OF us(1) u] by (auto simp: text_of_def)
  have "tracker_at (env_of P) (up_at P) (CheckTracker_first (up_at P) [(ip1, port1), (ip2, port2)])
      (join sp [''send_full_path'', u, groupname fm, name fm]) t = (Reply (e_path e), t')"
    using t'(1) srv(5) by (auto simp: tracker_at_def message_def)
  then have "ClientServerKernel (up_at P) (tracker_at (env_of P) (up_at P)) (served h) (progress h)
      (send_chunk_message (groupname fm) (name fm) k (serverpath fm) u) t =
      Some (chunk_blocks s (k * CHUNK_SIZE), t')"
    unfolding srv(1) using srv(2) usableD(3,4) [OF us(1)] usableD(16) [OF us(1) u] k c_buffer_plain [OF h(2)] h(4)
    by (intro send_chunk_served [OF _ srv(3,4), where path = "e_path e"]) (simp_all del: join.simps CheckTracker_first.simps)
  moreover have "serving P addr fm s t'" using serving_step [OF sv t'(2)] t'(3) by simp
  ultimately show ?thesis using h(1) by (simp add: peer_dial_def)
qed

lemma serving_seeds:
  assumes "serving P addr fm s t" "u \<in> set (seeders fm)"
  shows "\<exists>p. atoi (snd (detail_of fm u)) = Some p"
  using assms by (auto simp: serving_def seeds_def detail_of_def)

interpretation swarm_seeders: honest_seeders "swarm_net P addr" "serving P addr fm s" fm s for P addr fm s
proof (unfold_locales, goal_cases)
  case (1 t)
  then show ?case by (simp add: serving_def usable_def)
next
  case (2 t u)
  then show ?case by (rule serving_seeds)
next
  case (3 t u p)
  then show ?case using dial_says [OF 3] by (simp add: swarm_net_def)
next
  case (4 t u p k)
  then show ?case using dial_sends [OF 4] by (auto simp: swarm_net_def)
next
  case (5 t)
  then show ?case
    using notify_spec [OF 5, of "AddFile (groupname fm) (name fm) (path fm) (username fm)"] usableD(10,11) [of P addr fm]
    by (auto simp: UpdateServer_def message_def serving_def)
next
  case (6 t)
  then show ?case
    using notify_spec [OF 6, of "Complete (groupname fm) (name fm) (path fm) (username fm)"] usableD(12,13) [of P addr fm]
    by (auto simp: UpdateServerComplete_def message_def serving_def)
qed

text \<open>The same for the threads of a download, with the hash that was registered.\<close>

definition serving_hashed :: "place \<Rightarrow> string \<times> int \<Rightarrow> filedata \<Rightarrow> string \<Rightarrow> (string \<Rightarrow> string) \<Rightarrow> tracker \<Rightarrow> bool" where
  "serving_hashed P addr fm s sha1 t \<longleftrightarrow>
     serving P addr fm s t \<and> (\<forall>d. length (sha1 d) = 20) \<and> hash fm = GetFileHash2 sha1 (Some s)"

interpretation swarm_threads: honest_threads "swarm_net P addr" "serving_hashed P addr fm s sha1" fm s sha1
  for P addr fm s sha1
  using swarm_seeders.seeded swarm_seeders.port swarm_seeders.says swarm_seeders.sends
    swarm_seeders.started swarm_seeders.finished
  by unfold_locales (simp add: serving_hashed_def, blast?)+

text \<open>The questions at the start of a download leave everything it relies on as it is.\<close>

lemma sharing_ask:
  assumes sh: "sharing P addr fm s t" and b: "benign r" "fits (message r)"
    and same: "\<And>a. spec_state (env_of P) r a = a \<or> (\<exists>x. spec_state (env_of P) r a = a\<lparr>started := x\<rparr>)"
    and rep: "spec_reply (env_of P) r (view (disk t)) = Some x" "fits x"
    and no: "\<And>g u c. r \<noteq> AcceptRequest g u c"
  shows "\<exists>t'. ask (swarm_net P addr) (message r) t = (Reply x, t') \<and> sharing P addr fm s t'"
proof -
  have D: "swarm_inv t" "up_at P addr" "serving P addr fm s t" "listed fm (view (disk t))"
    using sh by (simp_all add: sharing_def serving_def usable_def)
  obtain t' where t': "tracker_ask (env_of P) (message r) t = (Reply x, t')" "swarm_inv t'"
    "view (disk t') = spec_state (env_of P) r (view (disk t))"
    using tracker_ask_spec [OF D(1) b no rep(1)] rep(2) by (auto simp: text_of_def)
  obtain z where z: "view (disk t') = (view (disk t))\<lparr>started := z\<rparr>"
    using same [of "view (disk t)"] t'(3) by (metis (no_types, lifting) swarm.surjective swarm.update_convs(8))
  have "serving P addr fm s t'"
    by (rule serving_step [OF D(3) t'(2)]) (simp add: z file_of_def del: view_simps)
  moreover have "listed fm (view (disk t'))"
    using D(4) unfolding z by (simp add: listed_def has_member_def seeders_of_def size_of_def del: view_simps)
  ultimately show ?thesis using t'(1) D(2) by (simp add: swarm_net_def tracker_at_def sharing_def)
qed

interpretation swarm_tracker: honest_tracker "swarm_net P addr" "serving P addr fm s" fm s "sharing P addr fm s"
  for P addr fm s
proof (unfold_locales, goal_cases)
  case (1 t)
  then show ?case by (simp add: sharing_def)
next
  case (2 t)
  have l: "listed fm (view (disk t))" and u: "usable P addr fm" using 2 by (simp_all add: sharing_def serving_def)
  have "spec_state (env_of P) (GiveSha (groupname fm) (name fm) (username fm)) a = a \<or>
      (\<exists>x. spec_state (env_of P) (GiveSha (groupname fm) (name fm) (username fm)) a = a\<lparr>started := x\<rparr>)" for a
    by auto
  from sharing_ask [OF 2 usableD(6,7) [OF u] this, of "hash fm"] show ?case
    using l
    by (auto simp: listed_def message_def simp del: view_simps)
next
  case (3 t)
  have l: "listed fm (view (disk t))" and u: "usable P addr fm" using 3 by (simp_all add: sharing_def serving_def)
  then show ?case
    using sharing_ask [OF 3 usableD(8,9) [OF u], of "concat (map (\<lambda>u. u @ [sp]) (seeders fm)) @ fsize fm"] usableD(2) [OF u]
    by (auto simp: listed_def message_def Let_def simp del: view_simps)
next
  case (4 t v)
  have l: "listed fm (view (disk t))" and u: "usable P addr fm" using 4 by (simp_all add: sharing_def serving_def)
  then obtain ip port where a: "addresses (view (disk t)) v = Some (ip, port)" "details fm v = Some (ip, port)"
    "sp \<notin> set ip" "sp \<notin> set port" "fits (ip @ [sp] @ port)"
    using 4(2) by (auto simp: listed_def simp del: view_simps)
  have "benign (GiveDetails v)" "fits (message (GiveDetails v))" using usableD(14) [OF u 4(2)] by simp_all
  then show ?case
    using sharing_ask [OF 4(1), of "GiveDetails v" "ip @ [sp] @ port"] a
    by (auto simp: message_def simp del: view_simps)
next
  case (5 t v)
  then show ?case using usableD(16) [of P addr fm v] by (simp add: sharing_def serving_def)
next
  case (6 t)
  then show ?case by (simp add: sharing_def listed_def)
qed


section \<open>Downloads\<close>

text \<open>The command \<open>download_file\<close> brings the file, whichever peers seed it.\<close>

lemma download_file_gets:
  assumes "sharing P (si_sp z) fm s t" "length (seeders fm) \<le> 16" "\<And>d. length (sha1 d) = 20" "s \<noteq> []" "length s < 2 ^ 31"
    "hash fm = GetFileHash2 sha1 (Some s)" "fsize fm = nat_to_string (length s)"
    "ServerPath rows = Some (serverpath fm)" "creatable (path fm)"
    "arg z 1 = groupname fm" "arg z 2 = name fm" "arg z 3 = path fm" "me z = username fm"
  shows "\<exists>t'. download_file (swarm_world P sha1 rows creatable ip port) z t =
    Some ([''Full file matched'', []],
      z\<lparr>filechunks := (filechunks z)(name fm := None), local := (local z)(path fm \<mapsto> s)\<rparr>, t') \<and>
    serving P (si_sp z) fm s t'"
proof -
  obtain t' where "DownloadFile (swarm_net P (si_sp z)) sha1 True rows (groupname fm) (name fm) (path fm)
      (username fm) (filechunks z) t = Some ([''Full file matched''], Some s, (filechunks z)(name fm := None), t')"
    "serving P (si_sp z) fm s t'"
    using swarm_tracker.DownloadFile_honest [OF assms(2-5,1,6-8)] by blast
  then show ?thesis
    using assms(9-13) by (simp add: download_file_def) (simp add: swarm_world_def)
qed

text \<open>A request with a yes-or-no answer, as the peer sees it.\<close>

lemma request_bool_swarm:
  assumes "swarm_inv t" "benign r" "fits (message r)" "\<And>g u c. r \<noteq> AcceptRequest g u c"
    "up_at P addr" "spec_reply (env_of P) r (view (disk t)) = yes_no b"
  shows "\<exists>t'. request_bool (swarm_world P sha1 rows cr ip port) addr (message r) t = Some (b, t') \<and>
    swarm_inv t' \<and> view (disk t') = spec_state (env_of P) r (view (disk t))"
proof -
  have "fits (text_of (yes_no b))" by (simp add: fits_def text_of_def yes_no_def MAX_MSG_SIZE_def)
  then obtain t' where t': "tracker_ask (env_of P) (message r) t = (Reply (text_of (yes_no b)), t')"
    "swarm_inv t'" "view (disk t') = spec_state (env_of P) r (view (disk t))"
    using tracker_ask_spec [OF assms(1-4,6)] by blast
  have "talk (swarm_world P sha1 rows cr ip port) addr (message r) t = (Reply (text_of (yes_no b)), t')"
    using t'(1) assms(5) by (simp add: swarm_world_def tracker_at_def)
  from request_bool_Reply [OF this] show ?thesis using t'(2,3) by (simp add: text_of_def yes_no_def)
qed

text \<open>A file that is new to its group is listed with the hash and the size of its bytes.\<close>

lemma upload_file_lists:
  fixes P sha1 s p z
  defines "h \<equiv> GetFileHash2 sha1 (Some s)" and "n \<equiv> last (split_str p (CHR ''/''))"
    and "z8 \<equiv> nat_to_string (length s)"
  assumes inv: "swarm_inv t" and up: "up_at P (si_sp z)"
    and z: "arg z 1 = p" "arg z 2 = g" "me z = u" "local z p = Some s" "h \<noteq> []"
    and r: "benign (UploadFile h z8 g u n p)" "fits (message (UploadFile h z8 g u n p))"
    and mem: "has_member (view (disk t)) g u"
    and new: "\<forall>x\<in>set (shares (view (disk t)) g). s_hash x \<noteq> h \<and> s_name x \<noteq> n"
  shows "\<exists>t'. upload_file (swarm_world P sha1 rows cr ip port) z t = Some ([''Successful'', []], z, t') \<and>
    swarm_inv t' \<and> view (disk t') = (view (disk t))\<lparr>
      shares := (shares (view (disk t)))(g := shares (view (disk t)) g @ [Share h z8 u n]),
      library := (library (view (disk t)))(u := library (view (disk t)) u @ [Entry g n p])\<rparr>"
proof -
  let ?a = "view (disk t)" and ?W = "swarm_world P sha1 rows cr ip port"
  have "find (\<lambda>x. s_hash x = h) (shares ?a g) = None" using new by (simp add: find_None_iff del: view_simps)
  then have n: "chosen_name ?a g h n = n" by (simp add: chosen_name_def del: view_simps)
  have free: "\<not> shared_by ?a g h u" "\<not> taken ?a g h n"
    using new by (auto simp: shared_by_def taken_def simp del: view_simps)
  obtain t' where t': "request_bool ?W (si_sp z) (message (UploadFile h z8 g u n p)) t = Some (True, t')"
    "swarm_inv t'" "view (disk t') = spec_state (env_of P) (UploadFile h z8 g u n p) ?a"
    using request_bool_swarm [OF inv r _ up, of True sha1 rows cr ip port] mem free n
    by (auto simp del: view_simps)
  have hash: "GetFileHash (digest ?W) (local z p) = (h, length s)"
    using z(4) by (simp add: swarm_world_def GetFileHash_def GetFileHash2_def h_def hash_loop_eq hash_loop2_eq)
  have "upload_file ?W z t = Some ([''Successful'', []], z, t')"
    using z t'(1) hash
    by (simp add: upload_file_def Let_def FileUpload_call_def by_answer_def n_def z8_def message_def to_string_def
        del: join.simps)
  then show ?thesis using t'(2,3) mem free n by (auto simp del: view_simps)
qed

text \<open>
  What the swarm has to offer for a file to get from one peer to another: an uploader who is online at
  the address of a running peer, a downloader in the same group, a name and a hash that are new to the
  group, and names the protocol can carry.
\<close>

definition transfer_ready ::
  "place \<Rightarrow> (string \<Rightarrow> string) \<Rightarrow> string list \<Rightarrow> session \<Rightarrow> session \<Rightarrow> string \<Rightarrow> swarm \<Rightarrow> bool" where
  "transfer_ready P sha1 rows z z' s a \<longleftrightarrow>
     (let p = arg z 1; g = arg z 2; u = me z; n = arg z' 2; v = me z'; dest = arg z' 3;
          h = GetFileHash2 sha1 (Some s) in
      local z p = Some s \<and> n = last (split_str p (CHR ''/'')) \<and> arg z' 1 = g \<and>
      has_member a g u \<and> has_member a g v \<and> file_of a u g n = None \<and> plain p \<and>
      (\<forall>x\<in>set (shares a g). s_hash x \<noteq> h \<and> s_name x \<noteq> n) \<and>
      (\<exists>ip port k host. addresses a u = Some (ip, port) \<and> sp \<notin> set ip \<and> sp \<notin> set port \<and> fits (ip @ [sp] @ port) \<and>
         atoi port = Some k \<and> hosts_of P (ip, k) = Some host \<and> served host p = Some s \<and> progress host n = None) \<and>
      (\<exists>ip1 p1 ip2 p2 port1 port2. rows = [join sp [ip1, p1], join sp [ip2, p2]] \<and>
         (\<forall>x\<in>set [ip1, p1, ip2, p2]. sp \<notin> set x) \<and> atoi p1 = Some port1 \<and> atoi p2 = Some port2 \<and>
         (up_at P (ip1, port1) \<or> up_at P (ip2, port2))) \<and>
      up_at P (si_sp z) \<and> up_at P (si_sp z') \<and> fits h \<and> fits (u @ [sp] @ nat_to_string (length s)) \<and>
      (\<forall>r\<in>set [UploadFile h (nat_to_string (length s)) g u n p, GiveSha g n v, GiveSeeders g n v,
           AddFile g n dest v, Complete g n dest v, GiveDetails u, SendFullPath u g n]. benign r \<and> fits (message r)))"

lemma find_snoc_new: "\<forall>x\<in>set xs. \<not> Q x \<Longrightarrow> Q y \<Longrightarrow> find Q (xs @ [y]) = Some y"
  by (induction xs) auto

text \<open>After the upload the swarm is as the download needs it.\<close>

lemma upload_sharing:
  fixes P sha1 s z z'
  defines "g \<equiv> arg z 2" and "n \<equiv> arg z' 2" and "u \<equiv> me z" and "p \<equiv> arg z 1"
    and "h \<equiv> GetFileHash2 sha1 (Some s)" and "l \<equiv> nat_to_string (length s)"
  assumes ready: "transfer_ready P sha1 rows z z' s a" and inv: "swarm_inv t'"
    and a': "view (disk t') = a\<lparr>shares := (shares a)(g := shares a g @ [Share h l u n]),
        library := (library a)(u := library a u @ [Entry g n p])\<rparr>"
    and ss: "ServerPath rows = Some server" and ad: "addresses a u = Some ad"
  shows "sharing P (si_sp z') \<lparr>name = n, path = arg z' 3, hash = h, fsize = l, groupname = g, serverpath = server,
     username = me z', seeders = [u], details = [u \<mapsto> ad]\<rparr> s t'"
proof -
  note R = ready [unfolded transfer_ready_def Let_def, folded g_def n_def u_def p_def h_def l_def]
  have no: "\<forall>x\<in>set (shares a g). s_hash x \<noteq> h \<and> s_name x \<noteq> n" using R by blast
  have named: "filter (\<lambda>s. s_name s = n) (shares a g @ [Share h l u n]) = [Share h l u n]"
    using no by (simp add: filter_empty_conv)
  have first: "find (\<lambda>s. s_name s = n) (shares a g @ [Share h l u n]) = Some (Share h l u n)"
    using no by (intro find_snoc_new) auto
  have seed: "seeders_of (view (disk t')) g n = {u}"
    unfolding a' seeders_of_def using named ad by (auto simp: filter_empty_conv)
  have "file_of a u g n = None" using R by blast
  then have "find (\<lambda>e. e_group e = g \<and> e_name e = n) (library a u) = None" by (simp only: file_of_def)
  then have entry: "file_of (view (disk t')) u g n = Some (Entry g n p)"
    unfolding a' file_of_def by (auto simp: find_None_iff intro!: find_snoc_new)
  obtain ip1 p1 ip2 p2 port1 port2 where srv: "rows = [join sp [ip1, p1], join sp [ip2, p2]]"
    "\<forall>x\<in>set [ip1, p1, ip2, p2]. sp \<notin> set x" "atoi p1 = Some port1" "atoi p2 = Some port2"
    "up_at P (ip1, port1) \<or> up_at P (ip2, port2)"
    using R by blast
  have server: "server = join sp [ip1, p1, ip2, p2]" using ss srv ServerPath_two by simp
  have addr: "\<exists>k host. sp \<notin> set (fst ad) \<and> sp \<notin> set (snd ad) \<and> fits (fst ad @ [sp] @ snd ad) \<and>
      atoi (snd ad) = Some k \<and> hosts_of P (fst ad, k) = Some host \<and> served host p = Some s \<and> progress host n = None"
    using R ad by auto
  let ?fm = "\<lparr>name = n, path = arg z' 3, hash = h, fsize = l, groupname = g, serverpath = server,
     username = me z', seeders = [u], details = [u \<mapsto> ad]\<rparr>"
  have "usable P (si_sp z') ?fm"
    unfolding usable_def using R server srv(2-5) by simp blast
  moreover have "seeds P ?fm s (view (disk t')) u"
    using addr entry R unfolding seeds_def by (cases ad) auto
  moreover have "listed ?fm (view (disk t'))"
    using seed addr R named first ad
    by (cases ad) (auto simp: listed_def has_member_def size_of_def a' Let_def)
  ultimately show ?thesis using inv by (simp add: sharing_def serving_def)
qed

lemma upload_then_download_lemma:
  assumes inv: "swarm_inv t" and ready: "transfer_ready P sha1 rows z z' s (view (disk t))"
    and s: "s \<noteq> []" "length s < 2 ^ 31" and sha: "\<And>d. length (sha1 d) = 20"
    and cr: "creatable (arg z' 3)"
  shows "\<exists>t1 z2 t2.
    upload_file (swarm_world P sha1 rows creatable ip port) z t = Some ([''Successful'', []], z, t1) \<and>
    download_file (swarm_world P sha1 rows creatable ip' port') z' t1 =
      Some ([''Full file matched'', []], z2, t2) \<and>
    local z2 = (local z')(arg z' 3 \<mapsto> s) \<and> swarm_inv t2"
proof -
  let ?h = "GetFileHash2 sha1 (Some s)" and ?l = "nat_to_string (length s)"
  note R = ready [unfolded transfer_ready_def Let_def]
  have "0 < length (pieces CHUNK_SIZE s)" using s(1) by (simp add: pieces.simps [of _ s])
  then have h: "?h \<noteq> []"
    using hash_slot(1) [of sha1 0 s] length_chunk_hash [of sha1 "chunk_at s 0"] sha by auto
  have R1: "arg z' 2 = last (split_str (arg z 1) (CHR ''/''))" "arg z' 1 = arg z 2" using R by blast+
  obtain t1 where t1: "upload_file (swarm_world P sha1 rows creatable ip port) z t = Some ([''Successful'', []], z, t1)"
    "swarm_inv t1" "view (disk t1) = (view (disk t))\<lparr>
      shares := (shares (view (disk t)))(arg z 2 := shares (view (disk t)) (arg z 2) @ [Share ?h ?l (me z) (arg z' 2)]),
      library := (library (view (disk t)))(me z := library (view (disk t)) (me z) @ [Entry (arg z 2) (arg z' 2) (arg z 1)])\<rparr>"
    using upload_file_lists [OF inv, of P z "arg z 1" "arg z 2" "me z" s sha1 rows creatable ip port] R h R1
    by (auto simp del: view_simps)
  obtain ad where ad: "addresses (view (disk t)) (me z) = Some ad" using R by blast
  obtain server where server: "ServerPath rows = Some server" using R ServerPath_two by auto
  note sh = upload_sharing [OF ready t1(2,3) server ad]
  show ?thesis
    using download_file_gets [where ?sha1.0 = sha1 and rows = rows and creatable = creatable and ip = ip' and port = port',
        OF sh _ sha s] t1(1) server cr R1
    by (auto simp: serving_def)
qed

end
