(* ===== verification/Session.thy ===== *)
theory Session
  imports Swarm
begin

text \<open>
  A whole session at the prompt of a peer, against the tracker. What is typed is a \<open>prompt\<close>; the
  abstract session knows who is logged in and the state of the abstract tracker, and a prompt is at
  most one request. The command loop of \<open>Peer_Client\<close> on the network of \<open>Swarm\<close> refines it, prompt by
  prompt. Downloads are left out here: they are many exchanges, and what they need of other peers is
  in \<open>Swarm\<close>.
\<close>


section \<open>Definitions\<close>

subsection \<open>What is typed\<close>

datatype prompt =
    TypeLogin string string
  | TypeCreateUser string string
  | TypeCreateGroup string
  | TypeListGroups
  | TypeJoinGroup string
  | TypeListRequests string
  | TypeAcceptRequest string string
  | TypeUploadFile string string
  | TypeListFiles string
  | TypeStopShare string string
  | TypeLeaveGroup string
  | TypeShowDownloads
  | TypeLogout

fun prompt_words :: "prompt \<Rightarrow> string list" where
  "prompt_words (TypeLogin u pw) = [''login'', u, pw]"
| "prompt_words (TypeCreateUser u pw) = [''create_user'', u, pw]"
| "prompt_words (TypeCreateGroup g) = [''create_group'', g]"
| "prompt_words TypeListGroups = [''list_groups'']"
| "prompt_words (TypeJoinGroup g) = [''join_group'', g]"
| "prompt_words (TypeListRequests g) = [''list_requests'', g]"
| "prompt_words (TypeAcceptRequest g u) = [''accept_request'', g, u]"
| "prompt_words (TypeUploadFile p g) = [''upload_file'', p, g]"
| "prompt_words (TypeListFiles g) = [''list_files'', g]"
| "prompt_words (TypeStopShare g n) = [''stop_share'', g, n]"
| "prompt_words (TypeLeaveGroup g) = [''leave_group'', g]"
| "prompt_words TypeShowDownloads = [''show_downloads'']"
| "prompt_words TypeLogout = [''logout'']"

definition prompt_line :: "prompt \<Rightarrow> string" where
  "prompt_line p = join sp (prompt_words p)"

fun prompt_users :: "prompt \<Rightarrow> string list" where
  "prompt_users (TypeLogin u pw) = [u]"
| "prompt_users (TypeCreateUser u pw) = [u]"
| "prompt_users (TypeAcceptRequest g u) = [u]"
| "prompt_users p = []"

fun prompt_groups :: "prompt \<Rightarrow> string list" where
  "prompt_groups (TypeCreateGroup g) = [g]"
| "prompt_groups (TypeJoinGroup g) = [g]"
| "prompt_groups (TypeListRequests g) = [g]"
| "prompt_groups (TypeAcceptRequest g u) = [g]"
| "prompt_groups (TypeUploadFile p g) = [g]"
| "prompt_groups (TypeListFiles g) = [g]"
| "prompt_groups (TypeStopShare g n) = [g]"
| "prompt_groups (TypeLeaveGroup g) = [g]"
| "prompt_groups p = []"

fun prompt_path :: "prompt \<Rightarrow> string option" where
  "prompt_path (TypeUploadFile p g) = Some p"
| "prompt_path p = None"

text \<open>A word a terminal line can hold (4096 bytes), and the names that are usable.\<close>

definition word_ok :: "string \<Rightarrow> bool" where
  "word_ok w \<longleftrightarrow> token w \<and> w \<noteq> [] \<and> length w \<le> 4096"

definition file_name :: "string \<Rightarrow> string" where
  "file_name p = last (split_str p (CHR ''/''))"

definition prompt_ok :: "prompt \<Rightarrow> bool" where
  "prompt_ok p \<longleftrightarrow>
     (\<forall>w\<in>set (prompt_words p). word_ok w) \<and> (\<forall>u\<in>set (prompt_users p). good_user u) \<and>
     (\<forall>g\<in>set (prompt_groups p). good_group g) \<and>
     (case prompt_path p of None \<Rightarrow> True | Some f \<Rightarrow> file_name f \<noteq> [])"

subsection \<open>The abstract session\<close>

record prompt_state =
  logged :: bool
  who :: string
  seen :: swarm

text \<open>The files of the peer, its hash function and its address.\<close>

record seat =
  seat_sha1 :: "string \<Rightarrow> string"
  seat_files :: "string \<rightharpoonup> string"
  seat_port :: string
  seat_ip :: string

fun prompt_request :: "seat \<Rightarrow> prompt_state \<Rightarrow> prompt \<Rightarrow> request option" where
  "prompt_request C a (TypeLogin u pw) = (if logged a then None else Some (Login u pw (seat_port C) (seat_ip C)))"
| "prompt_request C a (TypeCreateUser u pw) =
     (if logged a then None else Some (CreateUser u pw (seat_port C) (seat_ip C)))"
| "prompt_request C a (TypeCreateGroup g) = (if logged a then Some (CreateGroup g (who a)) else None)"
| "prompt_request C a TypeListGroups = (if logged a then Some ListGroups else None)"
| "prompt_request C a (TypeJoinGroup g) = (if logged a then Some (JoinGroup g (who a)) else None)"
| "prompt_request C a (TypeListRequests g) = (if logged a then Some (ListRequests g (who a)) else None)"
| "prompt_request C a (TypeAcceptRequest g u) = (if logged a then Some (AcceptRequest g u (who a)) else None)"
| "prompt_request C a (TypeUploadFile p g) =
     (case seat_files C p of
        Some f \<Rightarrow>
          if logged a \<and> f \<noteq> []
          then Some (UploadFile (GetFileHash2 (seat_sha1 C) (Some f)) (nat_to_string (length f)) g (who a) (file_name p) p)
          else None
      | None \<Rightarrow> None)"
| "prompt_request C a (TypeListFiles g) = (if logged a then Some (ListFiles g) else None)"
| "prompt_request C a (TypeStopShare g n) = (if logged a then Some (StopShare g n (who a)) else None)"
| "prompt_request C a (TypeLeaveGroup g) = (if logged a then Some (LeaveGroup g (who a)) else None)"
| "prompt_request C a TypeShowDownloads = (if logged a then Some (ShowDownload (who a)) else None)"
| "prompt_request C a TypeLogout = (if logged a then Some (LogOut (who a)) else None)"

text \<open>What an answer does to the session.\<close>

fun answered :: "request \<Rightarrow> bool \<Rightarrow> prompt_state \<Rightarrow> prompt_state" where
  "answered (Login u pw port ip) yes a = a\<lparr>logged := yes, who := if yes then u else who a\<rparr>"
| "answered (CreateUser u pw port ip) yes a = a\<lparr>logged := yes, who := if yes then u else who a\<rparr>"
| "answered (LogOut u) yes a = a\<lparr>logged := if yes then False else logged a\<rparr>"
| "answered r yes a = a"

definition prompt_step :: "env \<Rightarrow> seat \<Rightarrow> prompt \<Rightarrow> prompt_state \<Rightarrow> prompt_state" where
  "prompt_step E C p a =
     (case prompt_request C a p of
        None \<Rightarrow> a
      | Some r \<Rightarrow> answered r (spec_reply E r (seen a) = yes_no True) (a\<lparr>seen := spec_state E r (seen a)\<rparr>))"

subsection \<open>The peer and the tracker\<close>

definition prompt_turn :: "tracker world \<Rightarrow> prompt \<Rightarrow> session \<times> tracker \<Rightarrow> (session \<times> tracker) option" where
  "prompt_turn W p st =
     (case main_turn W (prompt_line p) (fst st) (snd st) of
        Some (Some (out, s', t')) \<Rightarrow> Some (s', t')
      | _ \<Rightarrow> None)"

definition prompt_abs :: "session \<times> tracker \<Rightarrow> prompt_state" where
  "prompt_abs st = \<lparr>logged = login_flag (fst st), who = me (fst st), seen = view (disk (snd st))\<rparr>"

text \<open>
  A peer that can use its prompt: a tracker file that can be read and has a tracker that is up, an
  address the protocol can carry, files under 2 GiB.
\<close>

definition seat_ok :: "place \<Rightarrow> string list \<Rightarrow> seat \<Rightarrow> bool" where
  "seat_ok P rows C \<longleftrightarrow>
     (\<exists>as. map_opt tracker_addr rows = Some as \<and> filter (up_at P) as \<noteq> []) \<and>
     word_ok (seat_port C) \<and> word_ok (seat_ip C) \<and> (\<forall>d. length (seat_sha1 C d) = 20) \<and>
     (\<forall>p f. seat_files C p = Some f \<longrightarrow> length f < 2 ^ 31)"

definition session_ok :: "seat \<Rightarrow> session \<Rightarrow> bool" where
  "session_ok C s \<longleftrightarrow>
     length (command_split s) = 10 \<and> local s = seat_files C \<and>
     (login_flag s \<longrightarrow> word_ok (me s) \<and> good_user (me s))"

definition prompt_inv :: "place \<Rightarrow> string list \<Rightarrow> seat \<Rightarrow> session \<times> tracker \<Rightarrow> bool" where
  "prompt_inv P rows C st \<longleftrightarrow> seat_ok P rows C \<and> session_ok C (fst st) \<and> swarm_inv (snd st)"

definition seat_of :: "(string \<Rightarrow> string) \<Rightarrow> (string \<rightharpoonup> string) \<Rightarrow> int \<Rightarrow> string \<Rightarrow> seat" where
  "seat_of sha1 files port ip = \<lparr>seat_sha1 = sha1, seat_files = files, seat_port = to_string port, seat_ip = ip\<rparr>"

text \<open>What is left of the line after the first word.\<close>

definition typed_rest :: "prompt \<Rightarrow> string" where
  "typed_rest p = (if tl (prompt_words p) = [] then [] else sp # join sp (tl (prompt_words p)))"

text \<open>
  What is to be shown of a turn: the command returns, keeps the invariant, and is the step of the
  abstract session.
\<close>

definition turn_ok :: "place \<Rightarrow> string list \<Rightarrow> seat \<Rightarrow> prompt \<Rightarrow> session \<Rightarrow> tracker \<Rightarrow> (string list \<times> session \<times> tracker) option \<Rightarrow> bool" where
  "turn_ok P rows C p s t result \<longleftrightarrow>
     (\<exists>out s' t'. result = Some (out, s', t') \<and> prompt_inv P rows C (s', t') \<and>
        prompt_abs (s', t') = prompt_step (env_of P) C p (prompt_abs (s, t)))"

text \<open>
  Whom the tracker has online: the addresses \<open>A\<close> it had before, and this peer's. Who is logged in at
  the prompt is one of them.
\<close>

definition online_from :: "(string \<rightharpoonup> string \<times> string) \<Rightarrow> seat \<Rightarrow> prompt_state \<Rightarrow> bool" where
  "online_from A C a \<longleftrightarrow>
     (\<forall>u x. addresses (seen a) u = Some x \<longrightarrow> x = (seat_ip C, seat_port C) \<or> A u = Some x) \<and>
     (logged a \<longrightarrow> addresses (seen a) (who a) \<noteq> None)"


section \<open>Messages that fit\<close>

lemma length_join: "\<forall>w\<in>set ws. length w \<le> n \<Longrightarrow> length (join c ws) \<le> length ws * Suc n"
  by (induction c ws rule: join.induct) auto

lemma fits_message:
  assumes "\<forall>w\<in>set (request_words r). length w \<le> 100000"
  shows "fits (message r)"
proof -
  have "length (request_words r) \<le> 7" by (cases r) auto
  then have "length (request_words r) * Suc 100000 \<le> 7 * Suc 100000" by (rule mult_le_mono1)
  then show ?thesis using length_join [OF assms, of sp] by (simp add: fits_def message_def MAX_MSG_SIZE_def)
qed

lemma length_nat_to_string: "n < 10 ^ Suc k \<Longrightarrow> length (nat_to_string n) \<le> Suc k"
proof (induction k arbitrary: n)
  case 0
  then show ?case by (simp add: nat_to_string.simps [of n])
next
  case (Suc k)
  have "n div 10 < 10 ^ Suc k" using Suc.prems by (simp add: div_less_iff_less_mult mult.commute)
  from Suc.IH [OF this] show ?case by (simp add: nat_to_string.simps [of n])
qed

lemma set_join: "w \<in> set ws \<Longrightarrow> set w \<subseteq> set (join c ws)"
  by (induction c ws rule: join.induct) auto

lemma file_name_word: "word_ok p \<Longrightarrow> token (file_name p) \<and> length (file_name p) \<le> 4096"
proof -
  assume p: "word_ok p"
  have "file_name p \<in> set (split_str p (CHR ''/''))" by (simp add: file_name_def)
  moreover have "length w \<le> length (join c ws)" if "w \<in> set ws" for w ws and c :: char
    using that by (induction c ws rule: join.induct) auto
  ultimately have "set (file_name p) \<subseteq> set p" "length (file_name p) \<le> length p"
    using set_join [of "file_name p" "split_str p (CHR ''/'')" "CHR ''/''"] by (auto, metis join_split_str)
  then show ?thesis using p by (auto simp: word_ok_def token_def)
qed

lemma hash_word:
  assumes "\<And>d. length (sha1 d) = 20" "length f < 2 ^ 31" "f \<noteq> []"
  shows "token (GetFileHash2 sha1 (Some f))" "GetFileHash2 sha1 (Some f) \<noteq> []"
    "length (GetFileHash2 sha1 (Some f)) \<le> 100000"
proof -
  let ?hs = "map (chunk_hash sha1) (pieces CHUNK_SIZE f)"
  have h: "GetFileHash2 sha1 (Some f) = concat ?hs" by (simp add: GetFileHash2_def hash_loop_eq hash_loop2_eq)
  have "token (chunk_hash sha1 d)" for d
    using token_hex [of "sha1 d"] by (auto simp: chunk_hash_def token_def dest: in_set_takeD)
  then show "token (GetFileHash2 sha1 (Some f))" unfolding h by (auto simp: token_def)
  have len: "\<forall>x\<in>set ?hs. length x = 20" using assms(1) by (auto intro: length_chunk_hash)
  have "length (concat xs) = 20 * length xs" if "\<forall>x\<in>set xs. length x = 20" for xs :: "string list"
    using that by (induction xs) auto
  from this [OF len] have l: "length (concat ?hs) = 20 * length (pieces CHUNK_SIZE f)" by simp
  then show "length (GetFileHash2 sha1 (Some f)) \<le> 100000" using h pieces_4096 [OF assms(2)] by simp
  have "pieces CHUNK_SIZE f \<noteq> []" using assms(3) by (simp add: pieces.simps [of _ f])
  then have "0 < length (GetFileHash2 sha1 (Some f))" unfolding h l by simp
  then show "GetFileHash2 sha1 (Some f) \<noteq> []" by blast
qed

lemma command_tokens:
  "token ''login''" "token ''create_user''" "token ''create_group''" "token ''list_groups''" "token ''join_group''"
  "token ''list_requests''" "token ''accept_request''" "token ''upload_file''" "token ''list_files''"
  "token ''stop_share''" "token ''leave_group''" "token ''show_downloads''" "token ''logout''"
  by (simp_all add: token_def is_space_def)

text \<open>A request with words of the right form is benign and fits.\<close>

lemma request_ok:
  assumes "\<forall>w\<in>set (request_words r). token w \<and> w \<noteq> [] \<and> length w \<le> 100000"
    "\<forall>u\<in>set (request_users r). good_user u" "\<forall>g\<in>set (request_groups r). good_group g"
  shows "benign r \<and> fits (message r)"
  using assms fits_message [of r] by (simp add: benign_def words_ok_def)

text \<open>What a usable prompt sends is a benign request.\<close>

lemma prompt_benign:
  assumes req: "prompt_request C a p = Some r" and p: "prompt_ok p" and C: "seat_ok P rows C"
    and a: "logged a \<Longrightarrow> word_ok (who a) \<and> good_user (who a)"
  shows "benign r \<and> fits (message r)"
proof -
  have wide: "word_ok w \<Longrightarrow> token w \<and> w \<noteq> [] \<and> length w \<le> 100000" for w by (simp add: word_ok_def)
  have words: "\<forall>w\<in>set (prompt_words p). token w \<and> w \<noteq> [] \<and> length w \<le> 100000"
    and seat: "token (seat_port C) \<and> seat_port C \<noteq> [] \<and> length (seat_port C) \<le> 100000"
      "token (seat_ip C) \<and> seat_ip C \<noteq> [] \<and> length (seat_ip C) \<le> 100000"
    and me: "logged a \<Longrightarrow> token (who a) \<and> who a \<noteq> [] \<and> length (who a) \<le> 100000 \<and> good_user (who a)"
    using p C a wide by (auto simp: prompt_ok_def seat_ok_def)
  have names: "\<forall>u\<in>set (prompt_users p). good_user u" "\<forall>g\<in>set (prompt_groups p). good_group g"
    using p by (simp_all add: prompt_ok_def)
  have "(\<forall>w\<in>set (request_words r). token w \<and> w \<noteq> [] \<and> length w \<le> 100000) \<and>
    (\<forall>u\<in>set (request_users r). good_user u) \<and> (\<forall>g\<in>set (request_groups r). good_group g)"
  proof (cases p)
    case (TypeUploadFile f g)
    then obtain bs where f: "seat_files C f = Some bs" "bs \<noteq> []" "logged a"
      "r = UploadFile (GetFileHash2 (seat_sha1 C) (Some bs)) (nat_to_string (length bs)) g (who a) (file_name f) f"
      using req by (auto split: option.splits if_splits)
    have len: "length bs < 2 ^ 31" and sha: "\<And>d. length (seat_sha1 C d) = 20"
      using C f(1) by (auto simp: seat_ok_def)
    have "length (nat_to_string (length bs)) \<le> 10" using length_nat_to_string [of "length bs" 9] len by simp
    moreover have "word_ok f" "file_name f \<noteq> []" using p TypeUploadFile by (simp_all add: prompt_ok_def)
    ultimately show ?thesis
      using hash_word [OF sha len f(2)] file_name_word [of f] words me names TypeUploadFile f(3)
      by (simp add: f(4) command_tokens)
  qed (use req words seat me names in \<open>auto simp: command_tokens split: if_splits\<close>)
  then show ?thesis using request_ok by blast
qed


section \<open>One exchange\<close>

lemma tracker_ask_any:
  assumes "swarm_inv t" "benign r" "fits (message r)"
  shows "\<exists>x t'. tracker_ask E (message r) t = (Reply x, t') \<and> swarm_inv t' \<and>
    view (disk t') = spec_state E r (view (disk t))"
proof -
  obtain rep t' where t': "handle E r t = Some (rep, t')" "swarm_inv t'"
    "view (disk t') = spec_state E r (view (disk t))"
    using handle_refines [OF assms(1,2), of E] unfolding refines_def by blast
  have "TrackerKernel True E record_read (wire (message r)) t = Some (rep, t')"
    using TLSRecvMsg_wire [of "message r" "[]"] dispatch_message [of r E record_read "[]" t] assms t'(1)
    by (simp add: TrackerKernel_def benign_def fits_def)
  then show ?thesis using t'(2,3) by (auto simp: tracker_ask_def split: option.splits)
qed

lemma talk_any:
  assumes "swarm_inv t" "benign r" "fits (message r)" "up_at P addr"
  shows "\<exists>x t'. talk (swarm_world P sha1 rows cr ip port) addr (message r) t = (Reply x, t') \<and> swarm_inv t' \<and>
    view (disk t') = spec_state (env_of P) r (view (disk t))"
  using tracker_ask_any [OF assms(1-3)] assms(4) by (simp add: swarm_world_def tracker_at_def)

lemma request_bool_any:
  assumes "swarm_inv t" "benign r" "fits (message r)" "up_at P addr"
  shows "\<exists>b t'. request_bool (swarm_world P sha1 rows cr ip port) addr (message r) t = Some (b, t') \<and> swarm_inv t' \<and>
    view (disk t') = spec_state (env_of P) r (view (disk t))"
  using talk_any [OF assms, of sha1 rows cr ip port] by (auto simp: request_bool_def simp del: view_simps)

lemma request_text_any:
  assumes "swarm_inv t" "benign r" "fits (message r)" "up_at P addr"
  shows "\<exists>out t'. request_text (swarm_world P sha1 rows cr ip port) addr title (message r) t = Some (out, t') \<and>
    swarm_inv t' \<and> view (disk t') = spec_state (env_of P) r (view (disk t))"
  using talk_any [OF assms, of sha1 rows cr ip port] by (auto simp: request_text_def)


section \<open>One turn\<close>

lemma turn_run:
  fixes sha1 cr ip port
  assumes "seat_ok P rows C" "prompt_ok p"
  defines "W \<equiv> swarm_world P sha1 rows cr ip port"
  shows "\<exists>server. up_at P server \<and> main_turn W (prompt_line p) s t = map_option Some
    (run_command W (typed_rest p) (s\<lparr>command_split := (command_split s)[0 := hd (prompt_words p)], si_sp := server\<rparr>) t)"
proof -
  obtain as where as: "map_opt tracker_addr rows = Some as" "filter (up_at P) as \<noteq> []"
    using assms(1) by (auto simp: seat_ok_def)
  have up: "up_at P (last (filter (up_at P) as))" using last_in_set [OF as(2)] by simp
  obtain c vs where w: "prompt_words p = c # vs" by (cases "prompt_words p", cases p) auto
  have c: "token c" "c \<noteq> []" "c \<noteq> ''quit''"
    using assms(2) w by (auto simp: prompt_ok_def word_ok_def, cases p, auto)
  have "stream_get (arg s 0) (prompt_line p) = (c, typed_rest p)"
    using c w by (cases vs) (simp_all add: prompt_line_def typed_rest_def)
  moreover have "online W a t = up_at P a" "tracker_rows W = rows" for a by (simp_all add: W_def swarm_world_def)
  ultimately show ?thesis
    using CheckTracker_filter [OF as(1), of "up_at P" False "si_sp s"] as(2) up w c(3)
    by (intro exI [of _ "last (filter (up_at P) as)"]) (simp add: main_turn_def Let_def)
qed

lemma typed_args:
  assumes "token a" "a \<noteq> []"
  shows "get_args [1] (sp # a) cs = cs[1 := a]"
    "token b \<Longrightarrow> b \<noteq> [] \<Longrightarrow> get_args [1, 2] (sp # a @ sp # b) cs = cs[1 := a, 2 := b]"
  using assms by simp_all

lemma turn_idle:
  assumes "prompt_inv P rows C (s, t)" "prompt_request C (prompt_abs (s, t)) p = None"
    "result = Some (out, s', t)" "session_ok C s'" "login_flag s' = login_flag s" "me s' = me s"
  shows "turn_ok P rows C p s t result"
  using assms by (auto simp: turn_ok_def prompt_step_def prompt_inv_def prompt_abs_def)

text \<open>A request whose answer is only printed.\<close>

lemma turn_request:
  assumes "prompt_inv P rows C (s, t)" "prompt_request C (prompt_abs (s, t)) p = Some r"
    "\<And>yes a. answered r yes a = a" "session_ok C s'" "login_flag s' = login_flag s" "me s' = me s"
    "result = Some (out, s', t')" "swarm_inv t'" "view (disk t') = spec_state (env_of P) r (view (disk t))"
  shows "turn_ok P rows C p s t result"
  using assms by (auto simp: turn_ok_def prompt_step_def prompt_inv_def prompt_abs_def simp del: view_simps)

text \<open>A request that changes the session by its answer.\<close>

lemma turn_session:
  assumes "prompt_inv P rows C (s, t)" "prompt_request C (prompt_abs (s, t)) p = Some r"
    "spec_reply (env_of P) r (view (disk t)) = yes_no b"
    "session_ok C s'" "answered r b (prompt_abs (s, t')) = prompt_abs (s', t')"
    "result = Some (out, s', t')" "swarm_inv t'" "view (disk t') = spec_state (env_of P) r (view (disk t))"
  shows "turn_ok P rows C p s t result"
proof -
  have "(spec_reply (env_of P) r (view (disk t)) = yes_no True) = b" using assms(3) by (simp add: yes_no_def)
  then have "prompt_step (env_of P) C p (prompt_abs (s, t)) = prompt_abs (s', t')"
    using assms(2,5,8) by (simp add: prompt_step_def prompt_abs_def del: view_simps)
  then show ?thesis using assms(1,4,6,7) by (auto simp: turn_ok_def prompt_inv_def)
qed

lemmas command_simps = run_command_def Let_def logged_in_def bool_calls text_calls by_answer_def by_text_def

lemma swarm_world_seat:
  "digest (swarm_world P sha1 rows cr ip port) = sha1" "myport_i (swarm_world P sha1 rows cr ip port) = port"
  "myip (swarm_world P sha1 rows cr ip port) = ip"
  by (simp_all add: swarm_world_def)

lemma read_args_ok: "session_ok C s \<Longrightarrow> session_ok C (read_args is rest s)"
  by (simp add: session_ok_def)

text \<open>The arguments of a typed command are in their slots.\<close>

lemma typed_slots:
  assumes "prompt_ok p" "length (command_split s) = 10" "prompt_words p = c # vs"
  shows "vs = [a] \<Longrightarrow> arg (read_args [1] (typed_rest p) s) 1 = a"
    "vs = [a, b] \<Longrightarrow> arg (read_args [1, 2] (typed_rest p) s) 1 = a \<and> arg (read_args [1, 2] (typed_rest p) s) 2 = b"
proof -
  have tok: "\<forall>w\<in>set vs. token w \<and> w \<noteq> []" using assms(1,3) by (auto simp: prompt_ok_def word_ok_def)
  show "vs = [a] \<Longrightarrow> arg (read_args [1] (typed_rest p) s) 1 = a"
    using tok assms(2,3) typed_args(1) [of a "command_split s"] by (simp add: typed_rest_def read_args_def arg_def)
  show "vs = [a, b] \<Longrightarrow> arg (read_args [1, 2] (typed_rest p) s) 1 = a \<and> arg (read_args [1, 2] (typed_rest p) s) 2 = b"
    using tok assms(2,3) typed_args(2) [of a b "command_split s"] by (simp add: typed_rest_def read_args_def arg_def)
qed

text \<open>Nobody is logged in, or somebody is and logs in again: nothing is sent.\<close>

lemma turn_refused:
  assumes inv: "prompt_inv P rows C (s, t)" and c: "arg s 0 = hd (prompt_words p)"
    and guard: "login_flag s = (arg s 0 = ''login'' \<or> arg s 0 = ''create_user'')"
  shows "turn_ok P rows C p s t (run_command W (typed_rest p) s t)"
proof -
  have "prompt_request C (prompt_abs (s, t)) p = None"
    using c guard by (cases p) (simp_all add: prompt_abs_def split: option.splits)
  moreover have "\<exists>out. run_command W (typed_rest p) s t = Some (out, s, t)"
    using guard by (auto simp: run_command_def Let_def logged_in_def)
  ultimately show ?thesis using turn_idle [OF inv] inv by (auto simp: prompt_inv_def)
qed

text \<open>The commands that are carried out, in three groups.\<close>

lemma turn_sign_on:
  assumes inv: "prompt_inv P rows C (s, t)" and p: "prompt_ok p" and C: "C = seat_of sha1 files port ip"
    and up: "up_at P (si_sp s)" and c: "arg s 0 = hd (prompt_words p)" and out: "\<not> login_flag s"
    and sign: "p = TypeLogin u pw \<or> p = TypeCreateUser u pw"
  shows "turn_ok P rows C p s t (run_command (swarm_world P sha1 rows cr ip port) (typed_rest p) s t)"
proof -
  let ?W = "swarm_world P sha1 rows cr ip port" and ?s = "read_args [1, 2] (typed_rest p) s"
  obtain r b where r: "prompt_request C (prompt_abs (s, t)) p = Some r"
    "spec_reply (env_of P) r (view (disk t)) = yes_no b" "\<And>g u c. r \<noteq> AcceptRequest g u c"
    "\<And>t'. answered r b (prompt_abs (s, t')) = prompt_abs (?s\<lparr>login_flag := b, me := if b then u else me s\<rparr>, t')"
    "message r = join sp [hd (prompt_words p), u, pw, to_string port, ip]"
    using sign out by (auto simp: prompt_abs_def C seat_of_def message_def simp del: view_simps)
  have ok: "seat_ok P rows C" "session_ok C s" "swarm_inv t" using inv by (simp_all add: prompt_inv_def)
  have "benign r \<and> fits (message r)" using prompt_benign [OF r(1) p ok(1)] out by (simp add: prompt_abs_def)
  then obtain t' where t': "request_bool ?W (si_sp s) (message r) t = Some (b, t')" "swarm_inv t'"
    "view (disk t') = spec_state (env_of P) r (view (disk t))"
    using request_bool_swarm [OF ok(3) _ _ r(3) up r(2)] by blast
  have len: "length (command_split s) = 10" using ok(2) by (simp add: session_ok_def)
  have args: "arg ?s 1 = u" "arg ?s 2 = pw" using typed_slots(2) [OF p len] sign by auto
  have "run_command ?W (typed_rest p) s t = sign_on ?s (request_bool ?W (si_sp s) (message r) t)"
    using sign
  proof
    assume "p = TypeLogin u pw"
    then have "arg s 0 = ''login''" "message r = join sp [''login'', u, pw, to_string port, ip]" using c r(5) by simp_all
    then show ?thesis using out args by (simp add: command_simps swarm_world_seat del: join.simps)
  next
    assume "p = TypeCreateUser u pw"
    then have "arg s 0 = ''create_user''" "message r = join sp [''create_user'', u, pw, to_string port, ip]"
      using c r(5) by simp_all
    then show ?thesis using out args by (simp add: command_simps swarm_world_seat del: join.simps)
  qed
  then have run: "run_command ?W (typed_rest p) s t =
      Some ([if b then ''Successful'' else ''Failed'', []], ?s\<lparr>login_flag := b, me := if b then u else me s\<rparr>, t')"
    using t'(1) args by (simp add: sign_on_def)
  have "word_ok u" "good_user u" using p sign by (auto simp: prompt_ok_def)
  then have "session_ok C (?s\<lparr>login_flag := b, me := if b then u else me s\<rparr>)"
    using read_args_ok [OF ok(2)] by (auto simp: session_ok_def)
  from turn_session [OF inv r(1,2) this r(4) run t'(2,3)] show ?thesis .
qed

lemma turn_logout:
  assumes inv: "prompt_inv P rows C (s, t)" and C: "C = seat_of sha1 files port ip"
    and up: "up_at P (si_sp s)" and c: "arg s 0 = ''logout''" and lg: "login_flag s"
  shows "turn_ok P rows C TypeLogout s t
    (run_command (swarm_world P sha1 rows cr ip port) (typed_rest TypeLogout) s t)"
proof -
  let ?W = "swarm_world P sha1 rows cr ip port" and ?b = "addresses (view (disk t)) (me s) \<noteq> None"
  have r: "prompt_request C (prompt_abs (s, t)) TypeLogout = Some (LogOut (me s))"
    "spec_reply (env_of P) (LogOut (me s)) (view (disk t)) = yes_no ?b"
    using lg by (simp_all add: prompt_abs_def)
  have ok: "seat_ok P rows C" "session_ok C s" "swarm_inv t" using inv by (simp_all add: prompt_inv_def)
  have "prompt_ok TypeLogout" by (simp add: prompt_ok_def word_ok_def command_tokens)
  then have "benign (LogOut (me s)) \<and> fits (message (LogOut (me s)))"
    using prompt_benign [OF r(1) _ ok(1)] ok(2) by (simp add: prompt_abs_def session_ok_def)
  then obtain t' where t': "request_bool ?W (si_sp s) (message (LogOut (me s))) t = Some (?b, t')" "swarm_inv t'"
    "view (disk t') = spec_state (env_of P) (LogOut (me s)) (view (disk t))"
    using request_bool_swarm [OF ok(3) _ _ _ up r(2)] by blast
  let ?s = "s\<lparr>login_flag := if ?b then False else login_flag s\<rparr>"
  have run: "run_command ?W (typed_rest TypeLogout) s t = Some ([if ?b then ''Successful'' else ''Failed'', []], ?s, t')"
    using c lg t'(1) by (simp add: command_simps log_out_def message_def del: join.simps view_simps)
  have "session_ok C ?s" using ok(2) by (auto simp: session_ok_def)
  moreover have "answered (LogOut (me s)) ?b (prompt_abs (s, t')) = prompt_abs (?s, t')"
    by (simp add: prompt_abs_def del: view_simps)
  ultimately show ?thesis by (rule turn_session [OF inv r _ _ run t'(2,3)])
qed

lemma turn_upload:
  assumes inv: "prompt_inv P rows C (s, t)" and p: "prompt_ok (TypeUploadFile f g)" and C: "C = seat_of sha1 files port ip"
    and up: "up_at P (si_sp s)" and c: "arg s 0 = ''upload_file''" and lg: "login_flag s"
  shows "turn_ok P rows C (TypeUploadFile f g) s t
    (run_command (swarm_world P sha1 rows cr ip port) (typed_rest (TypeUploadFile f g)) s t)"
proof -
  let ?W = "swarm_world P sha1 rows cr ip port" and ?p = "TypeUploadFile f g"
  let ?s = "read_args [1, 2] (typed_rest ?p) s"
  have ok: "seat_ok P rows C" "session_ok C s" "swarm_inv t" using inv by (simp_all add: prompt_inv_def)
  then have s: "length (command_split s) = 10" "local s = files" "word_ok (me s)" "good_user (me s)" "session_ok C ?s"
    using lg read_args_ok [OF ok(2)] by (auto simp: session_ok_def C seat_of_def)
  have args: "arg ?s 1 = f" "arg ?s 2 = g" using typed_slots(2) [OF p s(1)] by auto
  have run: "run_command ?W (typed_rest ?p) s t = upload_file ?W ?s t" using c lg by (simp add: command_simps)
  show ?thesis
  proof (cases "prompt_request C (prompt_abs (s, t)) ?p")
    case None
    then have "files f = None \<or> files f = Some []"
      using lg by (auto simp: prompt_abs_def C seat_of_def split: option.splits if_splits)
    then have "upload_file ?W ?s t = Some ([''Cannot open file''], ?s, t)"
      using args s(2) by (auto simp: upload_file_def swarm_world_seat GetFileHash_def hash_loop_eq pieces.simps [of _ "[]"])
    then show ?thesis using turn_idle [OF inv None _ s(5)] run by simp
  next
    case (Some r)
    then obtain bs where bs: "files f = Some bs" "bs \<noteq> []"
      "r = UploadFile (GetFileHash2 sha1 (Some bs)) (nat_to_string (length bs)) g (me s) (file_name f) f"
      by (auto simp: prompt_abs_def C seat_of_def split: option.splits if_splits)
    have b: "benign r" "fits (message r)" using prompt_benign [OF Some p ok(1)] s(3,4) by (simp_all add: prompt_abs_def)
    obtain ans t' where t': "request_bool ?W (si_sp s) (message r) t = Some (ans, t')" "swarm_inv t'"
      "view (disk t') = spec_state (env_of P) r (view (disk t))"
      using request_bool_any [OF ok(3) b up] by blast
    have "GetFileHash2 sha1 (Some bs) \<noteq> []"
      using b(1) unfolding bs(3) by (simp add: benign_def words_ok_def)
    moreover have "GetFileHash sha1 (local s f) = (GetFileHash2 sha1 (Some bs), length bs)"
      using bs(1) s(2) by (simp add: GetFileHash_def GetFileHash2_def hash_loop_eq hash_loop2_eq)
    ultimately have "upload_file ?W ?s t = by_answer [''Successful''] [''Invalid Request''] ?s
        (request_bool ?W (si_sp s) (message r) t)"
      using args by (simp add: upload_file_def swarm_world_seat FileUpload_call_def bs(3) message_def file_name_def to_string_def
          del: join.simps)
    then have res: "run_command ?W (typed_rest ?p) s t =
        Some ((if ans then [''Successful''] else [''Invalid Request'']) @ [[]], ?s, t')"
      using run t'(1) by (simp add: by_answer_def)
    show ?thesis by (rule turn_request [OF inv Some _ s(5) _ _ res t'(2,3)]) (simp_all add: bs(3))
  qed
qed

text \<open>The other commands send one request and print its answer.\<close>

lemma turn_prints:
  assumes inv: "prompt_inv P rows C (s, t)" and p: "prompt_ok p" and up: "up_at P (si_sp s)" and lg: "login_flag s"
    and r: "prompt_request C (prompt_abs (s, t)) p = Some r" "\<And>yes a. answered r yes a = a" "m = message r"
    and s': "s' = s \<or> s' = read_args is rest s"
  shows "turn_ok P rows C p s t
      (by_answer y n s' (request_bool (swarm_world P sha1 rows cr ip port) (si_sp s) m t))"
    "turn_ok P rows C p s t
      (by_text s' (request_text (swarm_world P sha1 rows cr ip port) (si_sp s) title m t))"
proof -
  have ok: "seat_ok P rows C" "session_ok C s" "swarm_inv t" using inv by (simp_all add: prompt_inv_def)
  have b: "benign r" "fits (message r)"
    using prompt_benign [OF r(1) p ok(1)] ok(2) lg by (simp_all add: prompt_abs_def session_ok_def)
  have kept: "session_ok C s'" "login_flag s' = login_flag s" "me s' = me s"
    using s' ok(2) read_args_ok [OF ok(2)] by auto
  note prints = turn_request [OF inv r(1,2) kept]
  show "turn_ok P rows C p s t
      (by_answer y n s' (request_bool (swarm_world P sha1 rows cr ip port) (si_sp s) m t))"
    using request_bool_any [OF ok(3) b up, of sha1 rows cr ip port] prints
    unfolding r(3) by (auto simp: by_answer_def simp del: view_simps)
  show "turn_ok P rows C p s t
      (by_text s' (request_text (swarm_world P sha1 rows cr ip port) (si_sp s) title m t))"
    using request_text_any [OF ok(3) b up, of sha1 rows cr ip port title] prints
    unfolding r(3) by (auto simp: by_text_def simp del: view_simps)
qed

lemmas plain_simps = run_command_def Let_def logged_in_def bool_calls text_calls

lemma turn_plain:
  fixes sha1 cr ip port
  assumes inv: "prompt_inv P rows C (s, t)" and p: "prompt_ok p" and up: "up_at P (si_sp s)"
    and c: "arg s 0 = hd (prompt_words p)" and lg: "login_flag s"
    and plain: "\<And>u pw. p \<noteq> TypeLogin u pw" "\<And>u pw. p \<noteq> TypeCreateUser u pw" "\<And>f g. p \<noteq> TypeUploadFile f g"
      "p \<noteq> TypeLogout"
  shows "turn_ok P rows C p s t (run_command (swarm_world P sha1 rows cr ip port) (typed_rest p) s t)"
proof -
  note prints = turn_prints [OF inv _ up lg]
  have len: "length (command_split s) = 10" using inv by (simp add: prompt_inv_def session_ok_def)
  note slots = typed_slots [OF p len]
  show ?thesis
  proof (cases p)
    case (TypeCreateGroup g)
    then show ?thesis using p c lg slots(1) [of "''create_group''" "[g]" g]
      by (simp add: plain_simps del: join.simps)
        (rule prints(1) [where r = "CreateGroup g (me s)"]; force simp: prompt_abs_def message_def)
  next
    case TypeListGroups
    then show ?thesis using p c lg
      by (simp add: plain_simps del: join.simps)
        (rule prints(2) [where r = ListGroups]; force simp: prompt_abs_def message_def)
  next
    case (TypeJoinGroup g)
    then show ?thesis using p c lg slots(1) [of "''join_group''" "[g]" g]
      by (simp add: plain_simps del: join.simps)
        (rule prints(1) [where r = "JoinGroup g (me s)"]; force simp: prompt_abs_def message_def)
  next
    case (TypeListRequests g)
    then show ?thesis using p c lg slots(1) [of "''list_requests''" "[g]" g]
      by (simp add: plain_simps del: join.simps)
        (rule prints(2) [where r = "ListRequests g (me s)"]; force simp: prompt_abs_def message_def)
  next
    case (TypeAcceptRequest g u)
    then show ?thesis using p c lg slots(2) [of "''accept_request''" "[g, u]" g u]
      by (simp add: plain_simps del: join.simps)
        (rule prints(1) [where r = "AcceptRequest g u (me s)"]; force simp: prompt_abs_def message_def)
  next
    case (TypeListFiles g)
    then show ?thesis using p c lg slots(1) [of "''list_files''" "[g]" g]
      by (simp add: plain_simps del: join.simps)
        (rule prints(2) [where r = "ListFiles g"]; force simp: prompt_abs_def message_def)
  next
    case (TypeStopShare g n)
    then show ?thesis using p c lg slots(2) [of "''stop_share''" "[g, n]" g n]
      by (simp add: plain_simps del: join.simps)
        (rule prints(1) [where r = "StopShare g n (me s)"]; force simp: prompt_abs_def message_def)
  next
    case (TypeLeaveGroup g)
    then show ?thesis using p c lg slots(1) [of "''leave_group''" "[g]" g]
      by (simp add: plain_simps del: join.simps)
        (rule prints(1) [where r = "LeaveGroup g (me s)"]; force simp: prompt_abs_def message_def)
  next
    case TypeShowDownloads
    then show ?thesis using p c lg
      by (simp add: plain_simps del: join.simps)
        (rule prints(2) [where r = "ShowDownload (me s)"]; force simp: prompt_abs_def message_def)
  qed (use plain in auto)
qed

lemma turn_typed:
  assumes inv: "prompt_inv P rows C (s, t)" and p: "prompt_ok p" and C: "C = seat_of sha1 files port ip"
    and up: "up_at P (si_sp s)" and c: "arg s 0 = hd (prompt_words p)"
  shows "turn_ok P rows C p s t (run_command (swarm_world P sha1 rows cr ip port) (typed_rest p) s t)"
proof (cases "login_flag s = (arg s 0 = ''login'' \<or> arg s 0 = ''create_user'')")
  case True
  from turn_refused [OF inv c True] show ?thesis .
next
  case False
  show ?thesis
  proof (cases "login_flag s")
    case True
    then have "arg s 0 \<noteq> ''login''" "arg s 0 \<noteq> ''create_user''" using False by auto
    with c have signed: "\<And>u pw. p \<noteq> TypeLogin u pw" "\<And>u pw. p \<noteq> TypeCreateUser u pw" by auto
    consider f g where "p = TypeUploadFile f g" | "p = TypeLogout"
      | "\<And>f g. p \<noteq> TypeUploadFile f g" "p \<noteq> TypeLogout" by blast
    then show ?thesis
    proof cases
      case (1 f g)
      then show ?thesis using turn_upload [OF inv _ C up _ True] p c by simp
    next
      case 2
      then show ?thesis using turn_logout [OF inv C up _ True] c by simp
    next
      case 3
      from turn_plain [OF inv p up c True signed 3] show ?thesis .
    qed
  next
    case out: False
    then have "hd (prompt_words p) = ''login'' \<or> hd (prompt_words p) = ''create_user''" using False c by auto
    then obtain u pw where "p = TypeLogin u pw \<or> p = TypeCreateUser u pw" by (cases p) auto
    from turn_sign_on [OF inv p C up c out this] show ?thesis .
  qed
qed

theorem turn_refines:
  assumes inv: "prompt_inv P rows (seat_of sha1 files port ip) (s, t)" and p: "prompt_ok p"
  shows "\<exists>s' t'. prompt_turn (swarm_world P sha1 rows cr ip port) p (s, t) = Some (s', t') \<and>
    prompt_inv P rows (seat_of sha1 files port ip) (s', t') \<and>
    prompt_abs (s', t') = prompt_step (env_of P) (seat_of sha1 files port ip) p (prompt_abs (s, t))"
proof -
  let ?W = "swarm_world P sha1 rows cr ip port" and ?C = "seat_of sha1 files port ip"
  have ok: "seat_ok P rows ?C" "length (command_split s) = 10" using inv by (simp_all add: prompt_inv_def session_ok_def)
  obtain server where server: "up_at P server" "main_turn ?W (prompt_line p) s t = map_option Some
      (run_command ?W (typed_rest p) (s\<lparr>command_split := (command_split s)[0 := hd (prompt_words p)], si_sp := server\<rparr>) t)"
    using turn_run [OF ok(1) p, of sha1 cr ip port s t] by auto
  let ?s = "s\<lparr>command_split := (command_split s)[0 := hd (prompt_words p)], si_sp := server\<rparr>"
  have s: "prompt_inv P rows ?C (?s, t)" "prompt_abs (?s, t) = prompt_abs (s, t)"
    using inv by (simp_all add: prompt_inv_def session_ok_def prompt_abs_def)
  have "turn_ok P rows ?C p ?s t (run_command ?W (typed_rest p) ?s t)"
    using server(1) ok(2) by (intro turn_typed [OF s(1) p refl]) (simp_all add: arg_def)
  then show ?thesis using server(2) s(2) by (auto simp: turn_ok_def prompt_turn_def)
qed


section \<open>Whole sessions\<close>

interpretation prompts: safe_machine "prompt_turn (swarm_world P sha1 rows cr ip port)" prompt_ok
  "prompt_inv P rows (seat_of sha1 files port ip)" for P sha1 rows cr ip port files
proof
  fix e st st'
  assume "prompt_ok e" "prompt_inv P rows (seat_of sha1 files port ip) st"
  with turn_refines [of P rows sha1 files port ip "fst st" "snd st" e cr]
  show "prompt_turn (swarm_world P sha1 rows cr ip port) e st = Some st' \<Longrightarrow>
      prompt_inv P rows (seat_of sha1 files port ip) st'"
    "prompt_turn (swarm_world P sha1 rows cr ip port) e st \<noteq> None" by auto
qed

interpretation prompts: simulation "prompt_turn (swarm_world P sha1 rows cr ip port)" prompt_ok
  "prompt_inv P rows (seat_of sha1 files port ip)" prompt_abs "prompt_step (env_of P) (seat_of sha1 files port ip)"
  for P sha1 rows cr ip port files
proof
  fix e st st'
  assume "prompt_ok e" "prompt_inv P rows (seat_of sha1 files port ip) st"
    "prompt_turn (swarm_world P sha1 rows cr ip port) e st = Some st'"
  with turn_refines [of P rows sha1 files port ip "fst st" "snd st" e cr]
  show "prompt_abs st' = prompt_step (env_of P) (seat_of sha1 files port ip) e (prompt_abs st)" by auto
qed

text \<open>The command loop runs the turns one after another.\<close>

lemma main_loop_prompts:
  "run_steps (prompt_turn W) ps st = Some (s', t') \<Longrightarrow>
     \<exists>out. main_loop W (map prompt_line ps) (fst st) (snd st) = Some (out, s', t')"
proof (induction ps arbitrary: st)
  case (Cons p ps)
  from Cons.prems obtain s1 t1 where turn: "prompt_turn W p st = Some (s1, t1)" "run_steps (prompt_turn W) ps (s1, t1) = Some (s', t')"
    by (auto simp: bind_Some_conv)
  then obtain out where "main_turn W (prompt_line p) (fst st) (snd st) = Some (Some (out, s1, t1))"
    by (auto simp: prompt_turn_def split: option.splits)
  then show ?case using Cons.IH [OF turn(2)] by auto
qed simp

theorem session_runs:
  assumes ok: "\<forall>p\<in>set ps. prompt_ok p" and inv: "prompt_inv P rows (seat_of sha1 files port ip) (s, t)"
  shows "\<exists>out s' t'. main_loop (swarm_world P sha1 rows cr ip port) (map prompt_line ps) s t = Some (out, s', t') \<and>
    prompt_inv P rows (seat_of sha1 files port ip) (s', t') \<and>
    prompt_abs (s', t') = fold (prompt_step (env_of P) (seat_of sha1 files port ip)) ps (prompt_abs (s, t))"
proof -
  obtain s' t' where run: "run_steps (prompt_turn (swarm_world P sha1 rows cr ip port)) ps (s, t) = Some (s', t')"
    "prompt_inv P rows (seat_of sha1 files port ip) (s', t')"
    using prompts.run_safe [OF ok inv, of cr] by auto
  then show ?thesis using main_loop_prompts [OF run(1)] prompts.run_abs [OF ok inv run(1)] by auto
qed

text \<open>Who is logged in at the prompt is online at the tracker, under this peer's address or an earlier one.\<close>

lemma addresses_kept:
  "\<lbrakk>\<And>u pw port ip. r \<noteq> Login u pw port ip; \<And>u pw port ip. r \<noteq> CreateUser u pw port ip; \<And>u. r \<noteq> LogOut u\<rbrakk> \<Longrightarrow>
     addresses (spec_state E r a) = addresses a \<and> answered r yes b = b"
  by (cases r) auto

lemma prompt_step_online: "online_from A C a \<Longrightarrow> online_from A C (prompt_step E C p a)"
proof (cases "prompt_request C a p")
  case (Some r)
  assume on: "online_from A C a"
  consider u pw where "r = Login u pw (seat_port C) (seat_ip C)" "\<not> logged a"
    | u pw where "r = CreateUser u pw (seat_port C) (seat_ip C)" "\<not> logged a" | "r = LogOut (who a)" "logged a"
    | "addresses (spec_state E r (seen a)) = addresses (seen a)" "\<And>yes b. answered r yes b = b"
    using Some addresses_kept [of r E "seen a"] by (cases p) (auto split: if_splits option.splits)
  then show ?thesis
    using on by cases (auto simp: online_from_def prompt_step_def Some yes_no_def split: if_splits)
qed (simp add: prompt_step_def)

lemma prompts_online: "online_from A C a \<Longrightarrow> online_from A C (fold (prompt_step E C) ps a)"
  by (induction ps arbitrary: a) (simp_all add: prompt_step_online)

end
