(* ===== verification/Peers.thy ===== *)
theory Peers
  imports Session
begin

text \<open>
  Several peers at their prompts, with one tracker between them. A turn is a command typed at one of
  them; the others keep their sessions. Each turn has its own environment of the tracker (the salt of
  \<open>RAND_bytes\<close>, the order of a directory), since every call of these may give something else. The
  abstract system has the abstract tracker and, for each peer, who is logged in there; the turns of
  the command loops refine it in every order. The commands are those of \<open>prompt\<close>: all but \<open>download_file\<close>.
\<close>


section \<open>Definitions\<close>

text \<open>Who types what, and what the tracker's calls of the library give meanwhile.\<close>

type_synonym turn = "env \<times> nat \<times> prompt"

definition turn_typed_ok :: "turn \<Rightarrow> bool" where
  "turn_typed_ok e \<longleftrightarrow> prompt_ok (snd (snd e))"

definition peers_turn ::
  "(env \<Rightarrow> nat \<Rightarrow> tracker world) \<Rightarrow> turn \<Rightarrow> (nat \<Rightarrow> session) \<times> tracker \<Rightarrow> ((nat \<Rightarrow> session) \<times> tracker) option" where
  "peers_turn W e st =
     (case e of (E, i, p) \<Rightarrow>
        map_option (\<lambda>(s', t'). ((fst st)(i := s'), t')) (prompt_turn (W E i) p (fst st i, snd st)))"

text \<open>The abstract system: the login of each peer, and the abstract tracker.\<close>

record peers_state =
  logins :: "nat \<Rightarrow> bool"
  names :: "nat \<Rightarrow> string"
  common :: swarm

definition at_prompt :: "nat \<Rightarrow> peers_state \<Rightarrow> prompt_state" where
  "at_prompt i a = \<lparr>logged = logins a i, who = names a i, seen = common a\<rparr>"

definition peers_step :: "(nat \<Rightarrow> seat) \<Rightarrow> turn \<Rightarrow> peers_state \<Rightarrow> peers_state" where
  "peers_step C e a =
     (case e of (E, i, p) \<Rightarrow>
        let b = prompt_step E (C i) p (at_prompt i a) in
        \<lparr>logins = (logins a)(i := logged b), names = (names a)(i := who b), common = seen b\<rparr>)"

definition peers_abs :: "(nat \<Rightarrow> session) \<times> tracker \<Rightarrow> peers_state" where
  "peers_abs st =
     \<lparr>logins = (\<lambda>i. login_flag (fst st i)), names = (\<lambda>i. me (fst st i)), common = view (disk (snd st))\<rparr>"

text \<open>What differs between the peers: tracker file, files, address, and where they can create files.\<close>

record desk =
  desk_rows :: "string list"
  desk_files :: "string \<rightharpoonup> string"
  desk_port :: int
  desk_ip :: string
  desk_creates :: "string \<Rightarrow> bool"

definition desk_world :: "place \<Rightarrow> (string \<Rightarrow> string) \<Rightarrow> desk \<Rightarrow> tracker world" where
  "desk_world P sha1 d = swarm_world P sha1 (desk_rows d) (desk_creates d) (desk_ip d) (desk_port d)"

text \<open>The world of a turn: the library's results are those of the turn.\<close>

definition turn_world :: "place \<Rightarrow> (string \<Rightarrow> string) \<Rightarrow> (nat \<Rightarrow> desk) \<Rightarrow> env \<Rightarrow> nat \<Rightarrow> tracker world" where
  "turn_world P sha1 D E i = desk_world (P\<lparr>env_of := E\<rparr>) sha1 (D i)"

definition desk_seat :: "(string \<Rightarrow> string) \<Rightarrow> desk \<Rightarrow> seat" where
  "desk_seat sha1 d = seat_of sha1 (desk_files d) (desk_port d) (desk_ip d)"

definition peers_inv ::
  "place \<Rightarrow> (string \<Rightarrow> string) \<Rightarrow> (nat \<Rightarrow> desk) \<Rightarrow> (nat \<Rightarrow> session) \<times> tracker \<Rightarrow> bool" where
  "peers_inv P sha1 D st \<longleftrightarrow> (\<forall>i. prompt_inv P (desk_rows (D i)) (desk_seat sha1 (D i)) (fst st i, snd st))"


section \<open>Turns of several peers\<close>

lemma at_prompt_abs: "at_prompt i (peers_abs st) = prompt_abs (fst st i, snd st)"
  by (simp add: at_prompt_def peers_abs_def prompt_abs_def)

lemma prompt_inv_other:
  "prompt_inv P rows C (s, t) \<Longrightarrow> swarm_inv t' \<Longrightarrow> prompt_inv P rows C (s, t')"
  by (simp add: prompt_inv_def)

lemma prompt_inv_env [simp]: "prompt_inv (P\<lparr>env_of := E\<rparr>) rows C st = prompt_inv P rows C st"
  by (simp add: prompt_inv_def seat_ok_def)

lemma peers_refine:
  assumes inv: "peers_inv P sha1 D st" and p: "turn_typed_ok e"
  shows "\<exists>st'. peers_turn (turn_world P sha1 D) e st = Some st' \<and> peers_inv P sha1 D st' \<and>
    peers_abs st' = peers_step (\<lambda>i. desk_seat sha1 (D i)) e (peers_abs st)"
proof -
  obtain E i q where e: "e = (E, i, q)" by (cases e) auto
  let ?C = "desk_seat sha1 (D i)"
  have q: "prompt_ok q" using p e by (simp add: turn_typed_ok_def)
  have "prompt_inv (P\<lparr>env_of := E\<rparr>) (desk_rows (D i)) ?C (fst st i, snd st)" using inv by (simp add: peers_inv_def)
  from turn_refines [OF this [unfolded desk_seat_def] q, of "desk_creates (D i)"]
  obtain s' t' where turn: "prompt_turn (turn_world P sha1 D E i) q (fst st i, snd st) = Some (s', t')"
    "prompt_inv P (desk_rows (D i)) ?C (s', t')"
    "prompt_abs (s', t') = prompt_step E ?C q (prompt_abs (fst st i, snd st))"
    by (auto simp: desk_seat_def desk_world_def turn_world_def)
  let ?st = "((fst st)(i := s'), t')"
  have "swarm_inv t'" using turn(2) by (simp add: prompt_inv_def)
  then have "peers_inv P sha1 D ?st"
    using inv turn(2) by (auto simp: peers_inv_def intro: prompt_inv_other [where t = "snd st"])
  moreover have "peers_abs ?st = peers_step (\<lambda>i. desk_seat sha1 (D i)) e (peers_abs st)"
    unfolding peers_step_def Let_def e prod.case at_prompt_abs turn(3) [symmetric]
    by (auto simp: peers_abs_def prompt_abs_def fun_eq_iff)
  ultimately show ?thesis using turn(1) by (intro exI [of _ ?st]) (simp add: peers_turn_def e)
qed

interpretation peers: safe_machine "peers_turn (turn_world P sha1 D)" turn_typed_ok "peers_inv P sha1 D" for P sha1 D
  by unfold_locales (metis peers_refine option.inject, metis peers_refine option.distinct(1))

interpretation peers: simulation "peers_turn (turn_world P sha1 D)" turn_typed_ok
  "peers_inv P sha1 D" peers_abs "peers_step (\<lambda>i. desk_seat sha1 (D i))" for P sha1 D
  by unfold_locales (metis peers_refine option.inject)

theorem peers_run:
  assumes "\<forall>e\<in>set es. turn_typed_ok e" "peers_inv P sha1 D st"
  shows "\<exists>st'. run_steps (peers_turn (turn_world P sha1 D)) es st = Some st' \<and> peers_inv P sha1 D st' \<and>
    peers_abs st' = fold (peers_step (\<lambda>i. desk_seat sha1 (D i))) es (peers_abs st)"
  using peers.run_safe [OF assms] peers.run_abs [OF assms] by blast

end
