(* ===== verification/Startup.thy ===== *)
theory Startup
  imports Tls_Setup Tracker_Console Tracker_Runs Peers
begin

text \<open>
  From the command line to the running process: \<open>main\<close> of tracker/tracker.cpp and of peer/peer.cpp up to
  their loops, with the sockets \<open>TrackerServer\<close> and \<open>ClientServer\<close> open. Every \<open>exit(-1)\<close> on the way is a
  \<open>startup_error\<close>; \<open>None\<close> is undefined behaviour (a missing argument, an index past the end of
  \<open>tracker_info\<close>, a number \<open>atoi\<close> cannot hold). The operating system is a parameter.
\<close>


section \<open>Definitions\<close>

text \<open>The directory of the certificates, next to the tracker file.\<close>

definition certdir :: "string \<Rightarrow> string" where
  "certdir filepath =
     (if slash \<notin> set filepath then ''certs''
      else rev (tl (dropWhile (\<lambda>c. c \<noteq> slash) (rev filepath))) @ ''/certs'')"

text \<open>
  What the system calls answer: the lines of the tracker file (none when it cannot be opened), whether the
  calls succeed, and what connecting to the sibling gives.
\<close>

record os =
  rows_of :: "string \<Rightarrow> string list"
  socket_ok :: bool
  bind_ok :: "string \<times> 16 word \<Rightarrow> bool"
  listen_ok :: "string \<times> 16 word \<Rightarrow> bool"
  mutex_ok :: bool
  thread_ok :: bool
  sibling_link :: "string \<times> 16 word \<Rightarrow> link"

definition vec_at_int :: "'a list \<Rightarrow> int \<Rightarrow> 'a option" where
  "vec_at_int v i = (if 0 \<le> i then vec_at v (nat i) else None)"

text \<open>\<open>socket\<close>, \<open>bind\<close>, \<open>listen\<close>; \<open>htons\<close> takes the low 16 bits of the port.\<close>

definition listener :: "os \<Rightarrow> string \<Rightarrow> int \<Rightarrow> startup_error + string \<times> 16 word" where
  "listener os ip port =
     (let addr = (ip, word_of_int port) in
      if \<not> socket_ok os then Inl SocketFailed
      else if \<not> bind_ok os addr then Inl BindFailed
      else if \<not> listen_ok os addr then Inl ListenFailed
      else Inr addr)"

definition TrackerServer_listen ::
  "os \<Rightarrow> (string \<times> string) list \<Rightarrow> int \<Rightarrow> (startup_error + string \<times> 16 word) option" where
  "TrackerServer_listen os tracker_info mysequence_i =
     do {
       (ip, p) \<leftarrow> vec_at_int tracker_info mysequence_i;
       port \<leftarrow> atoi p;
       Some (listener os ip port)
     }"

text \<open>\<open>INADDR_ANY\<close>.\<close>

definition ClientServer_listen :: "os \<Rightarrow> int \<Rightarrow> startup_error + string \<times> 16 word" where
  "ClientServer_listen os my_port_i = listener os ''0.0.0.0'' my_port_i"

subsection \<open>The tracker\<close>

record tracker_process =
  tp_info :: "(string \<times> string) list"
  tp_server_ctx :: ssl_ctx
  tp_client_ctx :: ssl_ctx
  tp_sibling :: "string \<times> 16 word"
  tp_address :: "string \<times> 16 word"
  tp_state :: tracker

definition tracker_contexts :: "openssl \<Rightarrow> string \<Rightarrow> startup_error + ssl_ctx \<times> ssl_ctx" where
  "tracker_contexts L certs =
     (case TLSServerContext L (certs @ ''/tracker.crt'') (certs @ ''/tracker.key'') of
        Inl e \<Rightarrow> Inl e
      | Inr server_ctx \<Rightarrow>
          (case TLSClientContext L (certs @ ''/tracker.crt'') of
             Inl e \<Rightarrow> Inl e
           | Inr client_ctx \<Rightarrow> Inr (server_ctx, client_ctx)))"

text \<open>
  From the mutexes to the server thread, and the whole; the second component of the result is the disk
  when the process ends or starts to serve.
\<close>

definition tracker_begin ::
  "os \<Rightarrow> (string \<times> string) list \<Rightarrow> int \<Rightarrow> ssl_ctx \<times> ssl_ctx \<Rightarrow> files \<Rightarrow> ((startup_error + tracker_process) \<times> files) option" where
  "tracker_begin os tracker_info mysequence_i ctxs f =
     (if \<not> mutex_ok os then Some (Inl MutexFailed, f)
      else do {
        (ip, p) \<leftarrow> vec_at_int tracker_info (GetTracker2 mysequence_i);
        port \<leftarrow> atoi p;
        t \<leftarrow> tracker_start (sibling_link os (ip, word_of_int port)) f;
        if \<not> thread_ok os then Some (Inl ThreadFailed, disk t)
        else do {
          listening \<leftarrow> TrackerServer_listen os tracker_info mysequence_i;
          Some (map_sum id (\<lambda>addr. \<lparr>tp_info = tracker_info, tp_server_ctx = fst ctxs, tp_client_ctx = snd ctxs,
            tp_sibling = (ip, word_of_int port), tp_address = addr, tp_state = t\<rparr>) listening, disk t)
        }
      })"

definition tracker_main ::
  "os \<Rightarrow> openssl \<Rightarrow> files \<Rightarrow> string list \<Rightarrow> ((startup_error + tracker_process) \<times> files) option" where
  "tracker_main os L f argv =
     do {
       filepath \<leftarrow> vec_at argv 1;
       mysequence \<leftarrow> vec_at argv 2;
       n \<leftarrow> atoi mysequence;
       mysequence_i \<leftarrow> int_range (n - 1);
       case tracker_contexts L (certdir filepath) of
         Inl e \<Rightarrow> Some (Inl e, f)
       | Inr ctxs \<Rightarrow> tracker_begin os (read_tracker_info (rows_of os filepath)) mysequence_i ctxs f
     }"

subsection \<open>The peer\<close>

record peer_process =
  pp_ip :: string
  pp_port :: int
  pp_rows :: "string list"
  pp_ctx :: ssl_ctx
  pp_address :: "string \<times> 16 word"
  pp_session :: session

definition peer_main :: "os \<Rightarrow> openssl \<Rightarrow> (string \<rightharpoonup> string) \<Rightarrow> string list \<Rightarrow> (startup_error + peer_process) option" where
  "peer_main os L files argv =
     do {
       myip \<leftarrow> vec_at argv 1;
       myport \<leftarrow> vec_at argv 2;
       myport_i \<leftarrow> atoi myport;
       filepath \<leftarrow> vec_at argv 3;
       Some (case TLSClientContext L (certdir filepath @ ''/tracker.crt'') of
               Inl e \<Rightarrow> Inl e
             | Inr tracker_ctx \<Rightarrow>
                 if \<not> thread_ok os then Inl ThreadFailed
                 else map_sum id (\<lambda>addr. \<lparr>pp_ip = myip, pp_port = myport_i, pp_rows = rows_of os filepath,
                   pp_ctx = tracker_ctx, pp_address = addr, pp_session = fresh_session files\<rparr>)
                   (ClientServer_listen os myport_i))
     }"

subsection \<open>Preconditions\<close>

text \<open>A tracker file whose lines are addresses, and whose ports \<open>atoi\<close> can read.\<close>

definition info_ok :: "(string \<times> string) list \<Rightarrow> bool" where
  "info_ok info \<longleftrightarrow> (\<forall>(a, b)\<in>set info. token a \<and> a \<noteq> [] \<and> token b \<and> b \<noteq> [] \<and> atoi b \<noteq> None)"

text \<open>The desk of a peer that was started.\<close>

definition desk_of :: "(string \<rightharpoonup> string) \<Rightarrow> (string \<Rightarrow> bool) \<Rightarrow> peer_process \<Rightarrow> desk" where
  "desk_of files cr q =
     \<lparr>desk_rows = pp_rows q, desk_files = files, desk_port = pp_port q, desk_ip = pp_ip q, desk_creates = cr\<rparr>"

text \<open>Only one tracker is up, and it is reached at the address it listens on.\<close>

definition only_up :: "place \<Rightarrow> string \<times> 16 word \<Rightarrow> bool" where
  "only_up P addr \<longleftrightarrow> (\<forall>ip port. up_at P (ip, port) \<longleftrightarrow> (ip, word_of_int port) = addr)"

text \<open>What has to be there for a tracker to start: the certificates, and system calls that succeed.\<close>

definition tools_ok :: "os \<Rightarrow> openssl \<Rightarrow> string \<Rightarrow> bool" where
  "tools_ok os L certs \<longleftrightarrow>
     (\<forall>r. ctx_new L r) \<and>
     (\<exists>c k. certificate_file L (certs @ ''/tracker.crt'') = Some c \<and> key_file L c (certs @ ''/tracker.key'') = Some k) \<and>
     verify_locations L (certs @ ''/tracker.crt'') \<noteq> None \<and>
     socket_ok os \<and> mutex_ok os \<and> thread_ok os \<and> (\<forall>a. bind_ok os a \<and> listen_ok os a)"


section \<open>The directory of the certificates\<close>

lemma certdir_plain: "slash \<notin> set n \<Longrightarrow> certdir n = ''certs''"
  by (simp add: certdir_def)

lemma certdir_in: "slash \<notin> set n \<Longrightarrow> certdir (d @ slash # n) = d @ ''/certs''"
proof -
  assume "slash \<notin> set n"
  then have "dropWhile (\<lambda>c. c \<noteq> slash) (rev n @ slash # rev d) = slash # rev d"
    by (subst dropWhile_append2) auto
  then show ?thesis by (simp add: certdir_def)
qed


section \<open>Starting\<close>

lemma listener_Inr:
  "listener os ip port = Inr a \<longleftrightarrow>
     a = (ip, word_of_int port) \<and> socket_ok os \<and> bind_ok os a \<and> listen_ok os a"
  by (auto simp: listener_def Let_def)

lemma tracker_contexts_Inr:
  assumes "tracker_contexts L certs = Inr (s, c)"
  shows "TLSServerContext L (certs @ ''/tracker.crt'') (certs @ ''/tracker.key'') = Inr s"
    "TLSClientContext L (certs @ ''/tracker.crt'') = Inr c"
  using assms by (auto simp: tracker_contexts_def split: sum.splits)

text \<open>Where a result of the error type comes from.\<close>

lemma case_sum_eq:
  "(case x of Inl e \<Rightarrow> g e | Inr y \<Rightarrow> h y) = r \<longleftrightarrow> (\<exists>e. x = Inl e \<and> g e = r) \<or> (\<exists>y. x = Inr y \<and> h y = r)"
  by (cases x) auto

lemma map_sum_Inr: "map_sum id g x = Inr y \<longleftrightarrow> (\<exists>z. x = Inr z \<and> y = g z)"
  by (cases x) auto

lemma tracker_beginE:
  assumes "tracker_begin os info seq ctxs f = Some (Inr p, f')"
  obtains ip s port where "vec_at_int info seq = Some (ip, s)" "atoi s = Some port" "tp_address p = (ip, word_of_int port)"
    "tp_info p = info" "(tp_server_ctx p, tp_client_ctx p) = ctxs"
    "tracker_start (sibling_link os (tp_sibling p)) f = Some (tp_state p)" "f' = disk (tp_state p)"
  using assms
  by (auto simp: tracker_begin_def TrackerServer_listen_def listener_Inr map_sum_Inr bind_Some_conv split: if_splits)

lemma tracker_mainE:
  assumes "tracker_main os L f argv = Some (Inr p, f')"
  obtains filepath mysequence n where "vec_at argv 1 = Some filepath" "vec_at argv 2 = Some mysequence" "atoi mysequence = Some n"
    "tracker_contexts L (certdir filepath) = Inr (tp_server_ctx p, tp_client_ctx p)"
    "tracker_begin os (read_tracker_info (rows_of os filepath)) (n - 1) (tp_server_ctx p, tp_client_ctx p) f = Some (Inr p, f')"
proof -
  obtain filepath mysequence n ctxs where m: "vec_at argv 1 = Some filepath" "vec_at argv 2 = Some mysequence"
    "atoi mysequence = Some n" "tracker_contexts L (certdir filepath) = Inr ctxs"
    "tracker_begin os (read_tracker_info (rows_of os filepath)) (n - 1) ctxs f = Some (Inr p, f')"
    using assms by (auto simp: tracker_main_def bind_Some_conv int_range_def case_sum_eq split: if_splits)
  moreover have "ctxs = (tp_server_ctx p, tp_client_ctx p)" by (rule tracker_beginE [OF m(5)]) simp
  ultimately show thesis using that by simp
qed

lemma peer_mainE:
  assumes "peer_main os L files argv = Some (Inr p)"
  obtains filepath myport where "vec_at argv 1 = Some (pp_ip p)" "vec_at argv 2 = Some myport" "atoi myport = Some (pp_port p)"
    "vec_at argv 3 = Some filepath" "TLSClientContext L (certdir filepath @ ''/tracker.crt'') = Inr (pp_ctx p)"
    "pp_rows p = rows_of os filepath" "pp_session p = fresh_session files"
    "pp_address p = (''0.0.0.0'', word_of_int (pp_port p))"
  using assms
  by (auto simp: peer_main_def ClientServer_listen_def listener_Inr map_sum_Inr bind_Some_conv case_sum_eq split: if_splits)

text \<open>A tracker that ends before it has read its files leaves them as they were.\<close>

lemma early_exit_keeps_files:
  assumes "tracker_main os L f argv = Some (Inl e, f')" "complaint e \<noteq> [] \<or> e = MutexFailed"
  shows "f' = f"
proof -
  have "x = f" if "tracker_begin os info seq ctxs f = Some (Inl e, x)" for info seq ctxs x
    using that assms(2)
    by (auto simp: tracker_begin_def TrackerServer_listen_def listener_def Let_def bind_Some_conv split: if_splits)
  then show ?thesis using assms(1) by (auto simp: tracker_main_def bind_Some_conv case_sum_eq)
qed

text \<open>Numbers that were read are printed as words.\<close>

lemma atoi_range: "atoi s = Some v \<Longrightarrow> - (2 ^ 31) \<le> v \<and> v < 2 ^ 31"
  by (auto simp: atoi_def int_range_def Let_def split: list.splits if_splits)

lemma word_ok_to_string:
  assumes "- (2 ^ 31) \<le> v" "v < 2 ^ 31"
  shows "word_ok (to_string v)"
proof -
  have "length (nat_to_string (nat \<bar>v\<bar>)) \<le> 10"
    using length_nat_to_string [of "nat \<bar>v\<bar>" 9] assms by simp
  moreover have "nat \<bar>v\<bar> = (if v < 0 then nat (- v) else nat v)" by simp
  moreover have "token (CHR ''-'' # w)" if "token w" for w using that by (simp add: token_def is_space_def)
  ultimately show ?thesis by (auto simp: to_string_def word_ok_def)
qed

text \<open>The tracker file as a peer reads it.\<close>

lemma tracker_addr_pair:
  "token a \<Longrightarrow> token b \<Longrightarrow> tracker_addr (pair_text (a, b)) = map_option (Pair a) (atoi b)"
  using split_str_join [of "[a, b]" sp]
  by (simp add: tracker_addr_def pair_text_def vec_at_def map_conv_bind_option comp_def)

lemma map_opt_tracker_addr:
  assumes "info_ok info"
  shows "map_opt tracker_addr (map pair_text info) = Some (map (\<lambda>(a, b). (a, the (atoi b))) info)"
  using assms by (intro map_opt_map) (auto simp: info_ok_def tracker_addr_pair)

lemma started_peer_ready:
  assumes start: "peer_main os L files argv = Some (Inr q)" and ip: "word_ok (pp_ip q)"
    and rows: "pp_rows q = map pair_text info" "info_ok info" "(ip, s) \<in> set info" "atoi s = Some port"
    and up: "only_up P (ip, word_of_int port)" and t: "swarm_inv t"
    and sha: "\<And>d. length (sha1 d) = 20" and sizes: "\<And>p f. files p = Some f \<Longrightarrow> length f < 2 ^ 31"
  shows "prompt_inv P (desk_rows (desk_of files cr q)) (desk_seat sha1 (desk_of files cr q)) (pp_session q, t)"
proof -
  obtain myport where port: "atoi myport = Some (pp_port q)" and s: "pp_session q = fresh_session files"
    by (rule peer_mainE [OF start])
  let ?as = "map (\<lambda>(a, b). (a, the (atoi b))) info"
  have "(ip, port) \<in> set ?as" using rows(3,4) by force
  moreover have "up_at P (ip, port)" using up by (simp add: only_up_def)
  ultimately have "filter (up_at P) ?as \<noteq> []" unfolding filter_empty_conv by blast
  then show ?thesis
    using map_opt_tracker_addr [OF rows(2)] word_ok_to_string atoi_range [OF port] ip sha sizes t
    by (auto simp: prompt_inv_def seat_ok_def session_ok_def desk_seat_def seat_of_def desk_of_def rows(1) s fresh_session_def)
qed

text \<open>The tracker: the address it serves at is one of the lines of its file.\<close>

lemma started_tracker:
  assumes "tracker_main os L f argv = Some (Inr p, f')"
  obtains ip s port where "(ip, s) \<in> set (tp_info p)" "atoi s = Some port" "tp_address p = (ip, word_of_int port)"
    "tracker_start (sibling_link os (tp_sibling p)) f = Some (tp_state p)"
proof -
  from assms obtain info seq where b: "tracker_begin os info seq (tp_server_ctx p, tp_client_ctx p) f = Some (Inr p, f')"
    by (rule tracker_mainE)
  obtain ip s port where own: "vec_at_int info seq = Some (ip, s)" "atoi s = Some port" "tp_address p = (ip, word_of_int port)"
    "tp_info p = info" "tracker_start (sibling_link os (tp_sibling p)) f = Some (tp_state p)"
    by (rule tracker_beginE [OF b])
  have "(ip, s) \<in> set info"
    using own(1) by (auto simp: vec_at_int_def vec_at_def in_set_conv_nth intro!: exI [of _ "nat seq"] split: if_splits)
  then show thesis using that own(2-5) by simp
qed

lemma start_needs_link: "tracker_start l f = Some t \<Longrightarrow> l \<noteq> Refused"
proof
  assume start: "tracker_start l f = Some t" and "l = Refused"
  then obtain u where "FetchDetails \<lparr>credentials = Map.empty, online_users = Map.empty, online = {}, group_members = {},
      groups = Map.empty, pending_group_requests = {}, disk = f, link = Refused, outbox = []\<rparr> = Some u" "SyncAll u = Some t"
    by (auto simp: tracker_start_def bind_Some_conv)
  moreover from this(1) have "link u = Refused"
    by (auto simp: FetchDetails_def Let_def bind_Some_conv split: prod.splits)
  ultimately show False by (simp add: SyncAll_def IsOnline_def)
qed

lemma tools_contexts: "tools_ok os L certs \<Longrightarrow> \<exists>s c. tracker_contexts L certs = Inr (s, c)"
  by (auto simp: tools_ok_def tracker_contexts_def TLSServerContext_def TLSClientContext_def)

text \<open>With a file of two lines, tracker 1 and tracker 2 serve at their own line and have each other as sibling.\<close>

lemma tracker_boots_lemma:
  assumes argv: "vec_at argv 1 = Some filepath" "vec_at argv 2 = Some n" "atoi n = Some (int k + 1)" and k: "k < 2"
    and rows: "rows_of os filepath = map pair_text [(ip0, p0), (ip1, p1)]" "info_ok [(ip0, p0), (ip1, p1)]"
      "atoi p0 = Some port0" "atoi p1 = Some port1"
    and tools: "tools_ok os L (certdir filepath)" and link: "\<And>a. sibling_link os a \<noteq> Refused"
    and start: "\<And>l. l \<noteq> Refused \<Longrightarrow> \<exists>t. tracker_start l f = Some t \<and> swarm_inv t \<and> disk t = f'"
  shows "\<exists>p. tracker_main os L f argv = Some (Inr p, f') \<and> swarm_inv (tp_state p) \<and> tp_info p = [(ip0, p0), (ip1, p1)] \<and>
    tp_address p = [(ip0, word_of_int port0), (ip1, word_of_int port1)] ! k \<and>
    tp_sibling p = [(ip0, word_of_int port0), (ip1, word_of_int port1)] ! (1 - k)"
proof -
  let ?info = "[(ip0, p0), (ip1, p1)]" and ?at = "[(ip0, word_of_int port0), (ip1, word_of_int port1)] :: (string \<times> 16 word) list"
  have info: "read_tracker_info (rows_of os filepath) = ?info"
    using read_tracker_info_lines [of ?info] rows(1,2) by (auto simp: info_ok_def)
  obtain s c where ctx: "tracker_contexts L (certdir filepath) = Inr (s, c)" using tools_contexts [OF tools] by blast
  have seq: "int_range (int k + 1 - 1) = Some (int k)" using k by (simp add: int_range_def)
  consider "k = 0" | "k = 1" using k by linarith
  then obtain ipk pk portk ipo po porto where own: "vec_at_int ?info (int k) = Some (ipk, pk)" "atoi pk = Some portk"
      "?at ! k = (ipk, word_of_int portk)"
    and sib: "vec_at_int ?info (GetTracker2 (int k)) = Some (ipo, po)" "atoi po = Some porto"
      "?at ! (1 - k) = (ipo, word_of_int porto)"
    using rows(3,4) by cases (auto simp: vec_at_int_def vec_at_def GetTracker2_def)
  obtain t' where t': "tracker_start (sibling_link os (ipo, word_of_int porto)) f = Some t'" "swarm_inv t'" "disk t' = f'"
    using start [OF link] by blast
  have "tracker_begin os ?info (int k) (s, c) f = Some (Inr \<lparr>tp_info = ?info, tp_server_ctx = s, tp_client_ctx = c,
      tp_sibling = (ipo, word_of_int porto), tp_address = (ipk, word_of_int portk), tp_state = t'\<rparr>, f')"
    using tools t' own(1,2) sib(1,2)
    by (simp add: tracker_begin_def tools_ok_def TrackerServer_listen_def listener_def)
  then show ?thesis using argv info ctx seq own(3) sib(3) t'(2) by (simp add: tracker_main_def)
qed

text \<open>With one line in the tracker file, tracker 1 looks for its sibling past the end of \<open>tracker_info\<close>.\<close>

lemma one_line_start:
  assumes "vec_at argv 1 = Some filepath" "vec_at argv 2 = Some n" "atoi n = Some 1"
    "length (read_tracker_info (rows_of os filepath)) = 1" "tools_ok os L (certdir filepath)"
  shows "tracker_main os L f argv = None"
proof -
  obtain s c where "tracker_contexts L (certdir filepath) = Inr (s, c)" using tools_contexts [OF assms(5)] by blast
  then show ?thesis
    using assms by (simp add: tracker_main_def tracker_begin_def tools_ok_def GetTracker2_def vec_at_int_def vec_at_def int_range_def)
qed

end
