(* ===== verification/Tracker_Properties.thy ===== *)
theory Tracker_Properties
  imports Tracker_Runs
begin

text \<open>
  What the tracker promises: its runs refine the abstract tracker, what stays true of accounts, groups
  and shares over a whole run, who may read and change what, and how the pair of trackers stays
  together. The last part is about the ways in which it does not: names that collide or contain a
  separator, tables that are not reloaded, a login that does not move an address.
\<close>


section \<open>A run to evaluate\<close>

lemma fresh_fields [simp]:
  "credentials (fresh_tracker l) = Map.empty" "groups (fresh_tracker l) = Map.empty"
  "online (fresh_tracker l) = {}" "pending_group_requests (fresh_tracker l) = {}"
  "link (fresh_tracker l) = l" "outbox (fresh_tracker l) = []"
  by (simp_all add: fresh_tracker_def)

lemma fresh_swarm [simp]: "l \<noteq> Refused \<Longrightarrow> swarm_inv (fresh_tracker l)"
  by (simp add: swarm_inv_def canonical_def coherent_def)

definition empty_swarm :: swarm where
  "empty_swarm = \<lparr>accounts = Map.empty, addresses = Map.empty, owners = Map.empty, roster = (\<lambda>g. {}),
     requests = {}, shares = (\<lambda>g. []), library = (\<lambda>u. []), started = (\<lambda>u. []), finished = (\<lambda>u. [])\<rparr>"

lemma fresh_view: "view (disk (fresh_tracker l)) = empty_swarm"
  by (simp add: view_def empty_swarm_def disk_members_def fun_eq_iff)

definition demo_run :: "(env \<times> request) list" where
  "demo_run = map (Pair demo_env)
     [CreateUser ''alice'' ''pw'' ''20001'' ''10.0.0.5'', CreateUser ''bob'' ''pw'' ''20002'' ''10.0.0.6'',
      CreateGroup ''demo'' ''alice'', JoinGroup ''demo'' ''bob'', AcceptRequest ''demo'' ''bob'' ''alice'']"

lemma good_names [simp]:
  "good_user ''alice''" "good_user ''bob''" "good_user ''carol''" "good_group ''demo''"
  by (simp_all add: good_user_def good_group_def suffix_def)

lemma demo_acceptable: "\<forall>e\<in>set demo_run. acceptable e"
  by (simp add: demo_run_def acceptable_def benign_def words_ok_def message_def MAX_MSG_SIZE_def token_def is_space_def)

lemma benign_words:
  "benign r \<Longrightarrow> length (message r) \<le> MAX_MSG_SIZE \<Longrightarrow> acceptable (E, r)"
  by (simp add: acceptable_def)


section \<open>Runs\<close>

abbreviation spec_run :: "(env \<times> request) list \<Rightarrow> swarm \<Rightarrow> swarm" where
  "spec_run es \<equiv> fold (\<lambda>e. spec_state (fst e) (snd e)) es"

lemma serve_run:
  assumes "\<forall>e\<in>set es. acceptable e" "swarm_inv t"
  shows "\<exists>t'. run_steps serve es t = Some t' \<and> swarm_inv t' \<and> view (disk t') = spec_run es (view (disk t))"
  using kernel_safe.run_safe [OF assms] kernel_sim.run_abs [OF assms] by blast

lemma kernel_handle:
  "words_ok r \<Longrightarrow> length (message r) \<le> MAX_MSG_SIZE \<Longrightarrow>
     TrackerKernel True E record_read (wire (message r)) t = handle E r t"
  using TLSRecvMsg_wire [of "message r" "[]"] dispatch_message [of r E record_read "[]" t]
  by (simp add: TrackerKernel_def)

lemma kernel_reply:
  assumes "acceptable (E, r)" "swarm_inv t"
  shows "\<exists>rep t'. TrackerKernel True E record_read (wire (message r)) t = Some (rep, t') \<and> swarm_inv t' \<and>
    view (disk t') = spec_state E r (view (disk t)) \<and>
    ((\<forall>g u c. r = AcceptRequest g u c \<longrightarrow> u \<notin> roster (view (disk t)) g) \<longrightarrow> rep = spec_reply E r (view (disk t)))"
proof -
  have "TrackerKernel True E record_read (wire (message r)) t = handle E r t"
    using assms(1) by (intro kernel_handle) (simp_all add: acceptable_def benign_def)
  moreover have "refines E r t" using handle_refines [OF assms(2)] assms(1) by (simp add: acceptable_def)
  then obtain rep t' where "handle E r t = Some (rep, t')" "swarm_inv t'"
    "view (disk t') = spec_state E r (view (disk t))"
    "(\<exists>g u c. r = AcceptRequest g u c \<and> u \<in> roster (view (disk t)) g) \<or> rep = spec_reply E r (view (disk t))"
    unfolding refines_def by blast
  ultimately show ?thesis by (intro exI [of _ rep] exI [of _ t'] conjI impI) (simp_all, blast)
qed

text \<open>Where the cached requests are those of the file, the reply is the abstract one without exception.\<close>

lemma kernel_reply_reloaded:
  assumes "acceptable (E, r)" "swarm_inv t" "pending_group_requests t = disk_pending (disk t)"
  shows "\<exists>t'. TrackerKernel True E record_read (wire (message r)) t = Some (spec_reply E r (view (disk t)), t')"
proof (cases "\<exists>g u c. r = AcceptRequest g u c")
  case True
  then obtain g u c where r: "r = AcceptRequest g u c" by blast
  have b: "benign r" using assms(1) by (simp add: acceptable_def)
  have args: "token u" "token g" "good_group g" using benign_token [OF b] b by (simp_all add: benign_def r)
  obtain t' where "GroupAcceptRequest g u c t = Some (accepts t g u c, t')"
    using GroupAcceptRequest_spec [OF swarm_invD(1) [OF assms(2)] args(1,3,2)] by blast
  moreover have "accepts t g u c \<longleftrightarrow> disk_groups (disk t) g = Some c \<and>
      disk_credentials (disk t) u \<noteq> None \<and> (u, g) \<in> disk_pending (disk t)"
    using swarm_invD(2) [OF assms(2)] assms(3) by (simp add: accepts_def coherent_def)
  ultimately have "handle E r t = Some (spec_reply E r (view (disk t)), t')" using args by (simp add: r yes_no_def)
  moreover have "TrackerKernel True E record_read (wire (message r)) t = handle E r t"
    using assms(1) by (intro kernel_handle) (simp_all add: acceptable_def benign_def)
  ultimately show ?thesis by simp
next
  case False
  then show ?thesis using kernel_reply [OF assms(1,2)] by blast
qed

text \<open>Once given, accounts and groups stay as they are.\<close>

lemma spec_permanent:
  "accounts a u = Some x \<Longrightarrow> accounts (spec_state E r a) u = Some x"
  "owners a g = Some c \<Longrightarrow> owners (spec_state E r a) g = Some c"
  by (cases r; auto)+

lemma run_permanent:
  "accounts a u = Some x \<Longrightarrow> accounts (spec_run es a) u = Some x"
  "owners a g = Some c \<Longrightarrow> owners (spec_run es a) g = Some c"
  by (induction es arbitrary: a) (auto simp: spec_permanent)

text \<open>A member owns the group or was let in, at his own request, by a request of its owner.\<close>

lemma spec_roster:
  "u \<in> roster (spec_state E r a) g \<Longrightarrow> u \<notin> roster a g \<Longrightarrow>
     owners (spec_state E r a) g = Some u \<or>
     (\<exists>c. r = AcceptRequest g u c \<and> owners a g = Some c \<and> (u, g) \<in> requests a)"
  by (cases r) (auto split: if_splits)

definition invited :: "(env \<times> request) list \<Rightarrow> swarm \<Rightarrow> string \<Rightarrow> string \<Rightarrow> bool" where
  "invited es a u g \<longleftrightarrow>
     (\<exists>es1 es2 E c. es = es1 @ (E, AcceptRequest g u c) # es2 \<and> (u, g) \<in> requests (spec_run es1 a) \<and>
        owners (spec_run es1 a) g = Some c \<and> owners (spec_run es a) g = Some c)"

lemma invited_snoc:
  assumes "invited es a u g"
  shows "invited (es @ [e]) a u g"
proof -
  obtain es1 es2 E c where i: "es = es1 @ (E, AcceptRequest g u c) # es2" "(u, g) \<in> requests (spec_run es1 a)"
    "owners (spec_run es1 a) g = Some c" "owners (spec_run es a) g = Some c"
    using assms by (auto simp: invited_def)
  have "owners (spec_run (es @ [e]) a) g = Some c" using spec_permanent(2) [OF i(4)] by simp
  moreover have "es @ [e] = es1 @ (E, AcceptRequest g u c) # (es2 @ [e])" using i(1) by simp
  ultimately show ?thesis using i(2,3) unfolding invited_def by blast
qed

lemma run_roster:
  "u \<in> roster (spec_run es a) g \<Longrightarrow> u \<in> roster a g \<or> owners (spec_run es a) g = Some u \<or> invited es a u g"
proof (induction es rule: rev_induct)
  case (snoc e es)
  let ?a = "spec_run es a"
  have now: "spec_run (es @ [e]) a = spec_state (fst e) (snd e) ?a" by simp
  show ?case
  proof (cases "u \<in> roster ?a g")
    case True
    then show ?thesis using snoc.IH spec_permanent(2) [of ?a g u] invited_snoc unfolding now by blast
  next
    case False
    consider "owners (spec_run (es @ [e]) a) g = Some u"
      | c where "snd e = AcceptRequest g u c" "owners ?a g = Some c" "(u, g) \<in> requests ?a"
      using spec_roster [OF _ False, of "fst e" "snd e"] snoc.prems now by auto
    then show ?thesis
    proof cases
      case 2
      then have "es @ [e] = es @ (fst e, AcceptRequest g u c) # []" "owners (spec_run (es @ [e]) a) g = Some c"
        using spec_permanent(2) [of ?a g c] now by (metis prod.collapse, simp)
      then show ?thesis using 2 unfolding invited_def by blast
    qed simp
  qed
qed simp


text \<open>The state the example run ends in.\<close>

lemma demo_state:
  obtains t where "run_steps serve demo_run (fresh_tracker Online) = Some t" "swarm_inv t"
    "view (disk t) = spec_run demo_run empty_swarm" "swarm_wf (view (disk t))"
    "has_member (view (disk t)) ''demo'' ''alice''" "has_member (view (disk t)) ''demo'' ''bob''"
    "owners (view (disk t)) ''demo'' = Some ''alice''" "accounts (view (disk t)) ''bob'' \<noteq> None"
    "addresses (view (disk t)) ''alice'' = Some (''10.0.0.5'', ''20001'')" "shares (view (disk t)) ''demo'' = []"
proof -
  obtain t where t: "run_steps serve demo_run (fresh_tracker Online) = Some t" "swarm_inv t"
    "view (disk t) = spec_run demo_run empty_swarm"
    using serve_run [OF demo_acceptable fresh_swarm, of Online] fresh_view by auto
  have "swarm_wf empty_swarm" by (simp add: swarm_wf_def shares_wf_def empty_swarm_def)
  then have "swarm_wf (view (disk t))" unfolding t(3) by (rule run_wf [OF demo_acceptable])
  moreover have "has_member (view (disk t)) ''demo'' ''alice''" "has_member (view (disk t)) ''demo'' ''bob''"
    "owners (view (disk t)) ''demo'' = Some ''alice''" "accounts (view (disk t)) ''bob'' \<noteq> None"
    "addresses (view (disk t)) ''alice'' = Some (''10.0.0.5'', ''20001'')" "shares (view (disk t)) ''demo'' = []"
    unfolding t(3) by (simp_all add: demo_run_def empty_swarm_def has_member_def del: view_simps)
  ultimately show thesis using that t by blast
qed

lemma demo_login: "login_ok demo_env (spec_run demo_run empty_swarm) ''alice'' ''pw''"
  by (simp add: login_ok_def demo_run_def empty_swarm_def GenerateSalt_def HashPassword_def split_stored_salt)

lemma demo_requests:
  "acceptable (demo_env, UploadFile ''h1'' ''5'' ''demo'' ''alice'' ''f.txt'' ''f.txt'')"
  "acceptable (demo_env, GiveSha ''demo'' ''f.txt'' ''bob'')"
  "acceptable (demo_env, StopShare ''demo'' ''f.txt'' ''bob'')" "acceptable (demo_env, LeaveGroup ''demo'' ''bob'')"
  "acceptable (demo_env, Login ''alice'' ''pw'' ''20002'' ''10.0.0.6'')"
  "acceptable (demo_env, CreateGroup ''demo'' ''alice'')" "acceptable (demo_env, GiveDetails ''alice'')"
  by (simp_all add: acceptable_def benign_def words_ok_def message_def MAX_MSG_SIZE_def token_def is_space_def)


text \<open>Which connections the creation of a group opens.\<close>

lemma Syncs_outbox:
  "Syncs ps t = Some t' \<Longrightarrow> fst ` set (outbox t') \<subseteq> fst ` set (outbox t) \<union> (\<lambda>p. ''Sync '' @ p) ` set ps"
proof (induction ps arbitrary: t)
  case (Cons p ps)
  then obtain v where v: "Sync p t = Some v" "Syncs ps v = Some t'" by (auto simp: Syncs.simps bind_Some_conv)
  have "fst ` set (outbox v) \<subseteq> insert (''Sync '' @ p) (fst ` set (outbox t))"
    using v(1) by (auto simp: Sync_def split: if_splits option.splits link.splits)
  then show ?case using Cons.IH [OF v(2)] by (simp only: list.set image_insert) blast
qed (simp add: Syncs.simps)

lemma Syncs_missing: "link t = Online \<Longrightarrow> content (disk t) p = None \<Longrightarrow> p \<in> set ps \<Longrightarrow> Syncs ps t = None"
proof (induction ps arbitrary: t)
  case (Cons q ps)
  show ?case
  proof (cases "content (disk t) q")
    case None
    then show ?thesis using Cons.prems(1) by (simp add: Syncs.simps Sync_def IsOnline_def)
  next
    case (Some c)
    then have "p \<in> set ps" using Cons.prems by auto
    then show ?thesis using Some Cons.prems Cons.IH by (simp add: Syncs.simps)
  qed
qed simp

lemma FetchDetails_outbox: "FetchDetails t = Some t' \<Longrightarrow> outbox t' = outbox t"
  by (auto simp: FetchDetails_def Let_def bind_Some_conv case_prod_unfold)

lemma GroupCreate_outbox:
  assumes "GroupCreate g u t = Some (b, t')"
  shows "fst ` set (outbox t') \<subseteq> fst ` set (outbox t) \<union> (\<lambda>p. ''Sync '' @ p) ` {groups_path, members_path g, shares_path g}"
proof -
  obtain t1 where t1: "FetchDetails t = Some t1" using assms by (auto simp: GroupCreate_def bind_Some_conv)
  show ?thesis
  proof (cases "groups t1 g = None")
    case True
    obtain f t2 where t2: "Syncs [groups_path, members_path g, shares_path g] (t1\<lparr>disk := f\<rparr>) = Some t2"
      "FetchDetails t2 = Some t'"
      using assms t1 True by (auto simp: GroupCreate_def Let_def bind_Some_conv)
    then show ?thesis
      using Syncs_outbox [OF t2(1)] FetchDetails_outbox [OF t2(2)] FetchDetails_outbox [OF t1]
      by (simp only: tracker.select_convs tracker.update_convs list.set) simp
  next
    case False
    then show ?thesis using assms t1 FetchDetails_outbox [OF t1] by (auto simp: GroupCreate_def)
  qed
qed

lemma demo_creation:
  obtains t' where "serve (demo_env, CreateGroup ''demo'' ''alice'') (fresh_tracker Online) = Some t'"
    "\<forall>m\<in>set (outbox t'). length (fst m) \<le> MAX_MSG_SIZE"
proof -
  obtain t' where t': "serve (demo_env, CreateGroup ''demo'' ''alice'') (fresh_tracker Online) = Some t'"
    by (rule serve_refines [OF demo_requests(6) fresh_swarm [of Online]]) auto
  obtain b where "GroupCreate ''demo'' ''alice'' (fresh_tracker Online) = Some (b, t')"
    using t' serve_handle [OF demo_requests(6), of "fresh_tracker Online"] by (auto simp: reply_bool_def)
  from GroupCreate_outbox [OF this]
  have "fst m \<in> (\<lambda>p. ''Sync '' @ p) ` {groups_path, members_path ''demo'', shares_path ''demo''}" if "m \<in> set (outbox t')" for m
    using that by auto
  then have "\<forall>m\<in>set (outbox t'). length (fst m) \<le> MAX_MSG_SIZE"
    by (fastforce simp: path_defs MAX_MSG_SIZE_def)
  then show thesis using that t' by blast
qed

lemma fresh_caught_up: "caught_up (fresh_tracker Offline) (fresh_tracker Online)"
  using tracker_invD(2) [OF fresh_inv, of Offline] by (simp add: caught_up_def fun_eq_iff)

text \<open>The first start, in a directory without \<open>.all_files\<close>, gives \<open>fresh_tracker\<close>.\<close>

definition empty_disk :: files where
  "empty_disk = \<lparr>content = Map.empty, dirs = {''.''}\<rparr>"

lemma first_start:
  assumes "l \<noteq> Refused"
  shows "tracker_start l empty_disk =
    Some ((fresh_tracker l)\<lparr>outbox := if l = Online then [(''SyncAll'', [])] else []\<rparr>)"
proof -
  have "FetchDetails \<lparr>credentials = Map.empty, online_users = Map.empty, online = {}, group_members = {},
      groups = Map.empty, pending_group_requests = {}, disk = empty_disk, link = l, outbox = []\<rparr> =
    Some (fresh_tracker l)"
    by (simp add: FetchDetails_def fresh_tracker_def empty_disk_def CheckDir_def make_dir_def open_or_create_def
        file_lines_def file_create_def openable_def dirname_def path_defs insert_commute)
  then show ?thesis using SyncAll_ok [of "fresh_tracker l"] assms by (simp add: tracker_start_def)
qed

text \<open>A disk that has caught up is ready to serve as soon as the tables are read again.\<close>

lemma caught_up_fetched:
  assumes "caught_up s t" "swarm_inv t" "link s \<noteq> Refused"
  shows "FetchDetails s = Some (fetched s)" "swarm_inv (fetched s)" "view (disk (fetched s)) = view (disk t)"
proof -
  have l: "file_lines (disk s) = file_lines (disk t)" and ok: "files_ok (disk s)"
    using assms(1) by (simp_all add: caught_up_def)
  have wf: "wf_disk (disk s)" using tracker_invD(1) [OF swarm_invD(1) [OF assms(2)]] l ok by (simp add: wf_disk_def)
  then show "FetchDetails s = Some (fetched s)" by (rule FetchDetails_fetched)
  have l': "file_lines (disk (fetched s)) = file_lines (disk t)" using l by (simp add: fun_eq_iff)
  have "tracker_inv (fetched s)"
    using wf assms(3) by (simp add: tracker_inv_def base_files_def exists_fetched)
  then show "swarm_inv (fetched s)" "view (disk (fetched s)) = view (disk t)"
    using unchanged [OF assms(2) l'] by (simp_all add: swarm_inv_def)
qed

text \<open>A tracker with one account, and the listing of its directory.\<close>

definition one_account :: tracker where
  "one_account = fetched ((fresh_tracker Online)\<lparr>disk :=
     file_append (disk (fresh_tracker Online)) credential_path (endl ''alice 00:11'')\<rparr>)"

definition listing_env :: env where
  "listing_env = demo_env\<lparr>dir_entries := [''.'', ''..'', ''.credential.txt'', ''.online.txt'']\<rparr>"

lemma one_account:
  "swarm_inv one_account" "lists_files listing_env (disk one_account)"
  "file_lines (disk one_account) credential_path = [''alice 00:11'']"
proof -
  let ?d = "file_append (disk (fresh_tracker Online)) credential_path (endl ''alice 00:11'')"
  let ?t = "(fresh_tracker Online)\<lparr>disk := ?d\<rparr>"
  note inv = fresh_inv [of Online]
  have "openable (disk (fresh_tracker Online)) credential_path"
    by (simp add: openable_def path_defs dirname_def fresh_tracker_def)
  moreover have "credential_path \<noteq> temp_path" "fields_ok credential_path ''alice 00:11''"
    by (simp_all add: path_defs fields_ok_def min_fields_def between_def temp_path_def)
      (simp add: split_str_def)
  ultimately have d: "wf_disk ?d"
    "file_lines ?d = (file_lines (disk (fresh_tracker Online)))(credential_path := [''alice 00:11''])"
    "\<And>q. q \<in> base_files \<Longrightarrow> exists_file ?d q"
    using append_step [OF tracker_invD(1) [OF inv], of credential_path "''alice 00:11''"] tracker_invD(6) [OF inv]
    by auto
  have inv': "tracker_inv ?t" using d by (simp add: tracker_inv_def)
  have one: "disk one_account = ?d" using tracker_invD(5) [OF inv'] by (simp add: one_account_def)
  have "tracker_inv one_account" using inv' one by (simp add: tracker_inv_def one_account_def)
  then show "swarm_inv one_account" using one d(2)
    by (simp add: swarm_inv_def canonical_def one_account_def)
  show "file_lines (disk one_account) credential_path = [''alice 00:11'']" using one d(2) by simp
  have "set (entry_paths (dir_entries listing_env)) = {credential_path, online_path}"
    by (simp add: entry_paths_def listing_env_def path_defs)
  moreover have "length credential_path + 5 \<le> MAX_MSG_SIZE" "length online_path + 5 \<le> MAX_MSG_SIZE"
    by (simp_all add: path_defs MAX_MSG_SIZE_def)
  ultimately show "lists_files listing_env (disk one_account)"
    using d(2) d(3) [of credential_path] d(3) [of online_path] one by (simp add: lists_files_def base_files_def)
qed



text \<open>The creation of a group whose member file is the share file of another group.\<close>

lemma members_path_files: "members_path (x @ ''_files'') = shares_path x"
  by (simp add: members_path_def shares_path_def)

lemma colliding_group:
  assumes inv: "tracker_inv t" and free: "disk_groups (disk t) (x @ ''_files'') = None"
    and args: "token x" "token v" "slash \<notin> set x"
  shows "\<exists>t'. GroupCreate (x @ ''_files'') v t = Some (True, t') \<and> files_ok (disk t') \<and>
    file_lines (disk t') = (file_lines (disk t))
      (groups_path := file_lines (disk t) groups_path @ [join sp [x @ ''_files'', v]],
       shares_path x := [v], shares_path (x @ ''_files'') := [])"
proof -
  let ?g = "x @ ''_files''" and ?p = "shares_path x" and ?q = "shares_path (x @ ''_files'')"
  let ?gl = "join sp [?g, v]"
  define f1 where "f1 = file_append (disk t) groups_path (endl ?gl)"
  define f2 where "f2 = file_create f1 ?p"
  define f3 where "f3 = file_append f2 ?p (endl v)"
  define f4 where "f4 = file_create f3 ?q"
  note wf = tracker_invD [OF inv]
  have g: "token ?g" "slash \<notin> set ?g" using args by (auto simp: token_def is_space_def)
  have nls: "nl \<notin> set ?gl" "nl \<notin> set v" using g args by auto
  have ok: "files_ok f1" "files_ok f2" "files_ok f3" "files_ok f4"
    using wf(2) by (simp_all add: f1_def f2_def f3_def f4_def files_ok_append_endl files_ok_create)
  have lines: "file_lines f4 = (file_lines (disk t))(groups_path := file_lines (disk t) groups_path @ [?gl], ?p := [v], ?q := [])"
    using wf ok(1-3) nls g args by (simp add: f4_def f3_def f2_def f1_def file_lines_fun del: join.simps)
  have ex: "\<forall>q\<in>set [groups_path, ?p, ?q]. exists_file f4 q"
    using wf g args by (auto simp: f4_def f3_def f2_def f1_def)
  let ?t = "fetched t\<lparr>disk := f4\<rparr>"
  have sync: "Syncs [groups_path, ?p, ?q] ?t = Some (?t\<lparr>outbox := outbox t @ pushed (link t) f4 [groups_path, ?p, ?q]\<rparr>)"
    using Syncs_ok [of ?t] wf(3) ex by simp
  let ?u = "?t\<lparr>outbox := outbox t @ pushed (link t) f4 [groups_path, ?p, ?q]\<rparr>"
  have "\<forall>l\<in>set (file_lines f4 online_path). 3 \<le> length (split_str l sp)"
    "\<forall>l\<in>set (file_lines f4 groups_path). 2 \<le> length (split_str l sp)"
    unfolding lines using wf(1) g args split_str_join [of "[?g, v]" sp]
    by (force simp: wf_disk_def fields_ok_def simp del: join.simps)+
  then have fetch: "FetchDetails ?u = Some (fetched ?u)"
    unfolding fetched_def [of ?u] using ok(4) by (intro FetchDetails_tables) simp_all
  have "disk (fetched ?u) = f4"
    using wf(6) by (simp add: fetched_def f4_def f3_def f2_def f1_def base_files_def)
  moreover have "GroupCreate ?g v t = Some (True, fetched ?u)"
    using wf(4,5) free sync fetch
    by (simp add: GroupCreate_def Let_def members_path_files f4_def f3_def f2_def f1_def del: join.simps)
  ultimately show ?thesis using ok(4) lines by auto
qed

lemma colliding_sha:
  assumes ok: "files_ok (disk t')" and lines: "file_lines (disk t') = (file_lines f)
      (groups_path := file_lines f groups_path @ [join sp [x @ ''_files'', v]],
       shares_path x := [v], shares_path (x @ ''_files'') := [])"
    and wf: "wf_disk f" and args: "token v" "token x"
    and member: "disk_groups f x \<noteq> None" "m \<in> disk_members f x"
  shows "SendSHA x n m t' = None"
proof -
  let ?g = "x @ ''_files''"
  have sp: "sp \<notin> set v" "sp \<notin> set ?g" using args by (auto simp: token_def is_space_def)
  have "\<forall>l\<in>set (file_lines (disk t') online_path). 3 \<le> length (split_str l sp)"
    "\<forall>l\<in>set (file_lines (disk t') groups_path). 2 \<le> length (split_str l sp)"
    unfolding lines using wf split_str_join [of "[?g, v]" sp] sp
    by (force simp: wf_disk_def fields_ok_def simp del: join.simps)+
  then have "FetchDetails t' = Some (fetched t')"
    unfolding fetched_def [of t'] using ok by (intro FetchDetails_tables) simp_all
  moreover have "disk_groups (disk t') x \<noteq> None"
    using member(1) fld_join [of "[?g, v]"] sp
    by (simp add: disk_groups_def lines assign_all_map_of del: join.simps)
  moreover have "members_path x \<noteq> shares_path x" "members_path x \<noteq> shares_path ?g" "members_path x \<noteq> groups_path"
    by (simp_all add: members_path_def shares_path_def groups_path_def)
  then have "m \<in> set (file_lines (disk t') (members_path x))"
    using member(2) by (simp add: disk_members_def lines)
  moreover have "shares_path x \<noteq> shares_path ?g" by (simp add: shares_path_def)
  then have "file_lines (disk t') (shares_path x) = [v]" by (simp add: lines)
  moreover have "field v 3 = None" using sp(1) split_str_join [of "[v]" sp] by (simp add: field_def vec_at_def)
  ultimately show ?thesis by (simp add: SendSHA_def FetchGroupMembers_def Let_def)
qed



section \<open>Properties\<close>

text \<open>C3: Every sequence of client connections that carry well-formed requests is served without
  undefined behaviour, whatever the requests and their order, and the files it leaves read back as
  the state the abstract tracker reaches by the same requests.\<close>

theorem runs_refine_spec:
  assumes "\<forall>e\<in>set es. acceptable e" "swarm_inv t"
  shows "\<exists>t'. run_steps serve es t = Some t' \<and> swarm_inv t' \<and> view (disk t') = spec_run es (view (disk t))"
  by (rule serve_run [OF assms])

theorem runs_refine_spec_witness:
  "\<exists>t'. run_steps serve demo_run (fresh_tracker Online) = Some t' \<and> swarm_inv t' \<and>
     view (disk t') = spec_run demo_run (view (disk (fresh_tracker Online)))"
  by (rule runs_refine_spec [OF demo_acceptable fresh_swarm]) simp

text \<open>C8: The reply sent on a connection is the abstract tracker's answer in the state of the files.
  The one request left open is a repeated \<open>accept_request\<close> for somebody who is already a member.\<close>

theorem reply_is_spec:
  assumes "acceptable (E, r)" "swarm_inv t" "\<And>g u c. r = AcceptRequest g u c \<Longrightarrow> u \<notin> roster (view (disk t)) g"
  shows "\<exists>t'. TrackerKernel True E record_read (wire (message r)) t = Some (spec_reply E r (view (disk t)), t')"
  using kernel_reply [OF assms(1,2)] assms(3) by blast

theorem reply_is_spec_witness:
  "\<exists>t'. TrackerKernel True demo_env record_read (wire (message (CreateGroup ''demo'' ''alice''))) (fresh_tracker Online) =
     Some (Some ''1'', t')"
proof -
  have "acceptable (demo_env, CreateGroup ''demo'' ''alice'')" using demo_acceptable by (simp add: demo_run_def)
  from reply_is_spec [OF this fresh_swarm, of Online] show ?thesis by (simp add: yes_no_def)
qed

text \<open>C9: In every state reached from an empty tracker, users online have accounts, owners are members,
  requests are for existing groups and not by members, and inside a group a name stands for one hash
  and a known hash has one name.\<close>

theorem reachable_swarm_wf:
  assumes "\<forall>e\<in>set es. acceptable e" "l \<noteq> Refused"
  shows "\<exists>t'. run_steps serve es (fresh_tracker l) = Some t' \<and> swarm_wf (view (disk t'))"
proof -
  have "swarm_wf empty_swarm" by (simp add: swarm_wf_def shares_wf_def empty_swarm_def)
  then have "swarm_wf (spec_run es empty_swarm)" by (rule run_wf [OF assms(1)])
  then show ?thesis using serve_run [OF assms(1) fresh_swarm [OF assms(2)]] fresh_view by metis
qed

theorem reachable_swarm_wf_witness:
  "\<exists>t'. run_steps serve demo_run (fresh_tracker Online) = Some t' \<and> swarm_wf (view (disk t'))"
  by (rule reachable_swarm_wf [OF demo_acceptable]) simp

text \<open>C10: Membership is by invitation: in every state reached from an empty tracker a member of a group either
  owns it, or at some moment of the run had asked to join and was accepted by a request that names the
  owner of the group, who owns it still. In particular a \<open>create_group\<close> for a name that is taken
  enrols nobody.\<close>

theorem members_are_invited:
  assumes "\<forall>e\<in>set es. acceptable e" "run_steps serve es (fresh_tracker Online) = Some t'"
    "u \<in> roster (view (disk t')) g"
  shows "owners (view (disk t')) g = Some u \<or>
    (\<exists>es1 es2 E c t1. es = es1 @ (E, AcceptRequest g u c) # es2 \<and> run_steps serve es1 (fresh_tracker Online) = Some t1 \<and>
      (u, g) \<in> requests (view (disk t1)) \<and> owners (view (disk t1)) g = Some c \<and> owners (view (disk t')) g = Some c)"
proof -
  have run: "\<exists>t. run_steps serve es (fresh_tracker Online) = Some t \<and> view (disk t) = spec_run es empty_swarm"
    if "\<forall>e\<in>set es. acceptable e" for es
    using serve_run [OF that fresh_swarm, of Online] fresh_view by auto
  have v: "view (disk t') = spec_run es empty_swarm" using run [OF assms(1)] assms(2) by auto
  have "u \<notin> roster empty_swarm g" by (simp add: empty_swarm_def)
  then consider "owners (view (disk t')) g = Some u" | "invited es empty_swarm u g"
    using run_roster [of u es empty_swarm g] assms(3) unfolding v by blast
  then show ?thesis
  proof cases
    case 2
    then obtain es1 es2 E c where i: "es = es1 @ (E, AcceptRequest g u c) # es2"
      "(u, g) \<in> requests (spec_run es1 empty_swarm)" "owners (spec_run es1 empty_swarm) g = Some c"
      "owners (spec_run es empty_swarm) g = Some c" by (auto simp: invited_def)
    obtain t1 where "run_steps serve es1 (fresh_tracker Online) = Some t1" "view (disk t1) = spec_run es1 empty_swarm"
      using run [of es1] assms(1) i(1) by auto
    then show ?thesis using i v by metis
  qed simp
qed

theorem members_are_invited_witness:
  "\<exists>t'. run_steps serve demo_run (fresh_tracker Online) = Some t' \<and> ''bob'' \<in> roster (view (disk t')) ''demo'' \<and>
     (\<exists>es1 es2 E c t1. demo_run = es1 @ (E, AcceptRequest ''demo'' ''bob'' c) # es2 \<and>
       run_steps serve es1 (fresh_tracker Online) = Some t1 \<and> (''bob'', ''demo'') \<in> requests (view (disk t1)) \<and>
       owners (view (disk t1)) ''demo'' = Some c \<and> owners (view (disk t')) ''demo'' = Some c)"
proof -
  obtain t' where t': "run_steps serve demo_run (fresh_tracker Online) = Some t'"
    "view (disk t') = spec_run demo_run empty_swarm"
    using serve_run [OF demo_acceptable fresh_swarm, of Online] fresh_view by auto
  have "''bob'' \<in> roster (view (disk t')) ''demo''" "owners (view (disk t')) ''demo'' \<noteq> Some ''bob''"
    unfolding t'(2) by (simp_all add: demo_run_def empty_swarm_def del: view_simps)
  with members_are_invited [OF demo_acceptable t'(1)] t'(1) show ?thesis by blast
qed

text \<open>C24: Accounts and groups are permanent: no sequence of client requests (the \<open>Sync\<close> between the trackers
  is none of them) changes a stored password entry or the owner of a group, whatever else there is.\<close>

theorem accounts_permanent:
  assumes "\<forall>e\<in>set es. acceptable e" "swarm_inv t"
  shows "\<exists>t'. run_steps serve es t = Some t' \<and>
    (\<forall>u x. accounts (view (disk t)) u = Some x \<longrightarrow> accounts (view (disk t')) u = Some x) \<and>
    (\<forall>g c. owners (view (disk t)) g = Some c \<longrightarrow> owners (view (disk t')) g = Some c)"
  using serve_run [OF assms] run_permanent by metis

theorem accounts_permanent_witness:
  "\<exists>t1 x t2. run_steps serve demo_run (fresh_tracker Online) = Some t1 \<and>
     run_steps serve demo_run t1 = Some t2 \<and> accounts (view (disk t1)) ''alice'' = Some x \<and>
     accounts (view (disk t2)) ''alice'' = Some x \<and> owners (view (disk t2)) ''demo'' = Some ''alice''"
proof -
  obtain t1 where t1: "run_steps serve demo_run (fresh_tracker Online) = Some t1" "swarm_inv t1"
    "view (disk t1) = spec_run demo_run empty_swarm"
    using serve_run [OF demo_acceptable fresh_swarm, of Online] fresh_view by auto
  have "owners (view (disk t1)) ''demo'' = Some ''alice''" "\<exists>x. accounts (view (disk t1)) ''alice'' = Some x"
    unfolding t1(3) by (simp_all add: demo_run_def empty_swarm_def del: view_simps)
  then show ?thesis using accounts_permanent [OF demo_acceptable t1(2)] t1(1) by blast
qed

text \<open>C29: Any connection takes accounts over: nothing asks who sends \<open>Sync\<close>, so a client that pushes a credential
  file with one line of its own, for any user and a password of its choice, replaces all accounts by
  that one, and the next login as that user with that password is accepted.\<close>

theorem sync_takes_accounts_over:
  assumes inv: "tracker_inv t" and login: "acceptable (E', Login u pw port ip)" and hash: "sha256 F = sha256 E'"
  shows "\<exists>t1 t2. deliver E (''Sync '' @ credential_path, sync_payloads (endl (credential_line F u pw))) t = Some t1 \<and>
    accounts (view (disk t1)) = [u \<mapsto> GenerateSalt F @ '':'' @ HashPassword F (GenerateSalt F) pw] \<and>
    TrackerKernel True E' record_read (wire (message (Login u pw port ip))) t1 = Some (Some ''1'', t2)"
proof -
  let ?l = "credential_line F u pw" and ?c = "GenerateSalt F @ '':'' @ HashPassword F (GenerateSalt F) pw"
  define t1 where "t1 = t\<lparr>disk := file_append (file_create (disk t) credential_path) credential_path (endl ?l)\<rparr>"
  have b: "benign (Login u pw port ip)" using login by (simp add: acceptable_def)
  have args: "token u" "u \<noteq> []" "token port" "token ip" using benign_token [OF b] by simp_all
  have nl: "nl \<notin> set ?l" using args(1) token_credential [of F pw] by (simp add: credential_line_def token_def is_space_def)
  note wf = tracker_invD [OF inv]
  have eff: "files_ok (disk t1)" "file_lines (disk t1) = (file_lines (disk t))(credential_path := [?l])"
    using deliver_effect [OF wf(2) push_ok_paths(1) _ t1_def] getlines_endl [OF nl] by (simp_all add: endl_def)
  have "fields_ok credential_path ?l" using split_str_not_Nil [of ?l sp] by (simp add: fields_ok_def Suc_le_eq del: split_str_not_Nil)
  then have "fields_ok p l" if "l \<in> set (file_lines (disk t1) p)" for p l
    using that wf(1) unfolding eff(2) wf_disk_def by (cases "p = credential_path") simp_all
  then have "wf_disk (disk t1)" using eff(1) by (simp add: wf_disk_def)
  moreover have "exists_file (disk t1) p" if "p \<in> base_files" for p
    using wf(6) [OF that] by (auto simp: t1_def)
  ultimately have inv1: "tracker_inv t1" using wf(3) by (simp add: tracker_inv_def t1_def)
  have acc: "disk_credentials (disk t1) = [u \<mapsto> ?c]"
    using read_pairs_line [of u ?c "([], [])" "[]"] args token_credential [of F pw] eff(2)
    by (simp add: disk_credentials_def credential_line_def del: join.simps)
  then have "password_ok E' (disk t1) u pw"
    using split_stored_salt [of "rand_bytes F" "sha256 F (hex (rand_bytes F) @ pw)"] hash
    by (simp add: password_ok_def HashPassword_def GenerateSalt_def)
  moreover obtain t2 where "UserLogin E' u pw port ip t1 = Some (password_ok E' (disk t1) u pw, t2)"
    using UserLogin_spec [OF inv1 args(1,3,4)] by blast
  ultimately have "TrackerKernel True E' record_read (wire (message (Login u pw port ip))) t1 = Some (Some ''1'', t2)"
    using login kernel_handle [of "Login u pw port ip" E' t1] by (simp add: acceptable_def benign_def reply_bool_def)
  moreover have "deliver E (''Sync '' @ credential_path, sync_payloads (endl ?l)) t = Some t1"
    unfolding t1_def by (rule deliver_push [OF push_ok_paths(1)]) (simp_all add: endl_def path_defs MAX_MSG_SIZE_def)
  ultimately show ?thesis using acc by auto
qed

theorem sync_takes_accounts_over_witness:
  "\<exists>t t1 t2. run_steps serve demo_run (fresh_tracker Online) = Some t \<and>
    deliver demo_env (''Sync '' @ credential_path, sync_payloads (endl (credential_line demo_env ''alice'' ''evil''))) t = Some t1 \<and>
    TrackerKernel True demo_env record_read (wire (message (Login ''alice'' ''evil'' ''20002'' ''10.0.0.6''))) t1 = Some (Some ''1'', t2)"
proof -
  obtain t where t: "run_steps serve demo_run (fresh_tracker Online) = Some t" "swarm_inv t" by (rule demo_state)
  have "acceptable (demo_env, Login ''alice'' ''evil'' ''20002'' ''10.0.0.6'')"
    by (simp add: acceptable_def benign_def words_ok_def message_def MAX_MSG_SIZE_def token_def is_space_def)
  from sync_takes_accounts_over [OF swarm_invD(1) [OF t(2)] this refl, of demo_env] t(1) show ?thesis by blast
qed

text \<open>C22: The hash of a file is given to members only: on a \<open>give_sha\<close> connection anybody else gets an
  empty reply, which the peer reports as an invalid request, and nothing is recorded.\<close>

theorem hash_for_members_only:
  assumes "acceptable (E, GiveSha g n u)" "swarm_inv t" "\<not> has_member (view (disk t)) g u"
  shows "\<exists>t'. TrackerKernel True E record_read (wire (message (GiveSha g n u))) t = Some (Some [], t') \<and>
    view (disk t') = view (disk t)"
  using kernel_reply [OF assms(1,2)] assms(3) by auto

theorem hash_for_members_only_witness:
  "\<exists>t'. TrackerKernel True demo_env record_read (wire (message (GiveSha ''demo'' ''f.txt'' ''bob''))) (fresh_tracker Online) =
     Some (Some [], t')"
proof -
  have "acceptable (demo_env, GiveSha ''demo'' ''f.txt'' ''bob'')"
    by (simp add: acceptable_def benign_def words_ok_def message_def MAX_MSG_SIZE_def token_def is_space_def)
  moreover have "\<not> has_member (view (disk (fresh_tracker Online))) ''demo'' ''bob''" by (simp add: has_member_def)
  ultimately show ?thesis using hash_for_members_only [OF _ fresh_swarm, of demo_env _ _ _ Online] by blast
qed

text \<open>C23: What was uploaded is what is looked up: after an upload that adds a share, \<open>give_sha\<close> for the
  name it was listed under answers with the uploaded hash, for every member of the group.\<close>

theorem upload_then_hash:
  fixes t g h n
  defines "m \<equiv> chosen_name (view (disk t)) g h n"
  assumes "acceptable (E, UploadFile h z g u n p)" "acceptable (E', GiveSha g m v)" "swarm_inv t"
    "has_member (view (disk t)) g u" "has_member (view (disk t)) g v"
    "\<not> shared_by (view (disk t)) g h u" "\<not> taken (view (disk t)) g h m"
  shows "\<exists>t1 t2. TrackerKernel True E record_read (wire (message (UploadFile h z g u n p))) t = Some (Some ''1'', t1) \<and>
    TrackerKernel True E' record_read (wire (message (GiveSha g m v))) t1 = Some (Some h, t2)"
proof -
  let ?a = "view (disk t)"
  obtain t1 where t1: "TrackerKernel True E record_read (wire (message (UploadFile h z g u n p))) t = Some (Some ''1'', t1)"
    "swarm_inv t1" "view (disk t1) = spec_state E (UploadFile h z g u n p) ?a"
    using kernel_reply [OF assms(2,4)] assms(5-8) by (auto simp: m_def yes_no_def simp del: view_simps spec_state.simps)
  have "s_hash x = h" if "find (\<lambda>s. s_name s = m) (shares ?a g @ [Share h z u m]) = Some x" for x
    using find_SomeD [OF that] assms(8) by (auto simp: taken_def simp del: view_simps) (metis share.sel(1))
  moreover have "find (\<lambda>s. s_name s = m) (shares ?a g @ [Share h z u m]) \<noteq> None"
    by (simp add: find_None_iff del: view_simps) (metis share.sel(4))
  ultimately have "spec_reply E' (GiveSha g m v) (view (disk t1)) = Some h"
    unfolding t1(3) using assms(5-8) by (auto simp: m_def has_member_def split: option.splits simp del: view_simps)
  then show ?thesis using kernel_reply [OF assms(3) t1(2)] t1(1) by auto
qed

theorem upload_then_hash_witness:
  "\<exists>t t1 t2. run_steps serve demo_run (fresh_tracker Online) = Some t \<and>
     TrackerKernel True demo_env record_read
       (wire (message (UploadFile ''h1'' ''5'' ''demo'' ''alice'' ''f.txt'' ''f.txt''))) t = Some (Some ''1'', t1) \<and>
     TrackerKernel True demo_env record_read (wire (message (GiveSha ''demo'' ''f.txt'' ''bob''))) t1 = Some (Some ''h1'', t2)"
proof -
  obtain t where t: "run_steps serve demo_run (fresh_tracker Online) = Some t" "swarm_inv t"
    "has_member (view (disk t)) ''demo'' ''alice''" "has_member (view (disk t)) ''demo'' ''bob''"
    "shares (view (disk t)) ''demo'' = []"
    by (rule demo_state)
  have n: "chosen_name (view (disk t)) ''demo'' ''h1'' ''f.txt'' = ''f.txt''"
    using t(5) by (simp add: chosen_name_def del: view_simps)
  have free: "\<not> shared_by (view (disk t)) ''demo'' ''h1'' ''alice''" "\<not> taken (view (disk t)) ''demo'' ''h1'' ''f.txt''"
    using t(5) by (simp_all add: shared_by_def taken_def del: view_simps)
  show ?thesis
    using upload_then_hash [OF demo_requests(1) _ t(2), of demo_env "''bob''"] demo_requests(2) t(1,3,4) n free by auto
qed

text \<open>\<open>stop_share\<close> takes exactly one seeder off the list of a file: the caller is no longer among its
  seeders, everybody else is as before.\<close>

lemma stop_share_unlists:
  assumes "acceptable (E, StopShare g n u)" "swarm_inv t" "has_member (view (disk t)) g u"
    "accounts (view (disk t)) u \<noteq> None"
  shows "\<exists>t'. TrackerKernel True E record_read (wire (message (StopShare g n u))) t = Some (Some ''1'', t') \<and>
    seeders_of (view (disk t')) g n = seeders_of (view (disk t)) g n - {u}"
proof -
  obtain t' where t': "TrackerKernel True E record_read (wire (message (StopShare g n u))) t = Some (Some ''1'', t')"
    "view (disk t') = spec_state E (StopShare g n u) (view (disk t))"
    using kernel_reply [OF assms(1,2)] assms(3,4) by (auto simp: yes_no_def simp del: view_simps spec_state.simps)
  have "seeders_of (view (disk t')) g n = seeders_of (view (disk t)) g n - {u}"
    unfolding t'(2) using assms(3,4) by (auto simp: seeders_of_def simp del: view_simps)
  then show ?thesis using t'(1) by blast
qed

text \<open>Leaving a group takes the member off the roster together with all the shares, and the owner
  cannot leave.\<close>

lemma leave_group_effect:
  assumes "acceptable (E, LeaveGroup g u)" "swarm_inv t" "swarm_wf (view (disk t))" "has_member (view (disk t)) g u"
  shows "\<exists>ok t'. TrackerKernel True E record_read (wire (message (LeaveGroup g u))) t = Some (Some ok, t') \<and>
    (if owners (view (disk t)) g = Some u then ok = ''0'' \<and> view (disk t') = view (disk t)
     else ok = ''1'' \<and> \<not> has_member (view (disk t')) g u \<and> (\<forall>s\<in>set (shares (view (disk t')) g). s_user s \<noteq> u) \<and>
       (\<forall>e\<in>set (library (view (disk t')) u). e_group e \<noteq> g) \<and>
       (\<forall>g'. g' \<noteq> g \<longrightarrow> shares (view (disk t')) g' = shares (view (disk t)) g'))"
proof -
  obtain rep t' where t': "TrackerKernel True E record_read (wire (message (LeaveGroup g u))) t = Some (rep, t')"
    "view (disk t') = spec_state E (LeaveGroup g u) (view (disk t))"
    "rep = spec_reply E (LeaveGroup g u) (view (disk t))"
    using kernel_reply [OF assms(1,2)] by auto
  show ?thesis
  proof (cases "owners (view (disk t)) g = Some u")
    case True
    then show ?thesis using t' by (simp add: yes_no_def del: view_simps)
  next
    case False
    then have "has_member (view (disk t)) g u \<and> owners (view (disk t)) g \<noteq> Some u" using assms(4) by simp
    then show ?thesis using t' False by (simp add: yes_no_def has_member_def del: view_simps)
  qed
qed

text \<open>C37: A login does not move a user who is online already: with the right password it is accepted, but
  the address the tracker hands out to other peers stays the old one.\<close>

theorem relogin_keeps_address:
  assumes "acceptable (E, Login u pw port ip)" "acceptable (E', GiveDetails u)" "swarm_inv t"
    "login_ok E (view (disk t)) u pw" "addresses (view (disk t)) u = Some (ip', port')"
  shows "\<exists>t1 t2. TrackerKernel True E record_read (wire (message (Login u pw port ip))) t = Some (Some ''1'', t1) \<and>
    TrackerKernel True E' record_read (wire (message (GiveDetails u))) t1 = Some (Some (ip' @ [sp] @ port'), t2)"
proof -
  obtain t1 where t1: "TrackerKernel True E record_read (wire (message (Login u pw port ip))) t = Some (Some ''1'', t1)"
    "swarm_inv t1" "view (disk t1) = view (disk t)"
    using kernel_reply [OF assms(1,3)] assms(4,5) by (auto simp: yes_no_def simp del: view_simps login_ok_view)
  then show ?thesis using kernel_reply [OF assms(2) t1(2)] assms(5) by (auto simp del: view_simps)
qed

theorem relogin_keeps_address_witness:
  "\<exists>t t1 t2. run_steps serve demo_run (fresh_tracker Online) = Some t \<and>
     TrackerKernel True demo_env record_read (wire (message (Login ''alice'' ''pw'' ''20002'' ''10.0.0.6''))) t =
       Some (Some ''1'', t1) \<and>
     TrackerKernel True demo_env record_read (wire (message (GiveDetails ''alice''))) t1 = Some (Some ''10.0.0.5 20001'', t2)"
proof -
  obtain t where t: "run_steps serve demo_run (fresh_tracker Online) = Some t" "swarm_inv t"
    "view (disk t) = spec_run demo_run empty_swarm"
    "addresses (view (disk t)) ''alice'' = Some (''10.0.0.5'', ''20001'')"
    by (rule demo_state)
  have "login_ok demo_env (view (disk t)) ''alice'' ''pw''" unfolding t(3) by (rule demo_login)
  then show ?thesis
    using relogin_keeps_address [OF demo_requests(5,7) t(2) _ t(4)] t(1) by auto
qed

text \<open>C20: The pair of trackers: when every \<open>Sync\<close> connection of a run reaches the sibling in order, the
  sibling's files end up line by line those of the tracker; only its files change.\<close>

theorem sibling_catches_up:
  assumes "\<forall>e\<in>set es. acceptable e" "swarm_inv t" "link t = Online" "caught_up s t"
    "run_steps serve es t = Some t'" "\<forall>m\<in>set (outbox t'). length (fst m) \<le> MAX_MSG_SIZE"
  shows "\<exists>new s'. outbox t' = outbox t @ new \<and> run_steps (deliver E) new s = Some s' \<and>
    file_lines (disk s') = file_lines (disk t') \<and> s' = s\<lparr>disk := disk s'\<rparr>"
  using replica_run [OF assms, of E] unfolding caught_up_def by blast

theorem sibling_catches_up_witness:
  "\<exists>t' new s'. run_steps serve [(demo_env, CreateGroup ''demo'' ''alice'')] (fresh_tracker Online) = Some t' \<and>
     outbox t' = new \<and> run_steps (deliver demo_env) new (fresh_tracker Offline) = Some s' \<and>
     file_lines (disk s') = file_lines (disk t')"
proof -
  obtain t' where t': "serve (demo_env, CreateGroup ''demo'' ''alice'') (fresh_tracker Online) = Some t'"
    "\<forall>m\<in>set (outbox t'). length (fst m) \<le> MAX_MSG_SIZE" by (rule demo_creation)
  then have "run_steps serve [(demo_env, CreateGroup ''demo'' ''alice'')] (fresh_tracker Online) = Some t'" by simp
  from sibling_catches_up [OF _ fresh_swarm _ fresh_caught_up this t'(2), of demo_env] this demo_requests(6)
  show ?thesis by auto
qed

text \<open>C36: The sibling does not know what it was sent: right after a group was created at one tracker and
  every file was copied, the sibling's files have the group, but a \<open>join_group\<close> there is still
  answered with \<open>0\<close>, because \<open>GroupJoin\<close> looks at the table in memory and does not reload it.\<close>

theorem sibling_join_is_stale:
  assumes "acceptable (E, CreateGroup g u)" "swarm_inv t" "link t = Online" "caught_up s t" "groups s g = None"
    "serve (E, CreateGroup g u) t = Some t'" "owners (view (disk t)) g = None"
    "\<forall>m\<in>set (outbox t'). length (fst m) \<le> MAX_MSG_SIZE"
  shows "\<exists>new s'. outbox t' = outbox t @ new \<and> run_steps (deliver E') new s = Some s' \<and>
    owners (view (disk s')) g = Some u \<and> GroupJoin g v s' = Some (False, s')"
proof -
  obtain t1 where t1: "serve (E, CreateGroup g u) t = Some t1" "swarm_inv t1" "replicates t t1"
    "view (disk t1) = spec_state E (CreateGroup g u) (view (disk t))"
    by (rule serve_refines [OF assms(1,2)]) simp
  have t': "t1 = t'" using t1(1) assms(6) by simp
  have "files_ok (disk t')" using swarm_invD(1) [OF t1(2)] tracker_invD(2) t' by blast
  then obtain new s' where s': "outbox t' = outbox t @ new" "run_steps (deliver E') new s = Some s'"
    "caught_up s' t'" "s' = s\<lparr>disk := disk s'\<rparr>"
    using replica_step [OF t1(3) assms(3) _ assms(4), of E'] assms(8) t' by blast
  have "view (disk s') = view (disk t')" using s'(3) view_cong unfolding caught_up_def by blast
  then have "owners (view (disk s')) g = Some u" using t1(4) t' assms(7) by (simp del: view_simps)
  moreover have "groups s' g = None" using s'(4) assms(5) by (metis tracker.select_convs(5) tracker.surjective tracker.update_convs(7))
  ultimately show ?thesis using s'(1,2) by (auto simp: GroupJoin_def simp del: view_simps)
qed

theorem sibling_join_is_stale_witness:
  "\<exists>t' s'. serve (demo_env, CreateGroup ''demo'' ''alice'') (fresh_tracker Online) = Some t' \<and>
     run_steps (deliver demo_env) (outbox t') (fresh_tracker Offline) = Some s' \<and>
     owners (view (disk s')) ''demo'' = Some ''alice'' \<and> GroupJoin ''demo'' ''bob'' s' = Some (False, s')"
proof -
  obtain t' where t': "serve (demo_env, CreateGroup ''demo'' ''alice'') (fresh_tracker Online) = Some t'"
    "\<forall>m\<in>set (outbox t'). length (fst m) \<le> MAX_MSG_SIZE" by (rule demo_creation)
  from sibling_join_is_stale [OF demo_requests(6) fresh_swarm _ fresh_caught_up _ t'(1) _ t'(2), of demo_env "''bob''"] t'(1)
  show ?thesis by auto
qed

text \<open>A group name with a directory separator ends the tracker when its sibling is online: the file
  of the group cannot be created, and \<open>Sync\<close> reads from a null \<open>FILE*\<close>.\<close>

lemma separator_in_group_name:
  assumes "tracker_inv t" "link t = Online" "disk_groups (disk t) g = None"
    "\<not> openable (disk t) (members_path g)" "\<not> exists_file (disk t) (members_path g)"
    "members_path g \<noteq> groups_path"
  shows "GroupCreate g u t = None"
proof -
  let ?m = "members_path g"
  define f where "f = file_create (file_append (file_create (file_append (disk t) groups_path (endl (join sp [g, u]))) ?m)
    ?m (endl u)) (shares_path g)"
  have "?m \<noteq> shares_path g" by (simp add: path_defs)
  then have "content f ?m = None"
    using assms(4-6) by (simp add: f_def file_create_def file_append_def exists_file_def openable_def)
  then have "Syncs [groups_path, ?m, shares_path g] (fetched t\<lparr>disk := f\<rparr>) = None"
    using assms(2) by (intro Syncs_missing [where p = ?m]) simp_all
  then show ?thesis
    using assms(3) tracker_invD(4,5) [OF assms(1)]
    by (simp add: GroupCreate_def Let_def f_def del: join.simps)
qed

text \<open>C21: Nothing is lost in a restart: after any run of well-formed requests, the program started again on
  the files it left answers every request as the abstract tracker does in the state that run reached,
  also a repeated \<open>accept_request\<close>, since the tables are read again.\<close>

theorem restart_recovers:
  assumes "\<forall>e\<in>set es. acceptable e" "run_steps serve es (fresh_tracker l) = Some t" "l \<noteq> Refused" "l' \<noteq> Refused"
    and "acceptable (E, r)"
  shows "\<exists>t' t''. tracker_start l' (disk t) = Some t' \<and>
    TrackerKernel True E record_read (wire (message r)) t' = Some (spec_reply E r (spec_run es empty_swarm), t'')"
proof -
  have t: "swarm_inv t" "view (disk t) = spec_run es empty_swarm"
    using serve_run [OF assms(1) fresh_swarm [OF assms(3)]] assms(2) fresh_view by auto
  obtain t' where t': "tracker_start l' (disk t) = Some t'" "swarm_inv t'" "disk t' = disk t"
    "pending_group_requests t' = disk_pending (disk t')"
    by (rule tracker_start_ok [OF t(1) assms(4)])
  from kernel_reply_reloaded [OF assms(5) t'(2,4)] show ?thesis using t' t(2) by auto
qed

theorem restart_recovers_witness:
  "\<exists>t t' t''. run_steps serve demo_run (fresh_tracker Online) = Some t \<and> tracker_start Offline (disk t) = Some t' \<and>
     TrackerKernel True demo_env record_read (wire (message (AcceptRequest ''demo'' ''bob'' ''alice''))) t' =
       Some (Some ''0'', t'')"
proof -
  obtain t where t: "run_steps serve demo_run (fresh_tracker Online) = Some t"
    using serve_run [OF demo_acceptable fresh_swarm, of Online] by auto
  have "acceptable (demo_env, AcceptRequest ''demo'' ''bob'' ''alice'')"
    by (simp add: acceptable_def benign_def words_ok_def message_def MAX_MSG_SIZE_def token_def is_space_def)
  from restart_recovers [OF demo_acceptable t _ _ this, of Offline] 
  obtain t' t'' where "tracker_start Offline (disk t) = Some t'"
    "TrackerKernel True demo_env record_read (wire (message (AcceptRequest ''demo'' ''bob'' ''alice''))) t' =
      Some (spec_reply demo_env (AcceptRequest ''demo'' ''bob'' ''alice'') (spec_run demo_run empty_swarm), t'')"
    by auto
  moreover have "spec_reply demo_env (AcceptRequest ''demo'' ''bob'' ''alice'') (spec_run demo_run empty_swarm) = Some ''0''"
    by (simp add: demo_run_def empty_swarm_def yes_no_def)
  ultimately show ?thesis using t by (simp only:) blast
qed

text \<open>C19: A tracker that lost its disk gets back what its sibling pushes once it listens. Started in an empty
  directory it asks its sibling for everything, but before it has its server thread, and the sibling
  tests before each file whether it can connect: for every number \<open>k\<close> of entries that come too early,
  exactly the files listed after them arrive, all others stay empty, and the tables can be read. If it
  listens in time, \<open>k = 0\<close>, it is then in a valid state with the sibling's accounts, groups and shares.\<close>

theorem lost_disk_recovers:
  assumes "swarm_inv t" "lists_files E (disk t)"
  shows "\<exists>s t' new s' s''. tracker_start Online empty_disk = Some s \<and> outbox s = [(''SyncAll'', [])] \<and>
    SyncAllHandler_racing k (dir_entries E) t = Some t' \<and> outbox t' = outbox t @ new \<and>
    run_steps (deliver F) new s = Some s' \<and>
    (\<forall>p. file_lines (disk s') p = (if p \<in> set (entry_paths (drop k (dir_entries E))) then file_lines (disk t) p else [])) \<and>
    FetchDetails s' = Some s'' \<and>
    (k = 0 \<longrightarrow> TrackerKernel True E record_read (wire ''SyncAll'') (t\<lparr>link := Online\<rparr>) = Some (None, t') \<and>
      swarm_inv s'' \<and> view (disk s'') = view (disk t))"
proof -
  let ?s = "(fresh_tracker Online)\<lparr>outbox := [(''SyncAll'', [])]\<rparr>" and ?ps = "entry_paths (drop k (dir_entries E))"
  let ?t = "t\<lparr>link := Online, outbox := outbox t @ pushed Online (disk t) ?ps\<rparr>"
  have s: "tracker_start Online empty_disk = Some ?s" using first_start [of Online] by simp
  have "files_ok (disk ?s)" using tracker_invD(2) [OF fresh_inv, of Online] by simp
  then obtain s' where s': "run_steps (deliver F) (pushed Online (disk t) ?ps) ?s = Some s'" "files_ok (disk s')"
    "s' = ?s\<lparr>disk := disk s'\<rparr>"
    "\<forall>p. file_lines (disk s') p = (if p \<in> set ?ps then file_lines (disk t) p else file_lines (disk ?s) p)"
    using racing_delivers [OF assms] by blast
  have lines: "\<forall>p. file_lines (disk s') p = (if p \<in> set ?ps then file_lines (disk t) p else [])" using s'(4) by simp
  have "wf_disk (disk s')"
    using s'(2) lines tracker_invD(1) [OF swarm_invD(1) [OF assms(1)]] by (simp add: wf_disk_def)
  then have fetch: "FetchDetails s' = Some (fetched s')" by (rule FetchDetails_fetched)
  have kernel: "TrackerKernel True E record_read (wire ''SyncAll'') (t\<lparr>link := Online\<rparr>) = Some (None, ?t)" if "k = 0"
    using racing_pushes [OF assms(2), of 0] that
    by (simp add: serve_SyncAll no_reply_def SyncAllHandler_racing_def SyncAllHandler_Syncs)
  have whole: "swarm_inv (fetched s') \<and> view (disk (fetched s')) = view (disk t)" if "k = 0"
  proof -
    have "caught_up s' t" using s'(2) lines assms(2) that by (auto simp: caught_up_def lists_files_def fun_eq_iff)
    moreover have "link s' = Online" by (subst s'(3)) simp
    ultimately show ?thesis using caught_up_fetched [OF _ assms(1), of s'] by auto
  qed
  show ?thesis
    using s racing_pushes [OF assms(2), of k] s'(1) lines fetch kernel whole
    by (intro exI [of _ ?s] exI [of _ ?t] exI [of _ "pushed Online (disk t) ?ps"] exI [of _ s'] exI [of _ "fetched s'"])
      simp
qed

text \<open>With three entries too early, the account of the sibling is not among what arrives.\<close>

theorem lost_disk_recovers_witness:
  "(\<exists>s t' new s' s''. tracker_start Online empty_disk = Some s \<and>
    SyncAllHandler_racing 0 (dir_entries listing_env) one_account = Some t' \<and> outbox t' = outbox one_account @ new \<and>
    run_steps (deliver demo_env) new s = Some s' \<and> FetchDetails s' = Some s'' \<and>
    swarm_inv s'' \<and> view (disk s'') = view (disk one_account)) \<and>
   (\<exists>s t' new s'. tracker_start Online empty_disk = Some s \<and>
    SyncAllHandler_racing 3 (dir_entries listing_env) one_account = Some t' \<and> outbox t' = outbox one_account @ new \<and>
    run_steps (deliver demo_env) new s = Some s' \<and> file_lines (disk s') credential_path = [] \<and>
    file_lines (disk one_account) credential_path = [''alice 00:11''])"
proof -
  have "entry_paths (drop 3 (dir_entries listing_env)) = [online_path]" "credential_path \<noteq> online_path"
    by (simp_all add: entry_paths_def listing_env_def path_defs)
  then show ?thesis
    using lost_disk_recovers [OF one_account(1,2), of 0 demo_env] lost_disk_recovers [OF one_account(1,2), of 3 demo_env]
      one_account(3) by fastforce
qed

text \<open>C39: Group names collide with file names: when a group \<open>x\<close> exists and anybody creates the group \<open>x_files\<close>, the
  creation succeeds, the member file of the new group takes the place of the list of shares of
  \<open>x\<close>, which then holds the one line with the creator's name, and the next request of a member
  for a hash in \<open>x\<close> reads past the end of that line.\<close>

theorem group_name_collision:
  assumes inv: "swarm_inv t" and member: "has_member (view (disk t)) x m" and x: "good_group x"
    and free: "owners (view (disk t)) (x @ ''_files'') = None"
    and words: "words_ok (CreateGroup (x @ ''_files'') v)" "words_ok (GiveSha x n m)"
    and fit: "length (message (CreateGroup (x @ ''_files'') v)) \<le> MAX_MSG_SIZE" "length (message (GiveSha x n m)) \<le> MAX_MSG_SIZE"
  shows "\<exists>t'. TrackerKernel True E record_read (wire (message (CreateGroup (x @ ''_files'') v))) t = Some (Some ''1'', t') \<and>
    file_lines (disk t') (shares_path x) = [v] \<and>
    TrackerKernel True E' record_read (wire (message (GiveSha x n m))) t' = None"
proof -
  let ?g = "x @ ''_files''"
  obtain t' where t': "GroupCreate ?g v t = Some (True, t')" "files_ok (disk t')"
    "file_lines (disk t') = (file_lines (disk t))(groups_path := file_lines (disk t) groups_path @ [join sp [?g, v]],
       shares_path x := [v], shares_path ?g := [])"
    using colliding_group [OF swarm_invD(1) [OF inv]] x words(1) free
    by (auto simp: words_ok_def good_group_def simp del: join.simps)
  have "SendSHA x n m t' = None"
    by (rule colliding_sha [OF t'(2,3) tracker_invD(1) [OF swarm_invD(1) [OF inv]]])
      (use member words x in \<open>simp_all add: words_ok_def may_read_def\<close>)
  then have "TrackerKernel True E' record_read (wire (message (GiveSha x n m))) t' = None"
    using kernel_handle [OF words(2) fit(2)] by (simp add: reply_text_def)
  moreover have "TrackerKernel True E record_read (wire (message (CreateGroup ?g v))) t = Some (Some ''1'', t')"
    using kernel_handle [OF words(1) fit(1)] t'(1) by (simp add: reply_bool_def)
  moreover have "shares_path x \<noteq> shares_path ?g" by (simp add: shares_path_def)
  ultimately show ?thesis using t'(3) by (intro exI [of _ t']) simp
qed

theorem group_name_collision_witness:
  "\<exists>t t'. run_steps serve demo_run (fresh_tracker Online) = Some t \<and>
     TrackerKernel True demo_env record_read (wire (message (CreateGroup ''demo_files'' ''carol''))) t = Some (Some ''1'', t') \<and>
     file_lines (disk t') (shares_path ''demo'') = [''carol''] \<and>
     TrackerKernel True demo_env record_read (wire (message (GiveSha ''demo'' ''f.txt'' ''bob''))) t' = None"
proof -
  obtain t where t: "run_steps serve demo_run (fresh_tracker Online) = Some t" "swarm_inv t"
    "view (disk t) = spec_run demo_run empty_swarm" "has_member (view (disk t)) ''demo'' ''bob''"
    by (rule demo_state)
  have "owners (view (disk t)) (''demo'' @ ''_files'') = None"
    unfolding t(3) by (simp add: demo_run_def empty_swarm_def del: view_simps)
  moreover have "words_ok (CreateGroup (''demo'' @ ''_files'') ''carol'')" "words_ok (GiveSha ''demo'' ''f.txt'' ''bob'')"
    "length (message (CreateGroup (''demo'' @ ''_files'') ''carol'')) \<le> MAX_MSG_SIZE"
    "length (message (GiveSha ''demo'' ''f.txt'' ''bob'')) \<le> MAX_MSG_SIZE"
    by (simp_all add: words_ok_def message_def MAX_MSG_SIZE_def token_def is_space_def)
  ultimately show ?thesis using group_name_collision [OF t(2,4) good_names(4), of "''carol''" "''f.txt''" demo_env demo_env] t(1) by auto
qed

end
