(* ===== verification/Startup_Properties.thy ===== *)
theory Startup_Properties
  imports Startup Tracker_Properties
begin

text \<open>
  Starting the processes: where a tracker serves and whom it takes for its sibling, whom a client can be
  talking to, and the ports that are served and announced.
\<close>


section \<open>A machine to start on\<close>

definition demo_openssl :: openssl where
  "demo_openssl =
     \<lparr>ctx_new = (\<lambda>_. True), certificate_file = [''/app/certs/tracker.crt'' \<mapsto> ''CERT''],
      key_file = (\<lambda>c. [''/app/certs/tracker.key'' \<mapsto> ''KEY'']), verify_locations = [''/app/certs/tracker.crt'' \<mapsto> [''CERT'']],
      ssl_new = (\<lambda>_. True)\<rparr>"

definition demo_os :: os where
  "demo_os =
     \<lparr>rows_of = (\<lambda>_. map pair_text [(''127.0.0.1'', ''18001''), (''127.0.0.1'', ''18002'')]), socket_ok = True,
      bind_ok = (\<lambda>_. True), listen_ok = (\<lambda>_. True), mutex_ok = True, thread_ok = True, sibling_link = (\<lambda>_. Offline)\<rparr>"

definition demo_argv :: "string list" where
  "demo_argv = [''tracker'', ''/app/tracker_info.txt'', ''2'']"

definition demo_peer_argv :: "string \<Rightarrow> string list" where
  "demo_peer_argv port = [''peer'', ''10.0.0.5'', port, ''/app/tracker_info.txt'']"

definition demo_process :: "int \<Rightarrow> (string \<rightharpoonup> string) \<Rightarrow> peer_process" where
  "demo_process v files =
     \<lparr>pp_ip = ''10.0.0.5'', pp_port = v, pp_rows = map pair_text [(''127.0.0.1'', ''18001''), (''127.0.0.1'', ''18002'')],
      pp_ctx = \<lparr>ctx_role = ClientRole, certificate = None, private_key = None, trusted = [''CERT''], verify_peer = True\<rparr>,
      pp_address = (''0.0.0.0'', word_of_int v), pp_session = fresh_session files\<rparr>"

lemma demo_certdir: "certdir ''/app/tracker_info.txt'' = ''/app/certs''"
  by code_simp

lemma demo_tools: "tools_ok demo_os demo_openssl (certdir ''/app/tracker_info.txt'')"
  by (simp add: demo_certdir tools_ok_def demo_os_def demo_openssl_def)

lemma demo_numbers:
  "atoi ''18001'' = Some 18001" "atoi ''18002'' = Some 18002" "atoi ''2'' = Some 2" "atoi ''20001'' = Some 20001"
  "atoi ''20002'' = Some 20002"
  by code_simp+

lemma demo_info: "info_ok [(''127.0.0.1'', ''18001''), (''127.0.0.1'', ''18002'')]"
  by (simp add: info_ok_def demo_numbers token_def is_space_def)

lemma demo_rows_of:
  "rows_of demo_os filepath = map pair_text [(''127.0.0.1'', ''18001''), (''127.0.0.1'', ''18002'')]"
  "\<And>a. sibling_link demo_os a \<noteq> Refused"
  by (simp_all add: demo_os_def)

lemma demo_args:
  "vec_at demo_argv 1 = Some ''/app/tracker_info.txt''" "vec_at demo_argv 2 = Some ''2''"
  by (simp_all add: demo_argv_def vec_at_def)

lemma demo_peer:
  "atoi port = Some v \<Longrightarrow> peer_main demo_os demo_openssl files (demo_peer_argv port) = Some (Inr (demo_process v files))"
  by (simp add: peer_main_def demo_peer_argv_def vec_at_def demo_certdir TLSClientContext_def demo_openssl_def new_ctx_def
      demo_os_def ClientServer_listen_def listener_def demo_process_def)


section \<open>A tracker in an empty directory\<close>

lemma fresh_start:
  assumes "tracker_start l empty_disk = Some t"
  shows "swarm_inv t \<and> view (disk t) = empty_swarm"
proof -
  have l: "l \<noteq> Refused" by (rule start_needs_link [OF assms])
  then have t: "t = (fresh_tracker l)\<lparr>outbox := if l = Online then [(''SyncAll'', [])] else []\<rparr>"
    using first_start [OF l] assms by simp
  have "swarm_inv ((fresh_tracker l)\<lparr>outbox := x\<rparr>)" for x
    using fresh_swarm [OF l] by (simp add: swarm_inv_def tracker_inv_def coherent_def)
  then show ?thesis using fresh_view [of l] by (simp add: t)
qed


lemma demo_first_start:
  "\<exists>p f'. tracker_main demo_os demo_openssl empty_disk demo_argv = Some (Inr p, f') \<and>
     tp_info p = [(''127.0.0.1'', ''18001''), (''127.0.0.1'', ''18002'')] \<and> tp_address p = (''127.0.0.1'', 18002)"
proof -
  have "\<exists>t. tracker_start l empty_disk = Some t \<and> swarm_inv t \<and> disk t = disk (fresh_tracker Online)" if "l \<noteq> Refused" for l
  proof -
    have "disk (fresh_tracker l) = disk (fresh_tracker Online)" by (simp add: fresh_tracker_def)
    then show ?thesis using first_start [OF that] fresh_start [of l] by simp
  qed
  moreover have two: "atoi ''2'' = Some (int 1 + 1)" by (simp add: demo_numbers)
  ultimately show ?thesis
    using tracker_boots_lemma [OF demo_args two _ demo_rows_of(1) demo_info demo_numbers(1,2) demo_tools demo_rows_of(2)] by force
qed


section \<open>Ports\<close>

lemma atoi_to_string:
  assumes "- (2 ^ 31) \<le> v" "v < 2 ^ 31"
  shows "atoi (to_string v) = Some v"
proof (cases "v < 0")
  case True
  have "takeWhile is_digit (nat_to_string (nat (- v))) = nat_to_string (nat (- v))"
    using nat_to_string_digits by (simp add: takeWhile_eq_all_conv)
  moreover have "\<not> is_space (CHR ''-'')" by (simp add: is_space_def)
  ultimately show ?thesis
    using True assms by (simp add: to_string_def atoi_def digits_val_nat_to_string int_range_def)
next
  case False
  then show ?thesis using atoi_nat_to_string [of "nat v"] assms by (simp add: to_string_def)
qed


section \<open>Properties\<close>

text \<open>C17: The trackers find each other: with a tracker file of two lines, certificates and system calls that work,
  tracker number 1 and number 2 start on their files without changing them, in a state that
  satisfies the invariant, serve at the address of their own line and push to that of the other.\<close>

theorem tracker_boots:
  assumes "vec_at argv 1 = Some filepath" "vec_at argv 2 = Some n" "atoi n = Some (int k + 1)" "k < 2"
    "rows_of os filepath = map pair_text [(ip0, p0), (ip1, p1)]" "info_ok [(ip0, p0), (ip1, p1)]"
    "atoi p0 = Some port0" "atoi p1 = Some port1"
    "tools_ok os L (certdir filepath)" "\<And>a. sibling_link os a \<noteq> Refused" "swarm_inv t"
  shows "\<exists>p. tracker_main os L (disk t) argv = Some (Inr p, disk t) \<and> swarm_inv (tp_state p) \<and>
    tp_address p = [(ip0, word_of_int port0), (ip1, word_of_int port1)] ! k \<and>
    tp_sibling p = [(ip0, word_of_int port0), (ip1, word_of_int port1)] ! (1 - k)"
proof -
  have "\<exists>u. tracker_start l (disk t) = Some u \<and> swarm_inv u \<and> disk u = disk t" if "l \<noteq> Refused" for l
    using tracker_start_ok [OF assms(11) that] by metis
  from tracker_boots_lemma [OF assms(1-10) this] show ?thesis by blast
qed

theorem tracker_boots_witness:
  "\<exists>p. tracker_main demo_os demo_openssl (disk (fresh_tracker Online)) demo_argv = Some (Inr p, disk (fresh_tracker Online)) \<and>
     tp_address p = (''127.0.0.1'', 18002) \<and> tp_sibling p = (''127.0.0.1'', 18001)"
proof -
  have two: "atoi ''2'' = Some (int 1 + 1)" by (simp add: demo_numbers)
  show ?thesis
    using tracker_boots [OF demo_args two _ demo_rows_of(1) demo_info demo_numbers(1,2) demo_tools demo_rows_of(2) fresh_swarm [of Online]] by auto
qed

text \<open>C11: A client only talks to servers it can trust: whatever a started peer or tracker is connected to over TLS presented a
  certificate that one of the certificates next to its tracker file vouches for, as long as OpenSSL does
  what it documents of \<open>SSL_VERIFY_PEER\<close>. An attacker on the path who answers with a certificate of
  his own is refused, which the README (section on TLS) says the scheme does not do.\<close>

theorem client_is_authenticated:
  assumes "checks_certificates connects presents vouches" "heap_ok h" "vec_at argv k = Some filepath"
    "k = 3 \<and> peer_main os L files argv = Some (Inr q) \<and> ctx = pp_ctx q \<or>
     k = 1 \<and> tracker_main os L f argv = Some (Inr p, f') \<and> ctx = tp_client_ctx p"
    "TLSConnect L connects ctx fd h = Some (Some i, h')"
  shows "\<exists>cs. verify_locations L (certdir filepath @ ''/tracker.crt'') = Some cs \<and> (\<exists>a\<in>set cs. vouches a (presents fd))"
proof (rule connected_is_verified [OF assms(1,2) _ assms(5)])
  show "TLSClientContext L (certdir filepath @ ''/tracker.crt'') = Inr ctx"
    using assms(4)
  proof (elim disjE conjE)
    assume "k = 3" "peer_main os L files argv = Some (Inr q)" "ctx = pp_ctx q"
    then show ?thesis using assms(3) by (auto elim: peer_mainE)
  next
    assume "k = 1" "tracker_main os L f argv = Some (Inr p, f')" "ctx = tp_client_ctx p"
    then show ?thesis using assms(3) by (auto elim!: tracker_mainE dest: tracker_contexts_Inr(2))
  qed
qed

theorem client_is_authenticated_witness:
  "\<exists>q i h'. peer_main demo_os demo_openssl Map.empty (demo_peer_argv ''20001'') = Some (Inr q) \<and>
     TLSConnect demo_openssl (\<lambda>ctx fd. ''CERT'' \<in> set (trusted ctx)) (pp_ctx q) 7 \<lparr>next_ssl = 0, ssls = Map.empty\<rparr> = Some (Some i, h') \<and>
     (\<exists>cs. verify_locations demo_openssl ''/app/certs/tracker.crt'' = Some cs \<and> ''CERT'' \<in> set cs)"
proof -
  let ?ok = "\<lambda>ctx (fd :: int). ''CERT'' \<in> set (trusted ctx)" and ?h = "\<lparr>next_ssl = 0, ssls = Map.empty\<rparr> :: ssl_heap"
  have check: "checks_certificates ?ok (\<lambda>_. ''CERT'') (=)" by (simp add: checks_certificates_def)
  have heap: "heap_ok ?h" by (simp add: heap_ok_def)
  have path: "vec_at (demo_peer_argv ''20001'') 3 = Some ''/app/tracker_info.txt''" by (simp add: demo_peer_argv_def vec_at_def)
  obtain q where q: "peer_main demo_os demo_openssl Map.empty (demo_peer_argv ''20001'') = Some (Inr q)" "''CERT'' \<in> set (trusted (pp_ctx q))"
    using demo_peer [OF demo_numbers(4), of Map.empty] by (auto simp: demo_process_def)
  then obtain i h' where con: "TLSConnect demo_openssl ?ok (pp_ctx q) 7 ?h = Some (Some i, h')"
    by (simp add: TLSConnect_def SSL_new_fd_def demo_openssl_def)
  show ?thesis
    using client_is_authenticated [OF check heap path _ con, of demo_os Map.empty q] q(1) con
    by (auto simp: demo_certdir)
qed

text \<open>C27: A peer is served where it is announced: when a started peer has signed on, with \<open>create_user\<close> or \<open>login\<close> at its
  prompt and not online before, the answer of the tracker to a downloader's \<open>give_details\<close> for that
  user is read as the address of that peer and a port that \<open>atoi\<close> and \<open>htons\<close> turn into the port
  its chunk server listens on.\<close>

theorem announced_port_is_served:
  assumes start: "peer_main os L files argv = Some (Inr q)" and ip: "word_ok (pp_ip q)"
    and rows: "pp_rows q = map pair_text info" "info_ok info" "(tip, s) \<in> set info" "atoi s = Some tport"
    and up: "only_up P (tip, word_of_int tport)" "up_at P' addr" and t: "swarm_inv t"
    and sha: "\<And>d. length (sha1 d) = 20" and sizes: "\<And>p f. files p = Some f \<Longrightarrow> length f < 2 ^ 31"
    and typed: "p = TypeCreateUser u pw \<or> p = TypeLogin u pw" "prompt_ok p" and off: "addresses (view (disk t)) u = None"
    and turn: "prompt_turn (desk_world P sha1 (desk_of files cr q)) p (pp_session q, t) = Some (z, t1)" "login_flag z"
  shows "\<exists>x v t2. ask_details (swarm_net P' addr) [u] [] Map.empty t1 = Some ([], [u \<mapsto> (pp_ip q, x)], t2) \<and>
    atoi x = Some v \<and> word_of_int v = snd (pp_address q)"
proof -
  let ?d = "desk_of files cr q" and ?x = "to_string (pp_port q)"
  obtain myport where port: "atoi myport = Some (pp_port q)" "pp_session q = fresh_session files"
    "pp_address q = (''0.0.0.0'', word_of_int (pp_port q))"
    by (rule peer_mainE [OF start])
  have rng: "- (2 ^ 31) \<le> pp_port q" "pp_port q < 2 ^ 31" using atoi_range [OF port(1)] by simp_all
  have "prompt_inv P (desk_rows ?d) (desk_seat sha1 ?d) (pp_session q, t)"
    by (rule started_peer_ready [OF start ip rows up(1) t sha sizes])
  from turn_refines [OF this [unfolded desk_seat_def] typed(2), of "desk_creates ?d"] turn(1)
  have after: "prompt_inv P (desk_rows ?d) (desk_seat sha1 ?d) (z, t1)"
    "prompt_abs (z, t1) = prompt_step (env_of P) (desk_seat sha1 ?d) p (prompt_abs (pp_session q, t))"
    by (auto simp: desk_seat_def desk_world_def)
  have "logged (prompt_abs (z, t1))" using turn(2) by (simp add: prompt_abs_def)
  then have "addresses (seen (prompt_abs (z, t1))) u = Some (pp_ip q, ?x)"
    unfolding after(2) using typed(1) off port(2)
    by (auto simp: prompt_step_def prompt_abs_def fresh_session_def desk_seat_def desk_of_def seat_of_def yes_no_def
        split: if_splits simp del: view_simps login_ok_view)
  then have at: "addresses (view (disk t1)) u = Some (pp_ip q, ?x)" by (simp add: prompt_abs_def del: view_simps)
  have u: "word_ok u" "good_user u" using typed by (auto simp: prompt_ok_def)
  have x: "word_ok ?x" using word_ok_to_string rng by simp
  have b: "benign (GiveDetails u)" "fits (message (GiveDetails u))" "fits (pp_ip q @ [sp] @ ?x)"
    using u ip x by (auto simp: benign_def words_ok_def message_def fits_def word_ok_def MAX_MSG_SIZE_def token_def is_space_def)
  have "swarm_inv t1" using after(1) by (simp add: prompt_inv_def)
  from tracker_ask_spec [OF this b(1,2), of "env_of P'" "Some (pp_ip q @ [sp] @ ?x)"] at b(3)
  obtain t2 where t2: "tracker_ask (env_of P') (message (GiveDetails u)) t1 = (Reply (pp_ip q @ [sp] @ ?x), t2)"
    by (auto simp: text_of_def simp del: view_simps)
  have "split2 (pp_ip q @ [sp] @ ?x) sp = [pp_ip q, ?x]"
    using split_str_join [of "[pp_ip q, ?x]" sp] ip x by (simp add: split2_split word_ok_def)
  then have "ask_details (swarm_net P' addr) [u] [] Map.empty t1 = Some ([], [u \<mapsto> (pp_ip q, ?x)], t2)"
    using t2 up(2) by (simp add: swarm_net_def tracker_at_def message_def vec_at_def)
  then show ?thesis using atoi_to_string [OF rng] port(3) by auto
qed

text \<open>A tracker that answers everywhere, and no other peers.\<close>

definition quiet_place :: place where
  "quiet_place = \<lparr>env_of = demo_env, up_at = (\<lambda>(ip, port). (ip, word_of_int port :: 16 word) = (''127.0.0.1'', 18002)), hosts_of = Map.empty\<rparr>"

theorem announced_port_is_served_witness:
  "\<exists>q z t1 x v t2. peer_main demo_os demo_openssl Map.empty (demo_peer_argv ''20001'') = Some (Inr q) \<and>
     prompt_turn (desk_world quiet_place (\<lambda>_. replicate 20 (CHR ''0'')) (desk_of Map.empty (\<lambda>_. True) q)) (TypeCreateUser ''alice'' ''pw'')
       (pp_session q, fresh_tracker Online) = Some (z, t1) \<and> login_flag z \<and>
     ask_details (swarm_net quiet_place (''127.0.0.1'', 18002)) [''alice''] [] Map.empty t1 =
       Some ([], [''alice'' \<mapsto> (''10.0.0.5'', x)], t2) \<and> atoi x = Some v \<and>
     word_of_int v = (20001 :: 16 word)"
proof -
  let ?q = "demo_process 20001 Map.empty" and ?sha = "\<lambda>_. replicate 20 (CHR ''0'')"
  let ?d = "desk_of Map.empty (\<lambda>_. True) ?q" and ?p = "TypeCreateUser ''alice'' ''pw''"
  let ?info = "[(''127.0.0.1'', ''18001''), (''127.0.0.1'', ''18002'')]"
  note start = demo_peer [OF demo_numbers(4), of Map.empty]
  have ok: "word_ok (pp_ip ?q)" "pp_rows ?q = map pair_text ?info" "(''127.0.0.1'', ''18002'') \<in> set ?info"
    "only_up quiet_place (''127.0.0.1'', word_of_int 18002)" "up_at quiet_place (''127.0.0.1'', 18002)"
    "prompt_ok ?p" "addresses (view (disk (fresh_tracker Online))) ''alice'' = None"
    by (simp_all add: demo_process_def word_ok_def token_def is_space_def only_up_def quiet_place_def prompt_ok_def
        fresh_view empty_swarm_def del: view_simps)
  have inv: "prompt_inv quiet_place (desk_rows ?d) (desk_seat ?sha ?d) (pp_session ?q, fresh_tracker Online)"
    by (rule started_peer_ready [OF start ok(1,2) demo_info ok(3) demo_numbers(2) ok(4) fresh_swarm]) simp_all
  from turn_refines [OF this [unfolded desk_seat_def] ok(6), of "desk_creates ?d"] obtain z t1 where
    turn: "prompt_turn (desk_world quiet_place ?sha ?d) ?p (pp_session ?q, fresh_tracker Online) = Some (z, t1)"
    and abs: "prompt_abs (z, t1) = prompt_step (env_of quiet_place) (desk_seat ?sha ?d) ?p (prompt_abs (pp_session ?q, fresh_tracker Online))"
    by (auto simp: desk_world_def desk_seat_def)
  have "logged (prompt_abs (z, t1))"
    unfolding abs by (simp add: prompt_step_def prompt_abs_def fresh_view empty_swarm_def demo_process_def fresh_session_def yes_no_def del: view_simps)
  then have flag: "login_flag z" by (simp add: prompt_abs_def)
  from announced_port_is_served [OF start ok(1,2) demo_info ok(3) demo_numbers(2) ok(4,5) fresh_swarm _ _ _ ok(6,7) turn flag]
  obtain x v t2 where r: "ask_details (swarm_net quiet_place (''127.0.0.1'', 18002)) [''alice''] [] Map.empty t1 =
      Some ([], [''alice'' \<mapsto> (pp_ip ?q, x)], t2)" "atoi x = Some v" "word_of_int v = snd (pp_address ?q)" by auto
  have e: "pp_ip ?q = ''10.0.0.5''" "snd (pp_address ?q) = (20001 :: 16 word)" by (simp_all add: demo_process_def)
  from start turn flag r [unfolded e] show ?thesis by (intro exI conjI)
qed

end
