(* ===== verification/Transport_Properties.thy ===== *)
theory Transport_Properties
  imports Tracker_Users
begin

text \<open>
  What the framing of common/tls.cpp and the file transfer of tracker/trackersync.cpp promise, over any
  channel that behaves as \<open>SSL_write\<close> and \<open>SSL_read\<close> are documented to.
\<close>


section \<open>Properties\<close>

text \<open>C14: A message that was sent is received whole and alone, however the channel cuts the bytes up and
  whatever follows it.\<close>

theorem message_round_trip:
  assumes "ssl_sink wr sent" "ssl_stream rd bytes" "TLSSendMsg wr c data = (True, c')" "sent c = []"
    "bytes d = sent c' @ rest" "data \<noteq> []" "length data \<le> MAX_MSG_SIZE"
  shows "\<exists>d'. TLSRecvMsg rd d = (data, d') \<and> bytes d' = rest"
proof -
  have "bytes d = htonl (word_of_nat (length data)) @ data @ rest"
    using ssl_sink.TLSSendMsg_sent [OF assms(1,3)] assms(4,5) by simp
  then show ?thesis using ssl_stream.TLSRecvMsg_frame [OF assms(2)] assms(6,7) by simp
qed

theorem message_round_trip_witness:
  "\<exists>d'. TLSRecvMsg record_read (snd (TLSSendMsg record_write [] ''login bob'') @ [''x'']) = (''login bob'', d') \<and>
     concat d' = ''x''"
  by (rule message_round_trip [OF record_sink.ssl_sink_axioms record_stream.ssl_stream_axioms, where c = "[]"
        and c' = "snd (TLSSendMsg record_write [] ''login bob'')"])
    (simp_all add: TLSSendMsg_def Let_def SSLWriteAll.simps record_write_def MAX_MSG_SIZE_def)

text \<open>C30: Everything else reads as the empty message: a stream that ends early, a length of zero, a length
  beyond 16 MiB, or fewer bytes than the header promises.\<close>

theorem bad_frame_is_empty:
  assumes "ssl_stream rd bytes" "length (bytes c) < 4 \<or>
    (let len = unat (ntohl (take 4 (bytes c))) in len = 0 \<or> MAX_MSG_SIZE < len \<or> length (bytes c) < 4 + len)"
  shows "fst (TLSRecvMsg rd c) = []"
  using ssl_stream.TLSRecvMsg_rejects [OF assms(1), of c] assms(2) by (cases "length (bytes c) < 4") auto

theorem bad_frame_is_empty_witness: "fst (TLSRecvMsg record_read [htonl 5, ''abc'']) = []"
  by (rule bad_frame_is_empty [OF record_stream.ssl_stream_axioms]) simp

text \<open>A file pushed by \<open>Sync\<close> replaces the sibling's copy byte for byte, for every file whose last line
  is terminated, of any size.\<close>

lemma sync_file_round_trip:
  assumes "terminated s" "openable (disk t) p"
  shows "\<exists>t'. SyncRecv record_read (send_records (sync_payloads s)) p t = Some t' \<and> content (disk t') p = Some s \<and>
    (\<forall>q. q \<noteq> p \<longrightarrow> content (disk t') q = content (disk t) q)"
  using SyncRecv_loop_payloads [OF assms(1), of "[]" "[]"] assms(2)
  by (simp add: SyncRecv_def file_create_def file_append_def openable_def)

text \<open>C31: The receiving side has no way out: a connection that ends before the end marker, a crashed or
  hostile sender, leaves \<open>SyncRecv\<close> in its loop forever.\<close>

theorem sync_without_end_diverges:
  assumes "\<forall>r\<in>set rs. r \<noteq> sync_over \<and> length r \<le> MAX_SIZE"
  shows "SyncRecv record_read rs p t = None"
  using SyncRecv_loop_no_end [OF assms] by (simp add: SyncRecv_def)

theorem sync_without_end_diverges_witness:
  "SyncRecv record_read [''alice bob''] pending_path (fresh_tracker Online) = None"
  by (rule sync_without_end_diverges) (simp add: sync_over_def MAX_SIZE_def)

end
