(* ===== verification/Peer_Properties.thy ===== *)
theory Peer_Properties
  imports Peer_Client
begin

text \<open>
  What the peer promises, on its own: hashes and chunks, the choice of seeders, the loop that fetches a
  chunk, the requests between peers, and the command loop.
\<close>


section \<open>A hash to evaluate\<close>

text \<open>A stand-in for SHA-1 with results of the right length, to evaluate the model with.\<close>

definition demo_sha :: "string \<Rightarrow> string" where
  "demo_sha d = take 20 (d @ replicate 20 (CHR 0x00))"

lemma length_demo_sha [simp]: "length (demo_sha d) = 20"
  by (simp add: demo_sha_def)

lemma length_concat_hashes:
  "\<forall>x\<in>set xs. length x = 20 \<Longrightarrow> length (concat xs) = 20 * length xs"
  by (induction xs) auto

lemma GetFileHash2_concat: "GetFileHash2 sha1 (Some s) = concat (map (chunk_hash sha1) (pieces CHUNK_SIZE s))"
  by (simp add: GetFileHash2_def hash_loop_eq hash_loop2_eq)

lemma length_GetFileHash2:
  "(\<And>d. length (sha1 d) = 20) \<Longrightarrow> length (GetFileHash2 sha1 (Some s)) = 20 * length (pieces CHUNK_SIZE s)"
  unfolding GetFileHash2_concat by (subst length_concat_hashes) (auto intro: length_chunk_hash)

lemma pieces_same_length: "length f = length s \<Longrightarrow> length (pieces CHUNK_SIZE f) = length (pieces CHUNK_SIZE s)"
  by (simp add: length_pieces)


section \<open>Properties of chunks\<close>

text \<open>The hash the uploader registers is the one the downloader computes: the two loops, in peer.cpp
  with \<open>CHUNK_SIZE\<close> and in peerdownload.cpp with \<open>CHUNK_SIZE1\<close>, agree on every file and on a file that
  cannot be opened, and the registered size is the length.\<close>

lemma upload_hash_is_download_hash:
  "GetFileHash sha1 opened = (GetFileHash2 sha1 opened, case opened of None \<Rightarrow> 0 | Some s \<Rightarrow> length s)"
  by (cases opened) (simp_all add: GetFileHash_def GetFileHash2_def hash_loop_eq hash_loop2_eq)

text \<open>C18: Chunk by chunk is enough: for two files of one length, every chunk passes the check of
  \<open>GetFileHashsmall\<close> exactly when the whole file passes the check of \<open>MatchSHA\<close>.\<close>

theorem chunk_checks_are_file_check:
  assumes sha: "\<And>d. length (sha1 d) = 20" and len: "length f = length s" "length s < 2 ^ 31"
  shows "(\<forall>k<length (pieces CHUNK_SIZE s). GetFileHashsmall sha1 (Some f) k (GetFileHash2 sha1 (Some s)) = Some True) \<longleftrightarrow>
    MatchSHA sha1 (Some f) (GetFileHash2 sha1 (Some s)) = ''Full file matched''"
proof -
  let ?c = "length (pieces CHUNK_SIZE s)" and ?h = "GetFileHash2 sha1 (Some s)"
  let ?hs = "map (chunk_hash sha1) (pieces CHUNK_SIZE f)"
  have c: "length ?hs = ?c" using pieces_same_length [OF len(1)] by simp
  have step: "GetFileHashsmall sha1 (Some f) k ?h = Some (?hs ! k = take 20 (drop (20 * k) ?h))" if "k < ?c" for k
  proof -
    have "20 * k \<le> length ?h" using that length_GetFileHash2 [of sha1 s] sha by simp
    moreover have "k < 4096" using that pieces_4096 [OF len(2)] by simp
    ultimately show ?thesis
      using GetFileHashsmall_eq [of k ?h sha1 f] c that by (simp add: pieces_nth chunk_at_def mult.commute)
  qed
  have "(\<forall>k<?c. ?hs ! k = take 20 (drop (20 * k) ?h)) \<longleftrightarrow> concat ?hs = ?h"
  proof
    assume all: "\<forall>k<?c. ?hs ! k = take 20 (drop (20 * k) ?h)"
    show "concat ?hs = ?h"
    proof (rule blocks_eq)
      show "\<forall>x\<in>set ?hs. length x = 20" using sha by (auto intro: length_chunk_hash)
      show "length ?h = 20 * length ?hs" using length_GetFileHash2 [of sha1 s] sha c by simp
      show "?hs ! i = take 20 (drop (i * 20) ?h)" if "i < length ?hs" for i
        using all that c by (simp add: mult.commute)
    qed
  next
    assume eq: "concat ?hs = ?h"
    show "\<forall>k<?c. ?hs ! k = take 20 (drop (20 * k) ?h)"
    proof (intro allI impI)
      fix k assume "k < ?c"
      then have "take 20 (drop (k * 20) (concat ?hs)) = ?hs ! k"
        using sha c by (intro concat_blocks) (auto intro: length_chunk_hash)
      then show "?hs ! k = take 20 (drop (20 * k) ?h)" unfolding eq by (simp add: mult.commute)
    qed
  qed
  then show ?thesis using step unfolding MatchSHA_def GetFileHash2_concat [of sha1 f] by simp
qed

theorem chunk_checks_are_file_check_witness:
  "(\<forall>k<length (pieces CHUNK_SIZE ''abc''). GetFileHashsmall demo_sha (Some ''abc'') k (GetFileHash2 demo_sha (Some ''abc'')) = Some True) \<longleftrightarrow>
    MatchSHA demo_sha (Some ''abc'') (GetFileHash2 demo_sha (Some ''abc'')) = ''Full file matched''"
  by (rule chunk_checks_are_file_check) simp_all

text \<open>C16: One chunk transfer is exact: whatever the segments \<open>recv\<close> returns, the receiver's file keeps its
  length, gets the bytes of the sender's file inside the chunk, and what was right outside stays
  right, although both sides overshoot the chunk.\<close>

theorem chunk_transfer_exact:
  assumes "ssl_stream rd bytes" "bytes c = concat (chunk_blocks s (k * CHUNK_SIZE))" "length f = length s"
  defines "f' \<equiv> write_at f (k * CHUNK_SIZE) (recv_loop rd c (int CHUNK_SIZE))"
  shows "length f' = length s \<and>
    (\<forall>p<length s. f ! p = s ! p \<or> k * CHUNK_SIZE \<le> p \<and> p < k * CHUNK_SIZE + CHUNK_SIZE \<longrightarrow> f' ! p = s ! p)"
  unfolding f'_def using transfer_chunk [OF assms(1-3)] by blast

theorem chunk_transfer_exact_witness:
  "let f' = write_at ''xxx'' 0 (recv_loop record_read (chunk_blocks ''abc'' 0) (int CHUNK_SIZE)) in
    length f' = 3 \<and> (\<forall>p<3. f' ! p = ''abc'' ! p)"
  using chunk_transfer_exact [OF record_stream.ssl_stream_axioms, of "chunk_blocks ''abc'' 0" "''abc''" 0 "''xxx''"]
  by (auto simp: Let_def CHUNK_SIZE_def)

text \<open>A seeder sends at most one block of 1024 bytes more than the chunk, and everything it sends is a
  part of its file.\<close>

lemma chunk_sender_bound:
  "concat (chunk_blocks s (k * CHUNK_SIZE)) = take (CHUNK_SIZE + SMALL_CHUNK_SIZE1) (drop (k * CHUNK_SIZE) s) \<and>
    length (concat (chunk_blocks s (k * CHUNK_SIZE))) \<le> 513 * 1024"
  by (simp add: chunk_blocks_bytes CHUNK_SIZE_def SMALL_CHUNK_SIZE1_def)

text \<open>From chunk 4096 on (2 GiB) the byte position no longer fits into an \<open>int\<close>: the check of a chunk and
  the sending of a chunk overflow, below they do not.\<close>

lemma chunk_position_overflow:
  "(int_range (int k * int CHUNK_SIZE) = None) = (4096 \<le> k) \<and>
    (4096 \<le> k \<longrightarrow> GetFileHashsmall sha1 file k h = None)"
proof -
  have "(int_range (int k * int CHUNK_SIZE) = None) = (4096 \<le> k)" by (auto simp: int_range_def CHUNK_SIZE_def)
  then show ?thesis by (auto simp: GetFileHashsmall_def split: bind_splits)
qed

text \<open>The number of chunks the downloader computes from the size in the tracker's answer is the number of
  chunks that were hashed, for every file under 2 GiB.\<close>

lemma chunk_count_agrees:
  assumes "length s < 2 ^ 31" "\<And>d. length (sha1 d) = 20"
  shows "\<exists>n. nchunks_of (nat_to_string (snd (GetFileHash sha1 (Some s)))) = Some (int n) \<and>
    length (fst (GetFileHash sha1 (Some s))) = 20 * n"
proof -
  have g: "GetFileHash sha1 (Some s) = (GetFileHash2 sha1 (Some s), length s)"
    by (simp add: upload_hash_is_download_hash)
  show ?thesis
    unfolding g using nchunks_of_pieces [OF assms(1)] length_GetFileHash2 [of sha1 s] assms(2)
    by (intro exI [of _ "length (pieces CHUNK_SIZE s)"]) simp
qed

section \<open>Properties of the schedule\<close>

text \<open>The chunks a peer with this \<open>filechunks_map\<close> offers.\<close>

definition held :: "nat \<Rightarrow> string \<Rightarrow> (string \<rightharpoonup> nat list) \<Rightarrow> nat list" where
  "held nchunks fn m = (case m fn of None \<Rightarrow> [0..<nchunks] | Some ks \<Rightarrow> ks)"

text \<open>C15: The rarest seeder wins: from the answers of at most 16 seeders, whatever each of them holds, every chunk
  is given to a seeder that has it and offers the fewest chunks among those that do; a chunk that nobody
  has is marked with -1. The result says whether any seeder is incomplete. Up to 16 elements the
  sort of the GNU library, with which the program is built, sorts also with the \<open><=\<close> of \<open>my_comp\<close>;
  beyond that the comparison leaves it undefined.\<close>

theorem rarest_seeder_chosen:
  assumes ms: "ms \<noteq> []" "int nchunks < 2 ^ 31" "length ms \<le> 16"
    and rng: "\<forall>m\<in>set ms. \<forall>k\<in>set (held nchunks fn m). k < nchunks"
  shows "\<exists>chunks. CalcChunk nchunks (map (\<lambda>m. Some (GetChunkInfo m fn)) ms) =
      Some (\<exists>m\<in>set ms. m fn \<noteq> None, chunks) \<and> length chunks = nchunks \<and>
    (\<forall>x<nchunks.
      if \<exists>i<length ms. x \<in> set (held nchunks fn (ms ! i))
      then \<exists>i<length ms. chunks ! x = int i \<and> x \<in> set (held nchunks fn (ms ! i)) \<and>
        (\<forall>j<length ms. x \<in> set (held nchunks fn (ms ! j)) \<longrightarrow>
           length (held nchunks fn (ms ! i)) \<le> length (held nchunks fn (ms ! j)))
      else chunks ! x = - 1)"
proof -
  let ?o = "\<lambda>m. (m fn \<noteq> None, map (\<lambda>k. int k + 1) (held nchunks fn m))"
  have "chunk_list nchunks (GetChunkInfo m fn) = Some (?o m)" if m: "m \<in> set ms" for m
  proof -
    have "\<forall>ks. m fn = Some ks \<longrightarrow> (\<forall>k\<in>set ks. int k + 1 < 2 ^ 31)"
      using rng m ms(2) by (force simp: held_def)
    then show ?thesis
      using chunk_list_GetChunkInfo [of m fn nchunks] by (auto simp: held_def split: option.splits)
  qed
  then have offers: "map_opt (\<lambda>answer. do { s \<leftarrow> answer; chunk_list nchunks s })
      (map (\<lambda>m. Some (GetChunkInfo m fn)) ms) = Some (map ?o ms)"
    by (intro map_opt_map) simp
  have mem: "int x + 1 \<in> (\<lambda>k. int k + 1) ` K \<longleftrightarrow> x \<in> K" for x K by auto
  have "\<forall>l\<in>set (map ?o ms). \<forall>j\<in>set (snd l). 1 \<le> j \<and> j \<le> int nchunks" using rng by force
  from CalcChunk_total [OF offers _ _ this] ms(1,3)
  show ?thesis by (simp add: list_ex_iff mem cong: conj_cong if_cong)
qed

theorem rarest_seeder_chosen_witness:
  "\<exists>chunks. CalcChunk 2 [Some (GetChunkInfo Map.empty ''f''), Some (GetChunkInfo [''f'' \<mapsto> [0]] ''f'')] =
     Some (True, chunks) \<and> length chunks = 2 \<and> chunks ! 0 = 1 \<and> chunks ! 1 = 0"
proof -
  let ?ms = "[Map.empty, [''f'' \<mapsto> [0]]] :: (string \<rightharpoonup> nat list) list"
  have held: "held 2 ''f'' Map.empty = [0, 1]" "held 2 ''f'' [''f'' \<mapsto> [0]] = [0]"
    by (simp_all add: held_def upt_rec)
  have two: "(\<exists>i<length ?ms. Q i) = (Q 0 \<or> Q 1)" "(\<forall>i<length ?ms. Q i) = (Q 0 \<and> Q 1)" for Q
    by (auto simp: less_Suc_eq)
  obtain chunks where c: "CalcChunk 2 (map (\<lambda>m. Some (GetChunkInfo m ''f'')) ?ms) =
      Some (\<exists>m\<in>set ?ms. m ''f'' \<noteq> None, chunks)" "length chunks = 2"
    "\<forall>x<2. if \<exists>i<length ?ms. x \<in> set (held 2 ''f'' (?ms ! i))
      then \<exists>i<length ?ms. chunks ! x = int i \<and> x \<in> set (held 2 ''f'' (?ms ! i)) \<and>
        (\<forall>j<length ?ms. x \<in> set (held 2 ''f'' (?ms ! j)) \<longrightarrow>
           length (held 2 ''f'' (?ms ! i)) \<le> length (held 2 ''f'' (?ms ! j)))
      else chunks ! x = - 1"
    using rarest_seeder_chosen [of ?ms 2 "''f''"] by (auto simp: held_def)
  have "chunks ! 0 = 1"
    using c(3) [rule_format, of 0] unfolding two by (simp add: held)
  moreover have "chunks ! 1 = 0"
    using c(3) [rule_format, of 1] unfolding two by (simp add: held)
  ultimately show ?thesis using c(1,2) by auto
qed


section \<open>Properties of the download\<close>

text \<open>A seeder to evaluate the download against: a peer that has the file, and a tracker that knows where.\<close>

definition demo_net :: "unit net" where
  "demo_net = \<lparr>dial = (\<lambda>ip port msg n.
       (case ClientServerKernel (\<lambda>_. True) (\<lambda>_ _ n. (Reply ''f'', n)) (\<lambda>_. Some ''abc'') Map.empty msg n of
          None \<Rightarrow> (None, n) | Some (blocks, n') \<Rightarrow> (Some blocks, n'))),
     ask = (\<lambda>msg n. (Reply [], n))\<rparr>"

definition demo_file :: filedata where
  "demo_file = \<lparr>name = ''f'', path = ''d'', hash = GetFileHash2 demo_sha (Some ''abc''), fsize = ''3'', groupname = ''g'',
     serverpath = join sp [''1'', ''2'', ''3'', ''4''], username = ''bob'', seeders = [''alice''],
     details = [''alice'' \<mapsto> (''1'', ''2'')]\<rparr>"

lemma demo_atoi: "atoi ''2'' = Some 2" "atoi ''4'' = Some 4"
  by code_simp+

lemma demo_honest: "honest_seeders demo_net (\<lambda>_. True) demo_file ''abc''"
proof (unfold_locales, goal_cases)
  case (3 n u p)
  have "token ''f''" by (simp add: token_def is_space_def)
  then show ?case
    using chunk_numbers_served [of "''f''" "\<lambda>_. True" "\<lambda>_ _ n. (Reply ''f'', n)" "\<lambda>_. Some ''abc''" Map.empty n]
    by (simp add: demo_net_def demo_file_def GetChunkInfo_def)
next
  case (4 n u p k)
  have "ClientServerKernel (\<lambda>_. True) (\<lambda>_ _ n. (Reply ''f'', n)) (\<lambda>_. Some ''abc'') Map.empty
      (send_chunk_message ''g'' ''f'' k (join sp [''1'', ''2'', ''3'', ''4'']) ''alice'') n =
      Some (chunk_blocks ''abc'' (k * CHUNK_SIZE), n)"
    by (rule send_chunk_served [OF _ demo_atoi 4(4), where path = "''f''"]) simp_all
  then show ?case using 4(2) by (simp add: demo_net_def demo_file_def del: join.simps)
qed (simp_all add: demo_file_def demo_net_def detail_of_def demo_atoi UpdateServer_def UpdateServerComplete_def
    notify_def del: join.simps)

text \<open>C13: While a download runs, its entry of \<open>filechunks_map\<close> grows by verified chunks only: when the loop for
  a chunk returns, either nothing was added, or exactly this chunk, and then the file on disk has
  passed the hash check for it at that moment. It says nothing about a file without an entry, of which
  a peer claims every chunk.\<close>

theorem only_verified_chunks_recorded:
  assumes "DownloadKernel N sha1 fm k num att file m n = Some (file', m', n')"
  shows "m' = m \<or>
    (GetFileHashsmall sha1 file' k (hash fm) = Some True \<and>
     m' = m(name fm \<mapsto> (case m (name fm) of None \<Rightarrow> [] | Some ks \<Rightarrow> ks) @ [k]))"
  using DownloadKernel_records [OF assms] unfolding chunk_recorded_def .

theorem only_verified_chunks_recorded_witness:
  "\<exists>f' m' n'. DownloadKernel demo_net demo_sha demo_file 0 0 0 (Some ''555'') Map.empty () = Some (f', m', n') \<and>
     m' = [''f'' \<mapsto> [0]] \<and> GetFileHashsmall demo_sha f' 0 (hash demo_file) = Some True"
proof -
  have "0 < length (pieces CHUNK_SIZE ''abc'')" by (simp add: pieces.simps [of _ "''abc''"])
  moreover have "arrived ''abc'' {} ''555''" by (simp add: arrived_def)
  ultimately obtain f' n' where r: "DownloadKernel demo_net demo_sha demo_file 0 0 0 (Some ''555'') Map.empty () =
      Some (Some f', [''f'' \<mapsto> [0]], n')"
    using honest_seeders.DownloadKernel_honest [OF demo_honest, where n = "()" and ?sha1.0 = demo_sha and k = 0
        and num = 0 and ks = "{}" and f = "''555''" and att = 0 and m = Map.empty]
    by (auto simp: demo_file_def)
  have "GetFileHashsmall demo_sha (Some f') 0 (hash demo_file) = Some True"
    using only_verified_chunks_recorded [OF r] by (simp add: map_upd_nonempty)
  then show ?thesis using r by blast
qed

text \<open>A failed download is announced as complete: when the whole file does not match its hash, the entry of
  \<open>filechunks_map\<close> is erased all the same, and the peer answers a question for its chunks with \<open>-1\<close>,
  which the next downloader reads as every chunk.\<close>

lemma failed_download_is_announced:
  assumes "DownloadFile N sha1 creatable rows g filename filepath user m n = Some (out, content', m', n')"
    "last out = ''Not Matched''"
  shows "GetChunkInfo m' filename = ''-1'' \<and>
    chunk_list nchunks (GetChunkInfo m' filename) = Some (False, map (\<lambda>i. int i + 1) [0..<nchunks])"
proof -
  have "m' filename = None"
    using assms by (auto simp: DownloadFile_def Let_def bind_Some_conv split: prod.splits contact.splits if_splits)
  then show ?thesis by (simp add: GetChunkInfo_def chunk_list_def)
qed

text \<open>A seeder that claims the whole file and then refuses every chunk.\<close>

definition idle_net :: "unit net" where
  "idle_net = \<lparr>dial = (\<lambda>ip port msg n. (if msg = ''chunk_numbers f'' then Some [''-1''] else None, n)),
     ask = (\<lambda>msg n. (Reply (if msg = ''give_sha g f bob'' then GetFileHash2 demo_sha (Some ''abc'')
       else if msg = ''give_seeders g f bob'' then ''alice 3'' else ''1 2''), n))\<rparr>"

lemma idle_download:
  "DownloadFile idle_net demo_sha True [''1 2'', ''3 4''] ''g'' ''f'' ''d'' ''bob'' Map.empty () =
    Some ([''Not Matched''], Some ''555'', Map.empty, ())"
proof -
  let ?h = "GetFileHash2 demo_sha (Some ''abc'')"
  let ?fm = "\<lparr>name = ''f'', path = ''d'', hash = ?h, fsize = ''3'', groupname = ''g'', serverpath = ''1 2 3 4'',
     username = ''bob'', seeders = [''alice''], details = [''alice'' \<mapsto> (''1'', ''2'')]\<rparr>"
  have one: "pieces CHUNK_SIZE [a, b, c] = [[a, b, c]]" for a b c :: char
    by (simp add: pieces.simps [of _ "[a, b, c]"] pieces.simps [of _ "[]"] CHUNK_SIZE_def)
  have h: "?h \<noteq> []" "GetFileHash2 demo_sha (Some ''555'') \<noteq> ?h"
    unfolding GetFileHash2_concat one by code_simp+
  have splits: "split2 ''alice 3'' sp = [''alice'', ''3'']" "split2 ''1 2'' sp = [''1'', ''2'']"
    "ServerPath [''1 2'', ''3 4''] = Some ''1 2 3 4''" "atoi ''3'' = Some 3"
    by code_simp+
  have "nat_to_string 3 = ''3''" by code_simp
  then have count: "nchunks_of ''3'' = Some 1"
    using nchunks_of_pieces [of "''abc''"] one by (simp add: numeral_3_eq_3)
  obtain c where c: "CalcChunk 1 [Some ''-1''] = Some (False, c)" using CalcChunk_complete [of 1 1] by auto
  have kernel: "DownloadKernel idle_net demo_sha ?fm 0 0 0 (Some ''555'') m () = Some (Some ''555'', m, ())" for m
    by (subst DownloadKernel.simps)
      (simp add: DownloadAttempt_def seeder_at_def detail_of_def demo_atoi idle_net_def send_chunk_message_def)
  have "GetChunks idle_net demo_sha ?fm (Some ''555'') Map.empty () = Some (Some ''555'', [''f'' \<mapsto> []], ())"
    using c kernel by (simp add: GetChunks_def count detail_of_def demo_atoi) (simp add: idle_net_def)
  moreover have "UpdateServerComplete idle_net ?fm () = Some ()"
    by (simp add: UpdateServerComplete_def notify_def idle_net_def)
  moreover have "ask idle_net (join sp [''give_sha'', ''g'', ''f'', ''bob'']) () = (Reply ?h, ())"
    "ask idle_net (join sp [''give_seeders'', ''g'', ''f'', ''bob'']) () = (Reply ''alice 3'', ())"
    "ask idle_net ''give_details alice'' () = (Reply ''1 2'', ())"
    by (simp_all add: idle_net_def)
  moreover have "replicate (nat 3) (CHR ''5'') = ''555''" by (simp add: numeral_3_eq_3)
  ultimately show ?thesis
    using h(1) by (simp add: DownloadFile_def splits MatchSHA_def h(2) del: join.simps)
qed

lemma idle_download_announced:
  "\<exists>m'. DownloadFile idle_net demo_sha True [''1 2'', ''3 4''] ''g'' ''f'' ''d'' ''bob'' Map.empty () =
      Some ([''Not Matched''], Some ''555'', m', ()) \<and> GetChunkInfo m' ''f'' = ''-1''"
  using idle_download failed_download_is_announced [OF idle_download] by simp

text \<open>A download always ends when nobody can be reached: after every seeder has refused the connection the
  loop returns and leaves the file and \<open>filechunks_map\<close> as they were.\<close>

lemma unreachable_seeders_give_up:
  assumes "\<And>ip port msg n. fst (dial N ip port msg n) = None"
    "\<forall>s\<in>set (seeders fm). atoi (snd (detail_of fm s)) \<noteq> None"
    "0 \<le> num" "num < int (length (seeders fm))"
  shows "\<exists>n'. DownloadKernel N sha1 fm k num 0 file m n = Some (file, m, n')"
proof -
  have "0 < length (seeders fm)" using assms(3,4) by linarith
  then show ?thesis by (rule DownloadKernel_refused [OF assms])
qed

text \<open>C33: A download never ends when the seeder of a chunk is reachable and keeps sending wrong bytes for it: the
  loop asks the same seeder again without counting the attempt. After every number of passes it is
  still running, at the same seeder and with the same number of attempts, whatever the other seeders
  have; so the thread never returns.\<close>

theorem corrupt_seeder_never_ends:
  assumes u: "seeder_at fm num = Some u" "atoi (snd (detail_of fm u)) = Some port"
    and bad: "\<And>n. \<exists>segs. fst (dial N (fst (detail_of fm u)) port
          (send_chunk_message (groupname fm) (name fm) k (serverpath fm) u) n) = Some segs \<and>
        CHUNK_SIZE \<le> length (concat segs) \<and>
        chunk_hash sha1 (take CHUNK_SIZE (concat segs)) \<noteq> take 20 (drop (20 * k) (hash fm))"
    and k: "k < 4096" "20 * k \<le> length (hash fm)" and told: "\<And>n. UpdateServer N fm n \<noteq> None"
  shows "(\<forall>j. \<exists>f' n'. kernel_passes j N sha1 fm k num att (Some f) m n = Some (Inr (num, att, Some f', n'))) \<and>
    DownloadKernel N sha1 fm k num att (Some f) m n = None"
proof -
  have running: "\<exists>f' n'. kernel_passes j N sha1 fm k num att (Some f) m n = Some (Inr (num, att, Some f', n'))" for j f n
  proof (induction j arbitrary: f n)
    case (Suc j)
    obtain segs n1 where d: "dial N (fst (detail_of fm u)) port
        (send_chunk_message (groupname fm) (name fm) k (serverpath fm) u) n = (Some segs, n1)"
      "CHUNK_SIZE \<le> length (concat segs)"
      "chunk_hash sha1 (take CHUNK_SIZE (concat segs)) \<noteq> take 20 (drop (20 * k) (hash fm))"
      using bad [of n] by (metis prod.collapse)
    obtain n2 where "(if k = 0 then UpdateServer N fm n1 else Some n1) = Some n2" using told [of n1] by (cases "k = 0") auto
    then obtain f' where "DownloadAttempt N sha1 fm k num att (Some f) m n = Some (Inr (num, att, Some f', n2))"
      using DownloadAttempt_corrupt [OF u d(1,2) k d(3)] by blast
    then show ?case using Suc.IH [of f' n2] by simp
  qed simp
  moreover have "DownloadKernel N sha1 fm k num att (Some f) m n = None"
  proof (rule ccontr)
    assume "DownloadKernel N sha1 fm k num att (Some f) m n \<noteq> None"
    then obtain y j where "kernel_passes j N sha1 fm k num att (Some f) m n = Some (Inl y)"
      using DownloadKernel_passes [of N sha1 fm k num att "Some f" m n] by fastforce
    then show False using running [of j f n] by auto
  qed
  ultimately show ?thesis by blast
qed

text \<open>Two seeders, of which the first one asked sends wrong bytes and the other one refuses.\<close>

definition two_seeders :: filedata where
  "two_seeders = demo_file\<lparr>hash := replicate 20 (CHR ''0''), seeders := [''mallory'', ''alice''],
     details := [''mallory'' \<mapsto> (''bad'', ''2''), ''alice'' \<mapsto> (''1'', ''2'')]\<rparr>"

definition bad_net :: "unit net" where
  "bad_net = \<lparr>dial = (\<lambda>ip port msg n. (if ip = ''bad'' then Some [replicate CHUNK_SIZE (CHR ''x'')] else None, n)),
     ask = (\<lambda>msg n. (Reply [], n))\<rparr>"

theorem corrupt_seeder_never_ends_witness:
  "(\<forall>j. \<exists>f'. kernel_passes j bad_net demo_sha two_seeders 0 0 0 (Some ''555'') Map.empty () =
      Some (Inr (0, 0, Some f', ()))) \<and>
    DownloadKernel bad_net demo_sha two_seeders 0 0 0 (Some ''555'') Map.empty () = None"
proof -
  have sha: "demo_sha (take CHUNK_SIZE (concat [replicate CHUNK_SIZE (CHR ''x'')])) = replicate 20 (CHR ''x'')"
    by (simp add: demo_sha_def CHUNK_SIZE_def min_def)
  have ne: "take 20 (hex (replicate 20 (CHR ''x''))) \<noteq> replicate 20 (CHR ''0'')" by code_simp
  have wrong: "chunk_hash demo_sha (take CHUNK_SIZE (concat [replicate CHUNK_SIZE (CHR ''x'')])) \<noteq>
      take 20 (drop (20 * 0) (hash two_seeders))"
    unfolding chunk_hash_def sha using ne by (simp add: two_seeders_def)
  have u: "seeder_at two_seeders 0 = Some ''mallory''" "atoi (snd (detail_of two_seeders ''mallory'')) = Some 2"
    "fst (detail_of two_seeders ''mallory'') = ''bad''" "20 * 0 \<le> length (hash two_seeders)"
    by (simp_all add: two_seeders_def seeder_at_def detail_of_def demo_atoi)
  have "UpdateServer bad_net two_seeders n \<noteq> None" for n
    by (simp add: UpdateServer_def notify_def bad_net_def del: join.simps)
  then show ?thesis
    using corrupt_seeder_never_ends [OF u(1,2) _ _ u(4), of bad_net demo_sha 0 "''555''" Map.empty "()"] wrong u(3)
    by (auto simp: bad_net_def)
qed



section \<open>Properties of the requests between peers\<close>

text \<open>C26: A chunk request is answered with the chunk: the message a downloader builds is taken apart by the seeder
  into the same fields, the path is asked of the first tracker that answers, and the bytes of that
  chunk of that file are sent.\<close>

theorem chunk_request_served:
  assumes "\<forall>x\<in>set [g, n, ip1, p1, ip2, p2, u]. sp \<notin> set x" "atoi p1 = Some port1" "atoi p2 = Some port2" "k < 4096"
    "ask' (CheckTracker_first reachable [(ip1, port1), (ip2, port2)]) (join sp [''send_full_path'', u, g, n]) x =
      (Reply path', x')"
    "file (c_buffer path') = Some s"
  shows "\<exists>server. ServerPath [join sp [ip1, p1], join sp [ip2, p2]] = Some server \<and>
    ClientServerKernel reachable ask' file m (send_chunk_message g n k server u) x =
      Some (chunk_blocks s (k * CHUNK_SIZE), x')"
proof (intro exI conjI)
  show "ServerPath [join sp [ip1, p1], join sp [ip2, p2]] = Some (join sp [ip1, p1, ip2, p2])"
    by (rule ServerPath_two) (use assms(1) in simp_all)
  show "ClientServerKernel reachable ask' file m (send_chunk_message g n k (join sp [ip1, p1, ip2, p2]) u) x =
      Some (chunk_blocks s (k * CHUNK_SIZE), x')"
    by (rule send_chunk_served [OF assms(1-4)]) (rule assms)+
qed

theorem chunk_request_served_witness:
  "\<exists>server. ServerPath [join sp [''1'', ''2''], join sp [''3'', ''4'']] = Some server \<and>
    ClientServerKernel (\<lambda>_. True) (\<lambda>_ _ n. (Reply ''f'', n)) (\<lambda>_. Some ''abc'') Map.empty
      (send_chunk_message ''g'' ''f'' 0 server ''alice'') () = Some (chunk_blocks ''abc'' (0 * CHUNK_SIZE), ())"
  by (rule chunk_request_served [where path' = "''f''", OF _ demo_atoi]) simp_all

text \<open>C38: The protocol is for two trackers: with one line in the tracker file the request is one address short, and the
  seeder that receives it reads past the end of its fields.\<close>

theorem one_tracker_breaks_seeders:
  assumes "\<forall>x\<in>set [g, n, ip, p, u]. sp \<notin> set x"
  shows "\<exists>server. ServerPath [join sp [ip, p]] = Some server \<and>
    ClientServerKernel reachable ask' file m (send_chunk_message g n k server u) x = None"
proof -
  have "split2 (join sp [ip, p]) sp = [ip, p]"
    using split_str_join [of "[ip, p]" sp] assms by (simp add: split2_split)
  then have "ServerPath [join sp [ip, p]] = Some (butlast ((ip @ [sp] @ p) @ [sp]))"
    by (simp add: ServerPath_def butlast_conv_take del: butlast_append)
  then have server: "ServerPath [join sp [ip, p]] = Some (join sp [ip, p])" by (simp only: butlast_snoc) simp
  let ?c = "send_chunk_message g n k (join sp [ip, p]) u"
  have msg: "?c = join sp [''send_chunk'', g, n, nat_to_string k, ip, p, u]" by (simp add: send_chunk_message_def)
  have "sp \<notin> set (nat_to_string k)" by (rule token_sp) simp
  then have fields: "split_str ?c sp = [''send_chunk'', g, n, nat_to_string k, ip, p, u]"
    unfolding msg using assms by (intro split_str_join) auto
  have "?c = ''send_chunk'' @ sp # join sp [g, n, nat_to_string k, ip, p, u]" unfolding msg by simp
  moreover have "token ''send_chunk''" by (simp add: token_def is_space_def)
  ultimately have "stream_gets 2 ?c ! 0 = ''send_chunk''"
    by (simp only: numeral_2_eq_2 stream_gets.simps stream_get_step Let_def split nth_Cons_0 list.discI simp_thms)
  moreover have "TransferFunction reachable ask' file [''send_chunk'', g, n, nat_to_string k, ip, p, u] x = None"
    by (simp add: TransferFunction_def Conv_def vec_at_def split: bind_splits)
  ultimately show ?thesis using server fields by (simp add: ClientServerKernel_def Let_def)
qed

theorem one_tracker_breaks_seeders_witness:
  "\<exists>server. ServerPath [join sp [''1'', ''2'']] = Some server \<and>
    ClientServerKernel (\<lambda>_. True) (\<lambda>_ _ n. (Reply ''f'', n)) (\<lambda>_. Some ''abc'') Map.empty
      (send_chunk_message ''g'' ''f'' 0 server ''alice'') () = None"
  by (rule one_tracker_breaks_seeders) simp


section \<open>Properties of the command loop\<close>

text \<open>A world to evaluate the loop in: two trackers that accept connections and close them without a reply.\<close>

definition demo_world :: "unit world" where
  "demo_world = \<lparr>online = (\<lambda>a n. True), talk = (\<lambda>a m n. (Reply [], n)), call = dial demo_net, digest = demo_sha,
     tracker_rows = [''1 2'', ''3 4''], creates = (\<lambda>p. True), myip = ''127.0.0.1'', myport_i = 4\<rparr>"

lemma demo_check:
  "CheckTracker (\<lambda>a. online demo_world a n) (tracker_rows demo_world) (False, d) = Some (True, ''3'', 4)"
proof -
  have "map_opt tracker_addr (tracker_rows demo_world) = Some [(''1'', 2), (''3'', 4)]" by code_simp
  from CheckTracker_filter [OF this, of "\<lambda>a. online demo_world a n" False d] show ?thesis by (simp add: demo_world_def)
qed

lemma silent_login:
  assumes "\<And>data. \<exists>n'. talk W (si_sp s) data n = (Reply [], n')" "\<not> login_flag s" "arg s 0 = ''login''"
  shows "\<exists>s' n'. run_command W rest s n = Some ([''Successful'', []], s', n') \<and> login_flag s' \<and>
    me s' = arg (read_args [1, 2] rest s) 1"
proof -
  let ?s = "read_args [1, 2] rest s"
  let ?d = "join sp [''login'', arg ?s 1, arg ?s 2, to_string (myport_i W), myip W]"
  obtain n' where "talk W (si_sp s) ?d n = (Reply [], n')" using assms(1) by blast
  then have "request_bool W (si_sp s) ?d n = Some (True, n')" by (simp add: request_bool_Reply)
  then show ?thesis
    using assms(2,3) by (simp add: run_command_def Let_def UserLogin_call_def sign_on_def del: join.simps)
qed

text \<open>The command loop and the chunk server choose trackers differently: of those that accept a connection, the
  command loop works with the last in the tracker file, the chunk server with the first.\<close>

lemma last_and_first_tracker:
  assumes "map_opt tracker_addr infile = Some as" "filter reachable as \<noteq> []"
  shows "CheckTracker reachable infile (False, d) = Some (True, last (filter reachable as)) \<and>
    CheckTracker_first reachable as = hd (filter reachable as)"
proof -
  have "filter reachable as \<noteq> [] \<Longrightarrow> CheckTracker_first reachable as = hd (filter reachable as)" by (induction as) auto
  then show ?thesis using CheckTracker_filter [OF assms(1), of reachable False d] assms(2) by simp
qed

text \<open>C28: The session is a state machine: in one turn of the loop the user changes only by a \<open>login\<close> or
  \<open>create_user\<close> that names the new user and was not answered with \<open>0\<close>, the session ends only by a
  \<open>logout\<close> that was not answered with \<open>0\<close>, and the ten argument slots stay ten.\<close>

theorem session_changes_by_answers:
  assumes "main_turn W c s n = Some (Some (out, s', n'))"
  shows "session_step W s n s' n' \<and> length (command_split s') = length (command_split s)"
  by (rule main_turn_session [OF assms])

theorem session_changes_by_answers_witness:
  "\<exists>out s' n'. main_turn demo_world ''login bob pw'' (fresh_session Map.empty) () = Some (Some (out, s', n')) \<and>
     login_flag s' \<and> (\<exists>v\<in>{''login'', ''create_user''}. \<exists>pw.
       request_bool demo_world (si_sp s') (join sp [v, me s', pw, to_string 4, ''127.0.0.1'']) () = Some (True, n'))"
proof -
  let ?s = "(fresh_session Map.empty)\<lparr>command_split := ''login'' # replicate 9 [], si_sp := (''3'', 4)\<rparr>"
  have w: "stream_get [] ''login bob pw'' = (''login'', '' bob pw'')" by code_simp
  obtain s' n' where r: "run_command demo_world '' bob pw'' ?s () = Some ([''Successful'', []], s', n')" "login_flag s'"
    using silent_login [of demo_world ?s "()" "'' bob pw''"] by (auto simp: demo_world_def fresh_session_def arg_def)
  have "main_turn demo_world ''login bob pw'' (fresh_session Map.empty) () = Some (Some ([''Successful'', []], s', n'))"
    using r(1) w demo_check by (simp add: main_turn_def arg_def fresh_session_def numeral_nat)
  moreover from session_changes_by_answers [OF this] r(2)
  have "\<exists>v\<in>{''login'', ''create_user''}. \<exists>pw.
      request_bool demo_world (si_sp s') (join sp [v, me s', pw, to_string 4, ''127.0.0.1'']) () = Some (True, n')"
    by (auto simp: session_step_def fresh_session_def demo_world_def simp del: join.simps)
  ultimately show ?thesis using r(2) by blast
qed

text \<open>An empty line repeats the previous command, and a command with arguments left out repeats the previous ones:
  a line of blanks does what the words still in \<open>command_split\<close> would do if they were typed again.\<close>

lemma blank_line_repeats:
  assumes "\<forall>c\<in>set blank. is_space c" "0 < k" "k \<le> length (command_split s)"
    "\<forall>w\<in>set (take k (command_split s)). token w \<and> w \<noteq> []"
  shows "main_turn W blank s n = main_turn W (join sp (take k (command_split s))) s n"
  by (rule main_turn_stale [OF assms])

text \<open>C40: A tracker that sends nothing counts as a tracker that says yes: when the connection closes before a reply, a
  \<open>login\<close> command is reported as successful and the session belongs to that user.\<close>

theorem silence_is_success:
  assumes "\<And>data. \<exists>n'. talk W (si_sp s) data n = (Reply [], n')" "\<not> login_flag s" "arg s 0 = ''login''"
  shows "\<exists>s' n'. run_command W rest s n = Some ([''Successful'', []], s', n') \<and> login_flag s' \<and>
    me s' = arg (read_args [1, 2] rest s) 1"
  by (rule silent_login [OF assms])

theorem silence_is_success_witness:
  "\<exists>s' n'. run_command demo_world '' bob pw'' ((fresh_session Map.empty)\<lparr>command_split := ''login'' # replicate 9 []\<rparr>) () =
     Some ([''Successful'', []], s', n') \<and> login_flag s'"
  using silence_is_success [of demo_world "(fresh_session Map.empty)\<lparr>command_split := ''login'' # replicate 9 []\<rparr>" "()" "'' bob pw''"]
  by (auto simp: demo_world_def fresh_session_def arg_def)

end
