(* ===== verification/Thread_Properties.thy ===== *)
theory Thread_Properties
  imports Peer_Properties Peer_Threads
begin

text \<open>
  What the interleaving of the chunk threads can do to a chunk that has been verified. That every
  interleaving delivers the file when all seeders are honest is in the root theory.
\<close>


section \<open>An honest and a bad seeder\<close>

text \<open>All the segments are written while the bytes before the last one leave room.\<close>

lemma recv_loop_all:
  assumes "\<forall>d\<in>set segs. d \<noteq> [] \<and> length d \<le> SMALL_CHUNK_SIZE1" "int (length (concat (butlast segs))) < n"
  shows "recv_loop record_read segs n = concat segs"
  using assms
proof (induction segs arbitrary: n)
  case Nil
  then show ?case by (simp add: recv_loop.simps [of record_read])
next
  case (Cons d segs)
  then have d: "record_read (d # segs) SMALL_CHUNK_SIZE1 = (d, segs)" "d \<noteq> []" by simp_all
  have n: "0 < n" using Cons.prems(2) by linarith
  have "recv_loop record_read segs (n - int (length d)) = concat segs"
  proof (cases "segs = []")
    case True
    then show ?thesis by (simp add: recv_loop.simps [of record_read])
  next
    case False
    then show ?thesis using Cons.prems by (intro Cons.IH) simp_all
  qed
  then show ?case using d n by (simp add: recv_loop.simps [of record_read "d # segs"])
qed

text \<open>
  Two seeders: one has the file, 1 MiB of \<open>a\<close>; the other sends \<open>b\<close>, and TCP cuts its bytes so that the
  last block the receiver reads goes one byte past the chunk.
\<close>

definition mixed_net :: "unit net" where
  "mixed_net = \<lparr>dial = (\<lambda>ip port msg n.
       (Some (if ip = ''bad'' then ''b'' # replicate 512 (replicate SMALL_CHUNK_SIZE1 (CHR ''b''))
              else [replicate CHUNK_SIZE (CHR ''a'')]), n)),
     ask = (\<lambda>msg n. (Reply [], n))\<rparr>"

definition mixed_file :: filedata where
  "mixed_file = demo_file\<lparr>hash := GetFileHash2 demo_sha (Some (replicate (2 * CHUNK_SIZE) (CHR ''a''))),
     seeders := [''eve'', ''alice''], details := [''eve'' \<mapsto> (''bad'', ''2''), ''alice'' \<mapsto> (''good'', ''2'')]\<rparr>"

lemma mixed_bad: "recv_loop record_read (''b'' # replicate 512 (replicate SMALL_CHUNK_SIZE1 (CHR ''b''))) (int CHUNK_SIZE) =
    replicate (CHUNK_SIZE + 1) (CHR ''b'')"
proof -
  have cat: "concat (replicate n (replicate k x)) = replicate (n * k) x" for n k and x :: char
    by (induction n) (simp_all add: replicate_add)
  let ?blocks = "replicate 512 (replicate SMALL_CHUNK_SIZE1 (CHR ''b''))"
  have "butlast (replicate (Suc n) y) = replicate n y" for n and y :: string
    by (metis butlast_snoc replicate_Suc replicate_append_same)
  from this [of 511] have "butlast (''b'' # ?blocks) = ''b'' # replicate 511 (replicate SMALL_CHUNK_SIZE1 (CHR ''b''))"
    by simp
  then have "recv_loop record_read (''b'' # ?blocks) (int CHUNK_SIZE) = concat (''b'' # ?blocks)"
    by (intro recv_loop_all) (simp_all add: cat SMALL_CHUNK_SIZE1_def CHUNK_SIZE_def)
  also have "\<dots> = CHR ''b'' # replicate (512 * SMALL_CHUNK_SIZE1) (CHR ''b'')" by (simp add: cat)
  also have "512 * SMALL_CHUNK_SIZE1 = CHUNK_SIZE" by (simp add: SMALL_CHUNK_SIZE1_def CHUNK_SIZE_def)
  also have "CHR ''b'' # replicate CHUNK_SIZE (CHR ''b'') = replicate (CHUNK_SIZE + 1) (CHR ''b'')" by simp
  finally show ?thesis .
qed

lemma mixed_check:
  assumes "length f = 2 * CHUNK_SIZE"
  shows "GetFileHashsmall demo_sha (Some f) 1 (hash mixed_file) =
    Some (chunk_hash demo_sha (chunk_at f 1) = chunk_hash demo_sha (replicate CHUNK_SIZE (CHR ''a'')))"
proof -
  let ?s = "replicate (2 * CHUNK_SIZE) (CHR ''a'')"
  have k: "1 < length (pieces CHUNK_SIZE ?s)"
    by (simp add: length_pieces)
  have "chunk_at ?s 1 = replicate CHUNK_SIZE (CHR ''a'')" by (simp add: chunk_at_def)
  then show ?thesis
    using hash_slot [OF length_demo_sha k] GetFileHashsmall_eq [of 1 "hash mixed_file" demo_sha f]
    by (simp add: mixed_file_def)
qed

lemma chunk_hash_first: "chunk_hash demo_sha (c # d) = chunk_hash demo_sha (c' # d') \<Longrightarrow> c = c'"
proof -
  have "demo_sha (x # y) = x # take 19 (y @ replicate 20 (CHR 0x00))" for x y by (simp add: demo_sha_def)
  then have "take 2 (chunk_hash demo_sha (x # y)) = hex [x]" for x y by (simp add: chunk_hash_def hex_def)
  then show "chunk_hash demo_sha (c # d) = chunk_hash demo_sha (c' # d') \<Longrightarrow> c = c'" by (metis hex_inj list.inject)
qed

text \<open>The thread of chunk 1, fetching from the good seeder, comes first.\<close>

definition second_done :: "unit pool" where
  "second_done = \<lparr>dest = replicate CHUNK_SIZE (CHR ''5'') @ replicate CHUNK_SIZE (CHR ''a''), announced = [''f'' \<mapsto> [1]],
     net_state = (), thread = [0 \<mapsto> Ask 0 0, 1 \<mapsto> Ended]\<rparr>"

lemma mixed_file_fields:
  "name mixed_file = ''f''" "seeder_at mixed_file 0 = Some ''eve''" "seeder_at mixed_file 1 = Some ''alice''"
  "detail_of mixed_file ''eve'' = (''bad'', ''2'')" "detail_of mixed_file ''alice'' = (''good'', ''2'')"
  by (simp_all add: mixed_file_def demo_file_def seeder_at_def detail_of_def)

lemma second_chunk_first:
  "(kernel_step mixed_net demo_sha mixed_file)\<^sup>*\<^sup>*
     (start_pool [(0, 0), (1, 1)] (replicate (2 * CHUNK_SIZE) (CHR ''5'')) [''f'' \<mapsto> []] ()) second_done"
proof -
  let ?f = "replicate (2 * CHUNK_SIZE) (CHR ''5'')" and ?a = "replicate CHUNK_SIZE (CHR ''a'')"
  let ?f1 = "replicate CHUNK_SIZE (CHR ''5'') @ ?a"
  define st0 where "st0 = start_pool [(0, 0), (1, 1)] ?f [''f'' \<mapsto> []] ()"
  have th: "thread st0 = [0 \<mapsto> Ask 0 0, 1 \<mapsto> Ask 1 0]" "dest st0 = ?f" "announced st0 = [''f'' \<mapsto> []]"
    by (auto simp: st0_def start_pool_def)
  have recv: "recv_loop record_read [?a] (int CHUNK_SIZE) = ?a"
    using record_stream.recv_loop_bytes [of "[?a]" CHUNK_SIZE] by auto
  have f1: "write_at ?f CHUNK_SIZE ?a = ?f1" by (simp add: write_at_def)
  have "chunk_at ?f1 1 = ?a" by (simp add: chunk_at_def)
  then have ok: "GetFileHashsmall demo_sha (Some ?f1) 1 (hash mixed_file) = Some True"
    using mixed_check [of ?f1] by simp
  have one: "DownloadAttempt mixed_net demo_sha mixed_file 1 1 0 (Some (dest st0)) (announced st0) (net_state st0) =
      Some (Inl (Some ?f1, [''f'' \<mapsto> [1]], ()))"
    using ok recv f1 chunk_pos [of 1] mixed_file_fields demo_atoi th
    by (simp add: DownloadAttempt_def mixed_net_def Let_def)
  have "thread st0 1 = Some (Ask 1 0)" by (simp add: th)
  note attempt_is_run [OF this one]
  moreover have "after_pass 1 (Inl (Some ?f1, [''f'' \<mapsto> [1]], ())) st0 = second_done"
    by (simp add: after_pass_def second_done_def th)
  ultimately show ?thesis unfolding st0_def by simp
qed


section \<open>Properties\<close>

text \<open>C35: A chunk that was verified and announced can become wrong again: both sides overshoot a chunk, so the thread of
  the chunk before, fetching from a bad seeder, can overwrite its first bytes after the check.\<close>

theorem verified_chunk_overwritten:
  "\<exists>st. (kernel_step mixed_net demo_sha mixed_file)\<^sup>*\<^sup>*
      (start_pool [(0, 0), (1, 1)] (replicate (2 * CHUNK_SIZE) (CHR ''5'')) [''f'' \<mapsto> []] ()) st \<and>
    announced st ''f'' = Some [1] \<and> GetFileHashsmall demo_sha (Some (dest st)) 1 (hash mixed_file) = Some False"
proof -
  let ?a = "replicate CHUNK_SIZE (CHR ''a'')" and ?b = "replicate (CHUNK_SIZE + 1) (CHR ''b'')"
  let ?step = "kernel_step mixed_net demo_sha mixed_file"
  define st2 where "st2 = second_done\<lparr>net_state := (), thread := (thread second_done)(0 \<mapsto> Store 0 0 (nat 0) ?b)\<rparr>"
  define st3 where "st3 = st2\<lparr>dest := write_at (dest st2) (nat 0) ?b, thread := (thread st2)(0 \<mapsto> Store 0 0 (nat 0 + length ?b) [])\<rparr>"
  have "thread second_done 0 = Some (Ask 0 0)" by (simp add: second_done_def)
  then have run2: "?step second_done st2"
    unfolding st2_def mixed_bad [symmetric]
    by (rule kernel_connects [OF _ mixed_file_fields(2), where port = 2])
      (simp_all add: mixed_file_fields demo_atoi mixed_net_def int_range_def)
  have run3: "?step\<^sup>*\<^sup>* st2 st3" unfolding st3_def by (rule store_all) (simp add: st2_def)
  have "?b = replicate CHUNK_SIZE (CHR ''b'') @ ''b''" by (simp add: replicate_append_same)
  moreover have "dest st3 = ?b @ drop (CHUNK_SIZE + 1) (replicate CHUNK_SIZE (CHR ''5'') @ ?a)"
    by (simp add: st3_def st2_def second_done_def write_at_def)
  ultimately have "dest st3 = replicate CHUNK_SIZE (CHR ''b'') @ ''b'' @ replicate (CHUNK_SIZE - 1) (CHR ''a'')" by simp
  then have "length (dest st3) = 2 * CHUNK_SIZE" "chunk_at (dest st3) 1 = CHR ''b'' # replicate (CHUNK_SIZE - 1) (CHR ''a'')"
    by (simp_all add: chunk_at_def)
  moreover have "?a = CHR ''a'' # replicate (CHUNK_SIZE - 1) (CHR ''a'')" by (metis CHUNK_SIZE_pos(1) Suc_diff_1 replicate_Suc)
  ultimately have "GetFileHashsmall demo_sha (Some (dest st3)) 1 (hash mixed_file) = Some False"
    using mixed_check [of "dest st3"] chunk_hash_first [of "CHR ''b''" _ "CHR ''a''"] by auto
  moreover have "announced st3 ''f'' = Some [1]" by (simp add: st3_def st2_def second_done_def)
  moreover note rtranclp_trans [OF rtranclp.rtrancl_into_rtrancl [OF second_chunk_first run2] run3]
  ultimately show ?thesis by blast
qed

end
