(* ===== verification/Server_Loop.thy ===== *)
theory Server_Loop
  imports Prelude
begin

text \<open>
  The accept loops: \<open>TrackerServer\<close> of tracker/tracker.cpp and \<open>ClientServer\<close> of peer/peerserver.cpp. Both
  start one thread per connection, keep its \<open>pthread_t\<close> in an array of 1000, and after the 51st join
  all of them before they accept again. The loop and the threads are steps of one relation; what the
  thread of a connection does to the state it shares with the others is a parameter, one step when it
  returns, and \<open>None\<close> as long as it does not.
\<close>


section \<open>Definitions\<close>

text \<open>At \<open>accept\<close>, or at \<open>pthread_join(tid[j])\<close>.\<close>

datatype spot = Accepting | Joining nat

text \<open>
  The array holds the numbers of the threads, in the order of their creation; \<open>live\<close> are those that
  have not returned.
\<close>

record 'w server =
  counter :: nat
  tid :: "nat option list"
  pc :: spot
  created :: nat
  live :: "nat set"
  shared :: 'w

definition server_start :: "'w \<Rightarrow> 'w server" where
  "server_start w = \<lparr>counter = 0, tid = replicate 1000 None, pc = Accepting, created = 0, live = {}, shared = w\<rparr>"

definition accepted :: "'w server \<Rightarrow> 'w server" where
  "accepted st =
     (let c = (counter st + 1) mod 1000 in
      st\<lparr>tid := (tid st)[counter st := Some (created st)], created := Suc (created st),
         live := insert (created st) (live st), counter := c,
         pc := if c > 50 then Joining 0 else Accepting\<rparr>)"

inductive server_step :: "(nat \<Rightarrow> 'w \<Rightarrow> 'w option) \<Rightarrow> 'w server \<Rightarrow> 'w server \<Rightarrow> bool"
  for body :: "nat \<Rightarrow> 'w \<Rightarrow> 'w option" where
  accept: "pc st = Accepting \<Longrightarrow> server_step body st (accepted st)"
| join: "pc st = Joining j \<Longrightarrow> j < counter st \<Longrightarrow> tid st ! j = Some i \<Longrightarrow> i \<notin> live st \<Longrightarrow>
    server_step body st (st\<lparr>pc := Joining (Suc j)\<rparr>)"
| leave: "pc st = Joining j \<Longrightarrow> \<not> j < counter st \<Longrightarrow>
    server_step body st (st\<lparr>pc := Accepting, counter := 0\<rparr>)"
| finish: "i \<in> live st \<Longrightarrow> body i (shared st) = Some w \<Longrightarrow>
    server_step body st (st\<lparr>live := live st - {i}, shared := w\<rparr>)"

text \<open>The threads in the array are the last ones created, and nobody else is running.\<close>

definition loop_inv :: "'w server \<Rightarrow> bool" where
  "loop_inv st \<longleftrightarrow>
     length (tid st) = 1000 \<and> counter st \<le> created st \<and>
     (\<forall>k<counter st. tid st ! k = Some (created st - counter st + k)) \<and>
     live st \<subseteq> {created st - counter st..<created st} \<and>
     (case pc st of
        Accepting \<Rightarrow> counter st \<le> 50
      | Joining j \<Rightarrow> counter st = 51 \<and> j \<le> 51 \<and> (\<forall>k<j. created st - 51 + k \<notin> live st))"

text \<open>The steps in which no connection is accepted, and what is left to do in them.\<close>

definition drain_step :: "(nat \<Rightarrow> 'w \<Rightarrow> 'w option) \<Rightarrow> 'w server \<Rightarrow> 'w server \<Rightarrow> bool" where
  "drain_step body st st' \<longleftrightarrow> server_step body st st' \<and> created st' = created st"

definition load :: "'w server \<Rightarrow> nat" where
  "load st = card (live st) + (case pc st of Accepting \<Rightarrow> 0 | Joining j \<Rightarrow> 52 - j)"

definition idle :: "'w server \<Rightarrow> bool" where
  "idle st \<longleftrightarrow> pc st = Accepting \<and> live st = {}"


section \<open>The array\<close>

inductive_cases server_stepE: "server_step body st st'"

lemma loop_inv_start: "loop_inv (server_start w)"
  by (simp add: loop_inv_def server_start_def)

lemma accepted_simps [simp]:
  "created (accepted st) = Suc (created st)" "live (accepted st) = insert (created st) (live st)"
  "shared (accepted st) = shared st"
  by (simp_all add: accepted_def Let_def)

lemma loop_inv_accepted:
  assumes "loop_inv st" "pc st = Accepting"
  shows "loop_inv (accepted st)"
proof -
  have c: "counter st \<le> 50" "counter st \<le> created st" "length (tid st) = 1000"
    using assms by (simp_all add: loop_inv_def)
  then have m: "(counter st + 1) mod 1000 = counter st + 1" by simp
  have "(tid st)[counter st := Some (created st)] ! k = Some (Suc (created st) - (counter st + 1) + k)"
    if "k < counter st + 1" for k
    using that assms(1) c by (cases "k = counter st") (simp_all add: loop_inv_def)
  moreover have "insert (created st) (live st) \<subseteq> {Suc (created st) - (counter st + 1)..<Suc (created st)}"
    using assms(1) by (auto simp: loop_inv_def)
  ultimately show ?thesis using c m by (auto simp: loop_inv_def accepted_def Let_def)
qed

lemma loop_inv_step:
  assumes "server_step body st st'" "loop_inv st"
  shows "loop_inv st'"
  using assms
proof cases
  case (join j i)
  have old: "counter st = 51" "\<forall>k<j. created st - 51 + k \<notin> live st" "tid st ! j = Some (created st - counter st + j)"
    using join assms(2) by (auto simp: loop_inv_def)
  then have "\<forall>k<Suc j. created st - 51 + k \<notin> live st" using join by (simp only: less_Suc_eq) auto
  then show ?thesis using join assms(2) old(1) by (simp only: loop_inv_def) auto
next
  case (leave j)
  then have all: "counter st = 51" "\<forall>k<51. created st - 51 + k \<notin> live st" "51 \<le> created st"
      "live st \<subseteq> {created st - 51..<created st}"
    using assms(2) by (auto simp: loop_inv_def)
  have "live st = {}"
  proof (rule equals0I)
    fix i assume i: "i \<in> live st"
    have "i \<in> {created st - 51..<created st}" using all(4) i by (rule subsetD)
    then have "i - (created st - 51) < 51" "i = created st - 51 + (i - (created st - 51))" using all(3) by auto
    then show False using all(2) i by metis
  qed
  then show ?thesis using leave assms(2) by (simp add: loop_inv_def)
next
  case (finish i w)
  then show ?thesis using assms(2) by (auto simp: loop_inv_def split: spot.splits)
qed (simp add: loop_inv_accepted)

lemma loop_inv_reachable: "(server_step body)\<^sup>*\<^sup>* st st' \<Longrightarrow> loop_inv st \<Longrightarrow> loop_inv st'"
  by (induction rule: rtranclp_induct) (auto intro: loop_inv_step)

lemma loop_invD:
  assumes "loop_inv st"
  shows "finite (live st)" "card (live st) \<le> 51" "counter st \<le> 51" "counter st < length (tid st)"
    "i \<in> live st \<Longrightarrow> created st \<le> i + 51 \<and> i < created st"
proof -
  have c: "counter st \<le> 51" "live st \<subseteq> {created st - counter st..<created st}" "length (tid st) = 1000"
    using assms by (auto simp: loop_inv_def split: spot.splits)
  show "finite (live st)" using c(2) finite_subset by blast
  have "card (live st) \<le> card {created st - counter st..<created st}" by (rule card_mono [OF _ c(2)]) simp
  then show "card (live st) \<le> 51" using c(1) by simp
  show "counter st \<le> 51" "counter st < length (tid st)" using c by simp_all
  show "i \<in> live st \<Longrightarrow> created st \<le> i + 51 \<and> i < created st"
    using c(1) subsetD [OF c(2), of i] by auto
qed


section \<open>Threads that do not return\<close>

lemma stuck_stays:
  assumes "(server_step body)\<^sup>*\<^sup>* st st'" "i \<in> live st" "\<And>w. body i w = None"
  shows "i \<in> live st'"
  using assms(1,2)
proof (induction rule: rtranclp_induct)
  case (step u v)
  from step.hyps(2) step.IH [OF step.prems] show ?case by cases (use assms(3) in auto)
qed

lemma stuck_stops:
  assumes "(server_step body)\<^sup>*\<^sup>* st st'" "loop_inv st" "i \<in> live st" "\<And>w. body i w = None"
  shows "created st' \<le> i + 51"
  using loop_invD(5) [OF loop_inv_reachable [OF assms(1,2)] stuck_stays [OF assms(1,3,4)]] by simp


section \<open>Threads that return\<close>

locale returning_threads =
  fixes body :: "nat \<Rightarrow> 'w \<Rightarrow> 'w option"
    and good :: "'w \<Rightarrow> bool"
  assumes returns: "good w \<Longrightarrow> \<exists>w'. body i w = Some w' \<and> good w'"
begin

lemma good_step: "server_step body st st' \<Longrightarrow> good (shared st) \<Longrightarrow> good (shared st')"
proof (induction rule: server_step.induct)
  case (finish i st w)
  then show ?case using returns [of "shared st" i] by auto
qed simp_all

lemma good_reachable: "(server_step body)\<^sup>*\<^sup>* st st' \<Longrightarrow> good (shared st) \<Longrightarrow> good (shared st')"
  by (induction rule: rtranclp_induct) (auto intro: good_step)

end

sublocale returning_threads \<subseteq> draining: progress "drain_step body" "\<lambda>st. loop_inv st \<and> good (shared st)" load idle
proof
  fix s s'
  assume inv: "loop_inv s \<and> good (shared s)" and step: "drain_step body s s'"
  then show "loop_inv s' \<and> good (shared s')" by (auto simp: drain_step_def intro: loop_inv_step good_step)
  from step have "server_step body s s'" "created s' = created s" by (simp_all add: drain_step_def)
  then show "load s' < load s"
  proof cases
    case (finish i w)
    then have "card (live s - {i}) < card (live s)" using loop_invD(1) inv by (intro psubset_card_mono) auto
    then show ?thesis using finish by (simp add: load_def)
  qed (use inv in \<open>auto simp: load_def loop_inv_def split: spot.splits\<close>)
next
  fix s
  assume inv: "loop_inv s \<and> good (shared s)" and busy: "\<not> idle s"
  show "\<exists>s'. drain_step body s s'"
  proof (cases "live s = {}")
    case True
    then obtain j where j: "pc s = Joining j" using busy by (cases "pc s") (auto simp: idle_def)
    show ?thesis
    proof (cases "j < counter s")
      case True
      then have "tid s ! j = Some (created s - counter s + j)" using inv by (simp add: loop_inv_def)
      from server_step.join [where body = body, OF j True this] show ?thesis using \<open>live s = {}\<close> by (auto simp: drain_step_def)
    next
      case False
      from server_step.leave [where body = body, OF j False] show ?thesis by (auto simp: drain_step_def)
    qed
  next
    case False
    then obtain i w where "i \<in> live s" "body i (shared s) = Some w" using returns inv by blast
    from server_step.finish [where body = body, OF this] show ?thesis by (auto simp: drain_step_def)
  qed
qed

context returning_threads
begin

text \<open>From every state that can be reached the loop can come back to \<open>accept\<close>, with all threads done.\<close>

lemma comes_back:
  assumes "(server_step body)\<^sup>*\<^sup>* (server_start w) st" "good w"
  shows "\<exists>st'. (drain_step body)\<^sup>*\<^sup>* st st' \<and> idle st' \<and> good (shared st')"
proof -
  have inv: "loop_inv st \<and> good (shared st)"
    using loop_inv_reachable [OF assms(1) loop_inv_start] good_reachable [OF assms(1)] assms(2)
    by (simp add: server_start_def)
  then obtain st' where st': "(drain_step body)\<^sup>*\<^sup>* st st'" "idle st'" using draining.reaches_final by blast
  then show ?thesis using draining.reach_inv [OF st'(1) inv] by blast
qed

end

end
