(* ===== verification/Tracker_Races.thy ===== *)
theory Tracker_Races
  imports Tracker_Spec
begin

text \<open>
  \<open>UserCreate\<close> as the thread it is. The tracker serves each connection in a thread of its own;
  \<open>FetchDetails\<close> empties the global tables before it takes \<open>file_lock\<close>, the name is looked up without
  the lock, and the files are written under it. Here each of these is a step on the shared state, so
  that other threads can run in between; \<open>Tracker_Users.UserCreate\<close> is the run without interruptions.
\<close>


section \<open>Definitions\<close>

text \<open>\<open>FetchDetails\<close>: the five \<open>clear\<close> calls, then \<open>CheckDir\<close> and the part under the lock.\<close>

definition FetchDetails_clear :: "tracker \<Rightarrow> tracker" where
  "FetchDetails_clear t =
     t\<lparr>credentials := Map.empty, online := {}, online_users := Map.empty, groups := Map.empty,
       pending_group_requests := {}\<rparr>"

definition FetchDetails_read :: "tracker \<Rightarrow> tracker option" where
  "FetchDetails_read t =
     (let f0 = CheckDir (disk t);
          (cs, last_values) = read_pairs ([], []) (file_lines f0 credential_path);
          f1 = open_or_create credential_path f0
      in do {
        os \<leftarrow> map_opt online_entry (file_lines f1 online_path);
        let f2 = open_or_create online_path f1;
        gs \<leftarrow> map_opt group_entry (file_lines f2 groups_path);
        let f3 = open_or_create groups_path f2;
        let ps = fst (read_pairs last_values (file_lines f3 pending_path));
        let f4 = open_or_create pending_path f3;
        Some (t\<lparr>credentials := assign_all cs (credentials t),
                online := online t \<union> set (map fst os),
                online_users := assign_all os (online_users t),
                groups := assign_all gs (groups t),
                pending_group_requests := pending_group_requests t \<union> set ps,
                disk := f4\<rparr>)
      })"

text \<open>\<open>UserCreate\<close>: the part under the lock, and what follows it.\<close>

definition UserCreate_write :: "env \<Rightarrow> string \<Rightarrow> string \<Rightarrow> string \<Rightarrow> string \<Rightarrow> tracker \<Rightarrow> tracker" where
  "UserCreate_write E command1 command2 command3 command4 t =
     (let t = add_online command1 command3 command4 t;
          f = file_append (disk t) credential_path (endl (credential_line E command1 command2));
          f = file_create f (user_path command1);
          f = file_create f (downloading_path command1);
          f = file_create f (downloaded_path command1)
      in t\<lparr>disk := f\<rparr>)"

definition UserCreate_push :: "string \<Rightarrow> tracker \<Rightarrow> tracker option" where
  "UserCreate_push command1 t =
     Option.bind (Syncs [online_path, credential_path, user_path command1,
       downloading_path command1, downloaded_path command1] t) FetchDetails"

record registration =
  reg_env :: env
  reg_user :: string
  reg_password :: string
  reg_port :: string
  reg_ip :: string

datatype reg_phase = Clearing | Reading | Finding | Writing | Pushing | Answered bool

text \<open>One step of the thread of one connection.\<close>

inductive reg_step :: "registration list \<Rightarrow> reg_phase list \<times> tracker \<Rightarrow> reg_phase list \<times> tracker \<Rightarrow> bool"
  for rs :: "registration list" where
  reg_clear: "i < length ps \<Longrightarrow> ps ! i = Clearing \<Longrightarrow> reg_step rs (ps, t) (ps[i := Reading], FetchDetails_clear t)"
| reg_read: "i < length ps \<Longrightarrow> ps ! i = Reading \<Longrightarrow> FetchDetails_read t = Some t' \<Longrightarrow>
    reg_step rs (ps, t) (ps[i := Finding], t')"
| reg_find: "i < length ps \<Longrightarrow> ps ! i = Finding \<Longrightarrow>
    reg_step rs (ps, t) (ps[i := if credentials t (reg_user (rs ! i)) = None then Writing else Answered False], t)"
| reg_write: "i < length ps \<Longrightarrow> ps ! i = Writing \<Longrightarrow>
    reg_step rs (ps, t) (ps[i := Pushing], UserCreate_write (reg_env (rs ! i)) (reg_user (rs ! i))
      (reg_password (rs ! i)) (reg_port (rs ! i)) (reg_ip (rs ! i)) t)"
| reg_push: "i < length ps \<Longrightarrow> ps ! i = Pushing \<Longrightarrow> UserCreate_push (reg_user (rs ! i)) t = Some t' \<Longrightarrow>
    reg_step rs (ps, t) (ps[i := Answered True], t')"


section \<open>The handler without interruptions\<close>

lemma FetchDetails_parts: "FetchDetails t = FetchDetails_read (FetchDetails_clear t)"
  by (simp add: FetchDetails_def FetchDetails_read_def FetchDetails_clear_def Let_def split: prod.splits)

lemma UserCreate_parts:
  "UserCreate E u pw port ip t =
     Option.bind (FetchDetails t) (\<lambda>t. if credentials t u = None
       then map_option (Pair True) (UserCreate_push u (UserCreate_write E u pw port ip t)) else Some (False, t))"
  unfolding UserCreate_def
  by (rule bind_option_cong [OF refl]) (auto simp: UserCreate_push_def UserCreate_write_def Let_def map_conv_bind_option comp_def)

text \<open>A thread that is not interrupted is the handler.\<close>

lemma UserCreate_is_run:
  assumes "UserCreate (reg_env r) (reg_user r) (reg_password r) (reg_port r) (reg_ip r) t = Some (b, t')"
  shows "(reg_step [r])\<^sup>*\<^sup>* ([Clearing], t) ([Answered b], t')"
proof -
  obtain t1 where t1: "FetchDetails_read (FetchDetails_clear t) = Some t1"
    using assms by (auto simp: UserCreate_parts FetchDetails_parts bind_Some_conv)
  have "(reg_step [r])\<^sup>*\<^sup>* ([Clearing], t) ([Clearing], t)" by simp
  also have "reg_step [r] ([Clearing], t) ([Reading], FetchDetails_clear t)" using reg_clear [of 0 "[Clearing]" "[r]" t] by simp
  also have "reg_step [r] ([Reading], FetchDetails_clear t) ([Finding], t1)" using reg_read [of 0 "[Reading]", OF _ _ t1] by simp
  finally have start: "(reg_step [r])\<^sup>*\<^sup>* ([Clearing], t) ([Finding], t1)" .
  note found = reg_find [of 0 "[Finding]" "[r]" t1, simplified]
  show ?thesis
  proof (cases "credentials t1 (reg_user r) = None")
    case True
    let ?w = "UserCreate_write (reg_env r) (reg_user r) (reg_password r) (reg_port r) (reg_ip r) t1"
    have res: "UserCreate_push (reg_user r) ?w = Some t'" "b = True"
      using assms t1 True by (auto simp: UserCreate_parts FetchDetails_parts)
    note start
    also have "reg_step [r] ([Finding], t1) ([Writing], t1)" using found True by simp
    also have "reg_step [r] ([Writing], t1) ([Pushing], ?w)" using reg_write [of 0 "[Writing]" "[r]" t1] by simp
    also have "reg_step [r] ([Pushing], ?w) ([Answered True], t')" using reg_push [of 0 "[Pushing]" "[r]"] res(1) by simp
    finally show ?thesis using res(2) by simp
  next
    case False
    then have "b = False" "t' = t1" using assms t1 by (auto simp: UserCreate_parts FetchDetails_parts)
    then show ?thesis using start found False by simp
  qed
qed


section \<open>A registration that another thread interrupts\<close>

lemma write_then_push:
  assumes inv: "tracker_inv t" and args: "token u" "token port" "token ip" "slash \<notin> set u" "u \<noteq> []"
  shows "\<exists>t'. UserCreate_push u (UserCreate_write E u pw port ip t) = Some t' \<and> tracker_inv t' \<and>
    disk_credentials (disk t') = (disk_credentials (disk t))(u \<mapsto> GenerateSalt E @ '':'' @ HashPassword E (GenerateSalt E) pw)"
proof -
  note wf = tracker_invD [OF inv]
  let ?a = "add_online u port ip t" and ?f = "registered E u pw port ip (disk t)"
  let ?ps = "[online_path, credential_path, user_path u, downloading_path u, downloaded_path u]"
  note reg = registered_props [OF wf(1) args(1-4), where E = E and pw = pw]
  have files: "\<forall>p\<in>base_files \<union> set ?ps. exists_file ?f p" using reg(3,4) wf(6) by auto
  have w: "UserCreate_write E u pw port ip t = ?a\<lparr>disk := ?f\<rparr>"
    by (simp add: UserCreate_write_def registered_def add_online_def Let_def)
  obtain ob where ob: "Syncs ?ps (?a\<lparr>disk := ?f\<rparr>) = Some (?a\<lparr>disk := ?f, outbox := ob\<rparr>)"
    "tracker_inv (?a\<lparr>disk := ?f, outbox := ob\<rparr>)"
    using commit_step [of ?a ?f ?ps] reg(1) wf(3) files by (auto simp: add_online_def)
  have "UserCreate_push u (UserCreate_write E u pw port ip t) = Some (fetched (?a\<lparr>disk := ?f, outbox := ob\<rparr>))"
    using ob tracker_invD(4) [OF ob(2)] by (simp add: UserCreate_push_def w)
  then show ?thesis using ob(2) disk_credentials_registered [OF wf(1) args, of E pw] by simp
qed

text \<open>
  The first thread empties the tables after the second has read them and before it looks its name up: the
  name is then free, whoever has it.
\<close>

lemma interrupted_registration:
  fixes r1 r2
  assumes inv: "tracker_inv t"
    and args: "token (reg_user r2)" "token (reg_port r2)" "token (reg_ip r2)" "slash \<notin> set (reg_user r2)" "reg_user r2 \<noteq> []"
  shows "\<exists>t'. (reg_step [r1, r2])\<^sup>*\<^sup>* ([Clearing, Clearing], t) ([Reading, Answered True], t') \<and> tracker_inv t' \<and>
    disk_credentials (disk t') = (disk_credentials (disk t))(reg_user r2 \<mapsto>
      GenerateSalt (reg_env r2) @ '':'' @ HashPassword (reg_env r2) (GenerateSalt (reg_env r2)) (reg_password r2))"
proof -
  let ?step = "reg_step [r1, r2]" and ?c = "FetchDetails_clear (fetched t)"
  let ?w = "UserCreate_write (reg_env r2) (reg_user r2) (reg_password r2) (reg_port r2) (reg_ip r2) ?c"
  have c: "tracker_inv ?c" "disk ?c = disk t" "credentials ?c = Map.empty"
    using inv tracker_inv_fetched [OF inv] by (simp_all add: FetchDetails_clear_def tracker_inv_def)
  have fetch: "FetchDetails_read (FetchDetails_clear t) = Some (fetched t)"
    using tracker_invD(4) [OF inv] by (simp add: FetchDetails_parts)
  from write_then_push [OF c(1) args, of "reg_env r2" "reg_password r2"] c(2)
  obtain t' where t': "UserCreate_push (reg_user r2) ?w = Some t'" "tracker_inv t'"
    "disk_credentials (disk t') = (disk_credentials (disk t))(reg_user r2 \<mapsto>
      GenerateSalt (reg_env r2) @ '':'' @ HashPassword (reg_env r2) (GenerateSalt (reg_env r2)) (reg_password r2))"
    by auto
  have "?step\<^sup>*\<^sup>* ([Clearing, Clearing], t) ([Clearing, Clearing], t)" by simp
  also have "?step ([Clearing, Clearing], t) ([Clearing, Reading], FetchDetails_clear t)"
    using reg_clear [of 1 "[Clearing, Clearing]" "[r1, r2]" t] by simp
  also have "?step ([Clearing, Reading], FetchDetails_clear t) ([Clearing, Finding], fetched t)"
    using reg_read [of 1 "[Clearing, Reading]", OF _ _ fetch] by simp
  also have "?step ([Clearing, Finding], fetched t) ([Reading, Finding], ?c)"
    using reg_clear [of 0 "[Clearing, Finding]" "[r1, r2]" "fetched t"] by simp
  also have "?step ([Reading, Finding], ?c) ([Reading, Writing], ?c)"
    using reg_find [of 1 "[Reading, Finding]" "[r1, r2]" ?c] c(3) by simp
  also have "?step ([Reading, Writing], ?c) ([Reading, Pushing], ?w)"
    using reg_write [of 1 "[Reading, Writing]" "[r1, r2]" ?c] by simp
  also have "?step ([Reading, Pushing], ?w) ([Reading, Answered True], t')"
    using reg_push [of 1 "[Reading, Pushing]" "[r1, r2]" ?w] t'(1) by simp
  finally show ?thesis using t'(2,3) by blast
qed

end
