(* ===== verification/Server_Properties.thy ===== *)
theory Server_Properties
  imports Server_Loop Tracker_Races Tracker_Console Tracker_Properties
begin

text \<open>
  The accept loops and the threads of the tracker: how many run, what a thread that does not return does
  to the loop, and what two threads can do to one account.
\<close>


section \<open>Definitions\<close>

text \<open>The thread of a connection: \<open>conns i\<close> is what the environment supplies and what arrives on connection \<open>i\<close>.\<close>

definition tracker_thread :: "(nat \<Rightarrow> env \<times> string list) \<Rightarrow> nat \<Rightarrow> tracker \<Rightarrow> tracker option" where
  "tracker_thread conns i t = map_option snd (TrackerKernel True (fst (conns i)) record_read (snd (conns i)) t)"


section \<open>Threads of the tracker\<close>

interpretation tracker_threads: returning_threads "\<lambda>i. serve (es i)" "\<lambda>t. swarm_inv t \<and> (\<forall>i. acceptable (es i))" for es
  by unfold_locales (metis serve_refines)

lemma drained_created: "(drain_step body)\<^sup>*\<^sup>* st st' \<Longrightarrow> created st' = created st"
  by (induction rule: rtranclp_induct) (simp_all add: drain_step_def)

lemma sync_thread_None:
  assumes "snd (conns i) = wire (join sp [''Sync'', p]) @ rs" "token p" "p \<noteq> []" "length p \<le> 4096"
    "\<forall>r\<in>set rs. r \<noteq> sync_over \<and> length r \<le> MAX_SIZE"
  shows "tracker_thread conns i t = None"
proof -
  have "stream_gets 7 (join sp [''Sync'', p]) = [''Sync'', p] @ replicate 5 []"
    using stream_gets_join_more [of "[''Sync'', p]" 5] assms(2,3) by (simp add: token_def is_space_def)
  then have "dispatch E record_read rs (join sp [''Sync'', p]) t = no_reply (SyncRecv record_read rs p t)" for E
    by (simp add: dispatch_def Let_def)
  moreover have "TLSRecvMsg record_read (wire (join sp [''Sync'', p]) @ rs) = (join sp [''Sync'', p], rs)"
    by (rule TLSRecvMsg_wire) (use assms(4) in \<open>simp_all add: MAX_MSG_SIZE_def\<close>)
  moreover have "SyncRecv record_read rs p t = None" using SyncRecv_loop_no_end [OF assms(5)] by (simp add: SyncRecv_def)
  ultimately show ?thesis by (simp add: tracker_thread_def TrackerKernel_def assms(1) no_reply_def)
qed


section \<open>Properties\<close>

text \<open>C25: The accept loops of tracker and peer never leave the array of thread handles: whatever the threads do and in
  whatever order they return, \<open>tid[counter]\<close> is inside the array, every handle that is joined was set by the
  thread in that place of the current batch, and at most 51 threads run at a time.\<close>

theorem server_threads_bounded:
  assumes "(server_step body)\<^sup>*\<^sup>* (server_start w) st"
  shows "counter st < length (tid st) \<and> card (live st) \<le> 51 \<and> live st \<subseteq> {created st - counter st..<created st} \<and>
    (\<forall>k<counter st. tid st ! k = Some (created st - counter st + k))"
  using loop_invD [OF loop_inv_reachable [OF assms loop_inv_start]] loop_inv_reachable [OF assms loop_inv_start]
  by (simp add: loop_inv_def)

theorem server_threads_bounded_witness:
  "(server_step (\<lambda>i w. Some (w + i)))\<^sup>*\<^sup>* (server_start (7::nat)) (accepted (accepted (server_start 7))) \<and>
    tid (accepted (accepted (server_start (7::nat)))) ! 1 = Some 1"
proof -
  let ?st = "accepted (accepted (server_start (7::nat)))"
  have "(server_step (\<lambda>i w. Some (w + i)))\<^sup>*\<^sup>* (server_start (7::nat)) (server_start 7)" by simp
  also have "server_step (\<lambda>i w. Some (w + i)) (server_start (7::nat)) (accepted (server_start 7))"
    by (rule accept) (simp add: server_start_def)
  also have "server_step (\<lambda>i w. Some (w + i)) (accepted (server_start (7::nat))) ?st"
    by (rule accept) (simp add: server_start_def accepted_def)
  finally have run: "(server_step (\<lambda>i w. Some (w + i)))\<^sup>*\<^sup>* (server_start (7::nat)) ?st" .
  have "counter ?st = 2" "created ?st = 2" by (simp_all add: server_start_def accepted_def)
  then show ?thesis using server_threads_bounded [OF run] run by simp
qed

text \<open>C7: As long as the requests are well-formed the tracker comes back to \<open>accept\<close>: from every state of the loop
  its threads can return and be joined until no thread is left, without a new connection, and the
  tracker's state satisfies its invariant.\<close>

theorem server_comes_back:
  assumes "\<forall>i. acceptable (es i)" "swarm_inv t" "(server_step (\<lambda>i. serve (es i)))\<^sup>*\<^sup>* (server_start t) st"
  shows "\<exists>st'. (drain_step (\<lambda>i. serve (es i)))\<^sup>*\<^sup>* st st' \<and> pc st' = Accepting \<and> live st' = {} \<and>
    created st' = created st \<and> swarm_inv (shared st')"
proof -
  obtain st' where "(drain_step (\<lambda>i. serve (es i)))\<^sup>*\<^sup>* st st'" "idle st'" "swarm_inv (shared st')"
    using tracker_threads.comes_back [OF assms(3)] assms(1,2) by blast
  then show ?thesis using drained_created [of "\<lambda>i. serve (es i)" st st'] by (auto simp: idle_def)
qed

theorem server_comes_back_witness:
  "\<exists>st'. (drain_step (\<lambda>_. serve (demo_env, ListGroups)))\<^sup>*\<^sup>* (accepted (server_start (fresh_tracker Online))) st' \<and>
     live st' = {} \<and> swarm_inv (shared st')"
proof -
  have "acceptable (demo_env, ListGroups)"
    by (simp add: acceptable_def benign_def words_ok_def message_def MAX_MSG_SIZE_def token_def is_space_def)
  moreover have "(server_step (\<lambda>_. serve (demo_env, ListGroups)))\<^sup>*\<^sup>* (server_start (fresh_tracker Online))
      (accepted (server_start (fresh_tracker Online)))"
    by (rule r_into_rtranclp, rule accept) (simp add: server_start_def)
  ultimately show ?thesis using server_comes_back [of "\<lambda>_. (demo_env, ListGroups)", OF _ fresh_swarm [of Online]] by fastforce
qed

text \<open>C32: One connection can stop the tracker: after a \<open>Sync\<close> command on connection \<open>i\<close> whose sender goes away before the
  end marker, the accept loop waits for that thread forever and takes at most the connections up to
  number \<open>i + 50\<close>.\<close>

theorem silent_sync_stops_tracker:
  assumes "(server_step (tracker_thread conns))\<^sup>*\<^sup>* (server_start t) st" "i \<in> live st"
    "snd (conns i) = wire (join sp [''Sync'', p]) @ rs" "token p" "p \<noteq> []" "length p \<le> 4096"
    "\<forall>r\<in>set rs. r \<noteq> sync_over \<and> length r \<le> MAX_SIZE"
    "(server_step (tracker_thread conns))\<^sup>*\<^sup>* st st'"
  shows "i \<in> live st' \<and> created st' \<le> i + 51"
proof -
  have none: "tracker_thread conns i w = None" for w by (rule sync_thread_None [of conns i, OF assms(3-7)])
  have "loop_inv st" using loop_inv_reachable [OF assms(1) loop_inv_start] .
  from stuck_stops [OF assms(8) this assms(2) none] stuck_stays [OF assms(8,2) none] show ?thesis by simp
qed

theorem silent_sync_stops_tracker_witness:
  "\<nexists>st'. (server_step (tracker_thread (\<lambda>_. (demo_env, wire (join sp [''Sync'', pending_path])))))\<^sup>*\<^sup>*
      (accepted (server_start (fresh_tracker Online))) st' \<and> 51 < created st'"
proof -
  let ?conns = "\<lambda>_ :: nat. (demo_env, wire (join sp [''Sync'', pending_path]))"
  have "(server_step (tracker_thread ?conns))\<^sup>*\<^sup>* (server_start (fresh_tracker Online)) (accepted (server_start (fresh_tracker Online)))"
    by (rule r_into_rtranclp, rule accept) (simp add: server_start_def)
  note stop = silent_sync_stops_tracker [OF this, of 0 pending_path "[]"]
  have "0 \<in> live (accepted (server_start (fresh_tracker Online)))" "token pending_path" "pending_path \<noteq> []"
    "length pending_path \<le> 4096"
    by (simp_all add: server_start_def pending_path_def token_def is_space_def)
  then show ?thesis using stop by fastforce
qed

text \<open>C34: An account is not safe from other threads: when another request empties the tables between the moment a
  registration has read them and the moment it looks its name up, the registration of a name that
  exists succeeds and its password takes the place of the old one.\<close>

theorem account_taken_over:
  fixes E
  assumes "swarm_inv t" "accounts (view (disk t)) u = Some old" "benign (CreateUser u pw port ip)"
  defines "r2 \<equiv> \<lparr>reg_env = E, reg_user = u, reg_password = pw, reg_port = port, reg_ip = ip\<rparr>"
  shows "\<exists>t'. (reg_step [r1, r2])\<^sup>*\<^sup>* ([Clearing, Clearing], t) ([Reading, Answered True], t') \<and>
    accounts (view (disk t')) u = Some (GenerateSalt E @ '':'' @ HashPassword E (GenerateSalt E) pw)"
proof -
  have args: "token u" "token port" "token ip" "slash \<notin> set u" "u \<noteq> []"
    using benign_token [OF assms(3)] assms(3) by (simp_all add: benign_def good_user_def)
  have "\<exists>t'. (reg_step [r1, r2])\<^sup>*\<^sup>* ([Clearing, Clearing], t) ([Reading, Answered True], t') \<and> tracker_inv t' \<and>
    disk_credentials (disk t') = (disk_credentials (disk t))(u \<mapsto> GenerateSalt E @ '':'' @ HashPassword E (GenerateSalt E) pw)"
    using interrupted_registration [OF swarm_invD(1) [OF assms(1)], of r2 r1] args by (simp add: r2_def)
  then show ?thesis by auto
qed

theorem account_taken_over_witness:
  "\<exists>t t'. run_steps serve demo_run (fresh_tracker Online) = Some t \<and> accounts (view (disk t)) ''bob'' \<noteq> None \<and>
     (reg_step [\<lparr>reg_env = demo_env, reg_user = ''eve'', reg_password = ''e'', reg_port = ''20009'', reg_ip = ''10.0.0.9''\<rparr>,
        \<lparr>reg_env = demo_env, reg_user = ''bob'', reg_password = ''mine'', reg_port = ''20009'', reg_ip = ''10.0.0.9''\<rparr>])\<^sup>*\<^sup>*
       ([Clearing, Clearing], t) ([Reading, Answered True], t') \<and>
     accounts (view (disk t')) ''bob'' = Some (GenerateSalt demo_env @ '':'' @ HashPassword demo_env (GenerateSalt demo_env) ''mine'')"
proof -
  obtain t where t: "run_steps serve demo_run (fresh_tracker Online) = Some t" "swarm_inv t" "accounts (view (disk t)) ''bob'' \<noteq> None"
    by (rule demo_state)
  then obtain old where old: "accounts (view (disk t)) ''bob'' = Some old" by auto
  have "benign (CreateUser ''bob'' ''mine'' ''20009'' ''10.0.0.9'')"
    by (simp add: benign_def words_ok_def token_def is_space_def)
  from account_taken_over [OF t(2) old this, of "\<lparr>reg_env = demo_env, reg_user = ''eve'', reg_password = ''e'',
      reg_port = ''20009'', reg_ip = ''10.0.0.9''\<rparr>" demo_env]
  show ?thesis using t(1,3) by auto
qed

end
