(* ===== verification/Spec2Isabelle.thy ===== *)
theory Spec2Isabelle
  imports Startup_Properties Tracker_Properties Transport_Properties Peer_Properties Thread_Properties Server_Properties
begin

text \<open>
  A tracker-based file sharing system: peers share files in groups, a pair of trackers keeps accounts,
  groups and shares, and files move between peers in chunks of 512 KiB.

  \<^bold>\<open>The program.\<close> A tracker (src/tracker) keeps its state in text files under \<open>.all_files\<close>, with
  copies of four of them in memory. Each connection carries one command; after a change the files
  that changed are pushed to the second tracker, the sibling (trackersync.cpp). A peer (src/peer) has
  a command loop that talks to a tracker (peer.cpp), a downloader (peerdownload.cpp) that asks the
  tracker for the hash, the seeders and their addresses of a file, asks each seeder which chunks it has,
  assigns the chunks and fetches them, and a chunk server (peerserver.cpp) that answers other
  downloaders. Peers and trackers speak length-prefixed messages over TLS (src/common/tls.cpp), peers
  among each other plain TCP.

  \<^bold>\<open>The theories, from the bottom.\<close>

  \<^item> \<open>Prelude\<close>: generic lemmas; \<open>machine\<close>, \<open>safe_machine\<close> and \<open>simulation\<close>, the locales that lift
    preservation and refinement from one step to a run.
  \<^item> \<open>Cpp_Text\<close>: \<open>getline\<close>, \<open>operator>>\<close>, \<open>split\<close>, \<open>atoi\<close>, \<open>to_string\<close>, \<open>"%02x"\<close>; their round trips.
    An access past the end of a vector is \<open>None\<close>.
  \<^item> \<open>Tls\<close>: tls.cpp from \<open>SSLWriteAll\<close> to \<open>TLSRecvRaw\<close>. \<open>SSL_write\<close> and \<open>SSL_read\<close> are parameters; what
    they promise are the locales \<open>ssl_sink\<close> and \<open>ssl_stream\<close>, and a channel of TLS records interprets
    both. The length is a 32-bit word.
  \<^item> \<open>Files\<close>: file streams over a map from paths to contents, with the directories; the locale
    \<open>line_store\<close> is the interface the tracker uses.
  \<^item> \<open>Tracker_State\<close>, \<open>Tracker_Sync\<close>, \<open>Tracker_Store\<close>, \<open>Tracker_Users\<close>, \<open>Tracker_Groups\<close>,
    \<open>Tracker_Shares\<close>, \<open>Tracker_Kernel\<close>: tracker.cpp and trackersync.cpp. The record \<open>tracker\<close> has the
    global tables, the disk, the state of the link to the sibling and the pushes sent. Every handler
    is a function to \<open>(reply \<times> tracker) option\<close>; \<open>None\<close> is undefined behaviour or \<open>exit(-1)\<close>. Each
    handler has a lemma for its result on every branch and for what it keeps of \<open>tracker_inv\<close> (the
    disk is well-formed) and \<open>coherent\<close> (the tables in memory agree with it). \<open>dispatch\<close> is the chain
    of \<open>TrackerKernel\<close>, \<open>tracker_start\<close> what \<open>main\<close> does first.
  \<^item> \<open>Tracker_Spec\<close>: the abstract tracker, a record \<open>swarm\<close> of maps and lists with a step
    (\<open>spec_state\<close>) and an answer (\<open>spec_reply\<close>) per request; \<open>view\<close> reads it off the disk, and every
    handler is proved to refine its request.
  \<^item> \<open>Tracker_Runs\<close>: connections in sequence, the interpretations of the run locales, the pair of
    trackers, start and recovery; \<open>SyncAllHandler_racing\<close> has the order of \<open>main\<close>, which asks the sibling
    for everything before it can be connected to.
  \<^item> \<open>Peer_Chunks\<close>: hashing, checking, sending and receiving chunks. \<open>Peer_Schedule\<close>: from the seeders'
    answers to the assignment of chunks. \<open>my_comp\<close> is not a strict order, so the standard says nothing
    about \<open>std::sort\<close> here; \<open>std_sort\<close> is what the GNU library (the Dockerfile builds with g++) does, an
    insertion sort up to 16 elements, and undefined beyond. The locale \<open>reflexive_comparison\<close> shows that it sorts
    nevertheless, and is interpreted on \<open>my_comp\<close>. \<open>Peer_Server\<close>: a connection of the chunk server.
    \<open>Peer_Download\<close>: \<open>DownloadFile\<close> and what it calls; the locales \<open>honest_seeders\<close> and
    \<open>honest_tracker\<close> say what a download needs of the others. \<open>Peer_Client\<close>: the requests and the
    command loop of peer.cpp.
  \<^item> \<open>Peer_Threads\<close>: the chunk threads of one download as an inductive step relation over the shared file,
    \<open>filechunks_map\<close> and the network, and the lemma that the order of creation is one of its runs. The
    locale \<open>honest_threads\<close> extends \<open>honest_seeders\<close> and is a \<open>progress\<close> system (\<open>Prelude\<close>).
  \<^item> \<open>Server_Loop\<close>: the accept loops \<open>TrackerServer\<close> and \<open>ClientServer\<close>, which are the same loop, as an inductive
    step relation over the array of thread handles and the threads that run; the locale
    \<open>returning_threads\<close> is a \<open>progress\<close> system, interpreted on the connections of the tracker.
  \<^item> \<open>Tracker_Races\<close>: \<open>UserCreate\<close> as a thread, with the unlocked and the locked parts of \<open>FetchDetails\<close> and of
    the handler as separate steps, and the lemma that the handler of \<open>Tracker_Users\<close> is the run without
    interruptions.
  \<^item> \<open>Tracker_Console\<close>: the tracker file, \<open>print_all\<close> and the console of the tracker's \<open>main\<close>.
  \<^item> \<open>Swarm\<close>: tracker, chunk servers and client put together: the network parameter of the downloader
    becomes the tracker and the chunk servers above, and the two locales are interpreted on them.
  \<^item> \<open>Session\<close>: the command loop against the tracker. \<open>prompt\<close> is what can be typed (downloads apart), the
    abstract session (\<open>prompt_state\<close>, \<open>prompt_step\<close>) is who is logged in together with the abstract
    tracker; \<open>safe_machine\<close> and \<open>simulation\<close> are interpreted on the turns of the loop.
  \<^item> \<open>Peers\<close>: several peers at their prompts with one tracker; every order of turns, each with its own salt and
    directory order at the tracker, refines the abstract system of all logins and the abstract tracker.
  \<^item> \<open>Tls_Setup\<close>: the contexts and handshakes of tls.cpp over an abstract OpenSSL. \<open>Startup\<close>: both \<open>main\<close>
    functions from the command line to their loops, every \<open>exit(-1)\<close> a \<open>startup_error\<close>, and the sockets that
    \<open>TrackerServer\<close> and \<open>ClientServer\<close> open.
  \<^item> \<open>Tracker_Properties\<close>, \<open>Transport_Properties\<close>, \<open>Peer_Properties\<close>, \<open>Thread_Properties\<close>,
    \<open>Server_Properties\<close>, \<open>Startup_Properties\<close> and this theory state the properties, each with an instance on concrete data.

  \<^bold>\<open>What is shown.\<close> Of the whole: an upload followed by a download delivers the file byte for byte, a
  download works from up to 16 seeders and in every interleaving of its threads, a session at
  the prompt (downloads apart) refines the abstract session, and who is logged in there is online at the tracker; started from
  its command lines, the system of one tracker and any number of peers refines the abstract system.
  Of the start: the two trackers find each other, clients only talk to servers whose certificate they
  trust, and a peer that has signed on is found at the port it serves. Of the
  tracker: runs of well-formed requests have no undefined behaviour and refine the abstract tracker;
  reachable states satisfy its invariant; membership is by invitation; hashes are for members; a
  restart loses nothing, and a tracker that lost its disk recovers from its sibling what that pushes
  once it listens. Of the accept
  loops: at most 51 threads run, the handles stay in their array, and with well-formed requests the
  loop always comes back to \<open>accept\<close>. Of the
  transport: messages and pushed files arrive whole, bad frames read as empty. Of the peer: the two
  hash loops agree, the chunk checks are together the check of the file, transfers are exact,
  assignments go to the rarest seeder, only verified chunks are added to what a running download has,
  sessions change by answers only. The last group proves what goes wrong: stale tables at the sibling, colliding and unsafe names,
  endless loops of \<open>SyncRecv\<close> and \<open>DownloadKernel\<close>, overflow from 2 GiB on, a protocol that needs
  exactly two trackers, a verified chunk that another thread overwrites, a registration that takes over an
  account because another thread empties the tables, a \<open>Sync\<close> connection that stops the accept loop or, from
  anybody, replaces the accounts, a failed download announced as complete, and silence taken for success.

  \<^bold>\<open>Bounds.\<close> There is no fuel. \<open>SyncRecv_loop\<close> and \<open>DownloadKernel\<close>, whose loops need not end, are partial
  functions into \<open>option\<close>; that they return where they should, and where they do not, is proved, for
  \<open>DownloadKernel\<close> with its passes counted (\<open>kernel_passes\<close>). All
  other loops terminate. Sizes stay below \<open>2 ^ 31\<close> where the code uses \<open>int\<close>; \<open>int_range\<close> is \<open>None\<close>
  beyond. Requests are well-formed (\<open>benign\<close>) when their words are tokens and the names of users and
  groups do not run into the scheme of file names; the properties on errors show what happens
  otherwise.

  \<^bold>\<open>Parameters.\<close> SHA-1, SHA-256 and the random salt (OpenSSL), the iteration order of hash tables, the
  entries of \<open>readdir\<close>, the answers of system calls, which certificates load, and handshakes. Theorems ask of SHA-1 only that digests
  have 20 bytes.

  \<^bold>\<open>Not modelled.\<close> The exits when \<open>accept\<close> or \<open>pthread_create\<close> fails in an accept loop. Except in
  \<open>Tracker_Races\<close> a request is one step on the tracker's state and the mutexes have no counterpart; the
  theorems about runs are about requests whose handlers do not overlap. Of the chunk threads a connection
  with its answer, the check of a chunk and the append to \<open>filechunks_map\<close> (under its mutex) are single
  steps; the composed theorems run them in the order of their creation. \<open>TLSGlobalInit\<close> only
  initialises OpenSSL. \<open>SendMessage\<close> (never called), output on \<open>cerr\<close>, the
  progress lines of \<open>Sync\<close> and of the chunk threads, and the acknowledgement bytes of \<open>Sync\<close>, which
  both sides read and ignore, are left out. Sockets that the code does not close are not counted.
\<close>


section \<open>A swarm to evaluate\<close>

text \<open>
  Alice owns the group and serves \<open>f.txt\<close> from the address she registered with; Bob is a member. The
  state of the tracker is the one the example run of \<open>Tracker_Properties\<close> ends in.
\<close>

definition demo_place :: place where
  "demo_place = \<lparr>env_of = demo_env, up_at = (\<lambda>_. True),
     hosts_of = [(''10.0.0.5'', 20001) \<mapsto> \<lparr>served = [''f.txt'' \<mapsto> ''abc''], progress = Map.empty\<rparr>]\<rparr>"

definition alice_session :: session where
  "alice_session = \<lparr>me = ''alice'', login_flag = True, command_split = [''upload_file'', ''f.txt'', ''demo''],
     si_sp = (''1'', 2), filechunks = Map.empty, local = [''f.txt'' \<mapsto> ''abc'']\<rparr>"

definition bob_session :: session where
  "bob_session = \<lparr>me = ''bob'', login_flag = True, command_split = [''download_file'', ''demo'', ''f.txt'', ''d.txt''],
     si_sp = (''1'', 2), filechunks = Map.empty, local = Map.empty\<rparr>"

definition demo_rows :: "string list" where
  "demo_rows = [join sp [''1'', ''2''], join sp [''3'', ''4'']]"

definition demo_digest :: string where
  "demo_digest = ''61626300000000000000''"

lemma demo_hash: "GetFileHash2 demo_sha (Some ''abc'') = demo_digest"
proof -
  have "pieces CHUNK_SIZE ''abc'' = [''abc'']"
    by (simp add: pieces.simps [of _ "''abc''"] pieces.simps [of _ "[]"] CHUNK_SIZE_def)
  moreover have "chunk_hash demo_sha ''abc'' = demo_digest" by code_simp
  ultimately show ?thesis by (simp add: GetFileHash2_concat)
qed

lemma demo_size: "nat_to_string (length ''abc'') = ''3''"
  by code_simp

lemma demo_port: "atoi ''20001'' = Some 20001"
  by code_simp

lemma demo_words:
  "\<forall>r\<in>set [UploadFile demo_digest ''3'' ''demo'' ''alice'' ''f.txt'' ''f.txt'', GiveSha ''demo'' ''f.txt'' ''bob'',
      GiveSeeders ''demo'' ''f.txt'' ''bob'', AddFile ''demo'' ''f.txt'' ''d.txt'' ''bob'',
      Complete ''demo'' ''f.txt'' ''d.txt'' ''bob'', GiveDetails ''alice'', SendFullPath ''alice'' ''demo'' ''f.txt''].
     benign r \<and> fits (message r)"
  by (simp add: benign_def words_ok_def message_def fits_def MAX_MSG_SIZE_def token_def is_space_def demo_digest_def)

lemma demo_ready:
  assumes "view (disk t) = spec_run demo_run empty_swarm"
  shows "transfer_ready demo_place demo_sha demo_rows alice_session bob_session ''abc'' (view (disk t))"
proof -
  let ?a = "view (disk t)"
  have a: "has_member ?a ''demo'' ''alice''" "has_member ?a ''demo'' ''bob''" "shares ?a ''demo'' = []"
    "library ?a ''alice'' = []" "addresses ?a ''alice'' = Some (''10.0.0.5'', ''20001'')"
    unfolding assms by (simp_all add: demo_run_def empty_swarm_def has_member_def del: view_simps)
  have args: "arg alice_session 1 = ''f.txt''" "arg alice_session 2 = ''demo''" "arg bob_session 1 = ''demo''"
    "arg bob_session 2 = ''f.txt''" "arg bob_session 3 = ''d.txt''"
    by (simp_all add: arg_def alice_session_def bob_session_def)
  have last: "last (split_str ''f.txt'' (CHR ''/'')) = ''f.txt''" by code_simp
  have rows: "\<exists>ip1 p1 ip2 p2 port1 port2. demo_rows = [join sp [ip1, p1], join sp [ip2, p2]] \<and>
      (\<forall>x\<in>set [ip1, p1, ip2, p2]. sp \<notin> set x) \<and> atoi p1 = Some port1 \<and> atoi p2 = Some port2 \<and>
      (up_at demo_place (ip1, port1) \<or> up_at demo_place (ip2, port2))"
    by (rule exI [of _ "''1''"], rule exI [of _ "''2''"], rule exI [of _ "''3''"], rule exI [of _ "''4''"],
        rule exI [of _ 2], rule exI [of _ 4]) (simp add: demo_rows_def demo_place_def demo_atoi)
  show ?thesis
    unfolding transfer_ready_def Let_def args demo_hash demo_size
    using a last rows demo_words demo_port
    by (simp add: alice_session_def bob_session_def demo_place_def file_of_def plain_def fits_def MAX_MSG_SIZE_def
        demo_digest_def del: view_simps join.simps)
qed



section \<open>Properties of the whole system\<close>

text \<open>C1: What one member uploads another member downloads: with the tracker, the uploader's chunk server and the
  downloader composed as they are in the code, \<open>upload_file\<close> followed by \<open>download_file\<close> ends with
  \<open>Full file matched\<close> and the destination holds exactly the bytes of the uploaded file, for every
  non-empty file under 2 GiB.\<close>

theorem upload_then_download:
  assumes "swarm_inv t" "transfer_ready P sha1 rows z z' s (view (disk t))" "s \<noteq> []" "length s < 2 ^ 31"
    "\<And>d. length (sha1 d) = 20" "creatable (arg z' 3)"
  shows "\<exists>t1 z2 t2.
    upload_file (swarm_world P sha1 rows creatable ip port) z t = Some ([''Successful'', []], z, t1) \<and>
    download_file (swarm_world P sha1 rows creatable ip' port') z' t1 =
      Some ([''Full file matched'', []], z2, t2) \<and>
    local z2 = (local z')(arg z' 3 \<mapsto> s) \<and> swarm_inv t2"
  by (rule upload_then_download_lemma) (rule assms)+

theorem upload_then_download_witness:
  "\<exists>t t1 z2 t2. run_steps serve demo_run (fresh_tracker Online) = Some t \<and>
    upload_file (swarm_world demo_place demo_sha demo_rows (\<lambda>_. True) ''10.0.0.5'' 20001) alice_session t =
      Some ([''Successful'', []], alice_session, t1) \<and>
    download_file (swarm_world demo_place demo_sha demo_rows (\<lambda>_. True) ''10.0.0.6'' 20002) bob_session t1 =
      Some ([''Full file matched'', []], z2, t2) \<and> local z2 ''d.txt'' = Some ''abc''"
proof -
  obtain t where t: "run_steps serve demo_run (fresh_tracker Online) = Some t" "swarm_inv t"
    "view (disk t) = spec_run demo_run empty_swarm"
    by (rule demo_state)
  have d: "arg bob_session 3 = ''d.txt''" by (simp add: arg_def bob_session_def)
  obtain t1 z2 t2 where
    "upload_file (swarm_world demo_place demo_sha demo_rows (\<lambda>_. True) ''10.0.0.5'' 20001) alice_session t =
      Some ([''Successful'', []], alice_session, t1)"
    "download_file (swarm_world demo_place demo_sha demo_rows (\<lambda>_. True) ''10.0.0.6'' 20002) bob_session t1 =
      Some ([''Full file matched'', []], z2, t2)"
    "local z2 = (local bob_session)(arg bob_session 3 \<mapsto> ''abc'')"
    using upload_then_download [where ?sha1.0 = demo_sha and creatable = "\<lambda>_. True" and ip = "''10.0.0.5''"
        and port = 20001 and ip' = "''10.0.0.6''" and port' = 20002,
        OF t(2) demo_ready [OF t(3)] _ _ length_demo_sha] by auto
  then show ?thesis using t(1) d by (intro exI conjI) auto
qed

text \<open>C5: A download works from many seeders: when every seeder the tracker lists runs a peer that has the file, the
  command fetches it, from one seeder or from up to 16, and the destination holds exactly its bytes.
  Beyond 16 the sort of the seeders is undefined, because \<open>my_comp\<close> is not a strict order.\<close>

theorem download_from_swarm:
  assumes "sharing P (si_sp z) fm s t" "length (seeders fm) \<le> 16" "\<And>d. length (sha1 d) = 20" "s \<noteq> []" "length s < 2 ^ 31"
    "hash fm = GetFileHash2 sha1 (Some s)" "fsize fm = nat_to_string (length s)"
    "ServerPath rows = Some (serverpath fm)" "creatable (path fm)"
    "arg z 1 = groupname fm" "arg z 2 = name fm" "arg z 3 = path fm" "me z = username fm"
  shows "\<exists>t' z'. download_file (swarm_world P sha1 rows creatable ip port) z t =
      Some ([''Full file matched'', []], z', t') \<and>
    local z' = (local z)(path fm \<mapsto> s) \<and> filechunks z' = (filechunks z)(name fm := None) \<and> swarm_inv t'"
proof -
  obtain t' where "download_file (swarm_world P sha1 rows creatable ip port) z t =
    Some ([''Full file matched'', []],
      z\<lparr>filechunks := (filechunks z)(name fm := None), local := (local z)(path fm \<mapsto> s)\<rparr>, t')"
    "serving P (si_sp z) fm s t'"
    using download_file_gets [where ?sha1.0 = sha1 and creatable = creatable and ip = ip and port = port, OF assms] by blast
  then show ?thesis by (simp add: serving_def)
qed

text \<open>The state after Alice's upload, as the download sees it.\<close>

lemma demo_sharing:
  "\<exists>t. sharing demo_place (''1'', 2) \<lparr>name = ''f.txt'', path = ''d.txt'', hash = GetFileHash2 demo_sha (Some ''abc''),
     fsize = nat_to_string (length ''abc''), groupname = ''demo'', serverpath = join sp [''1'', ''2'', ''3'', ''4''],
     username = ''bob'', seeders = [''alice''], details = [''alice'' \<mapsto> (''10.0.0.5'', ''20001'')]\<rparr> ''abc'' t"
proof -
  obtain t where t: "swarm_inv t" "view (disk t) = spec_run demo_run empty_swarm"
    "has_member (view (disk t)) ''demo'' ''alice''" "shares (view (disk t)) ''demo'' = []"
    "addresses (view (disk t)) ''alice'' = Some (''10.0.0.5'', ''20001'')"
    by (rule demo_state)
  have args: "arg alice_session 1 = ''f.txt''" "arg alice_session 2 = ''demo''" "me alice_session = ''alice''"
    "arg bob_session 2 = ''f.txt''" "arg bob_session 3 = ''d.txt''" "me bob_session = ''bob''" "si_sp bob_session = (''1'', 2)"
    "local alice_session ''f.txt'' = Some ''abc''" "si_sp alice_session = (''1'', 2)"
    by (simp_all add: arg_def alice_session_def bob_session_def)
  have last: "last (split_str ''f.txt'' (CHR ''/'')) = ''f.txt''" by code_simp
  have req: "benign (UploadFile demo_digest ''3'' ''demo'' ''alice'' ''f.txt'' ''f.txt'')"
    "fits (message (UploadFile demo_digest ''3'' ''demo'' ''alice'' ''f.txt'' ''f.txt''))" using demo_words by simp_all
  have ne: "demo_digest \<noteq> []" by (simp add: demo_digest_def)
  note up = upload_file_lists [where P = demo_place and ?sha1.0 = demo_sha and s = "''abc''" and z = alice_session
      and p = "''f.txt''" and g = "''demo''" and u = "''alice''" and rows = demo_rows
      and cr = "\<lambda>_. True" and ip = "[]" and port = 0, OF t(1), unfolded last demo_hash demo_size]
  obtain t1 where t1: "swarm_inv t1" "view (disk t1) = (view (disk t))\<lparr>
      shares := (shares (view (disk t)))(''demo'' := shares (view (disk t)) ''demo'' @ [Share demo_digest ''3'' ''alice'' ''f.txt'']),
      library := (library (view (disk t)))(''alice'' := library (view (disk t)) ''alice'' @ [Entry ''demo'' ''f.txt'' ''f.txt''])\<rparr>"
    using up [OF _ args(1-3,8) ne req t(3)] t(4) by (auto simp: demo_place_def simp del: view_simps)
  have server: "ServerPath demo_rows = Some (join sp [''1'', ''2'', ''3'', ''4''])"
    unfolding demo_rows_def by (rule ServerPath_two) simp_all
  show ?thesis
    using upload_sharing [OF demo_ready [OF t(2)] t1(1) _ server, unfolded args demo_hash demo_size, OF t1(2) t(5)]
    unfolding demo_hash demo_size by blast
qed

theorem download_from_swarm_witness:
  "\<exists>t t' z'. download_file (swarm_world demo_place demo_sha demo_rows (\<lambda>_. True) ''10.0.0.6'' 20002) bob_session t =
     Some ([''Full file matched'', []], z', t') \<and> local z' ''d.txt'' = Some ''abc''"
proof -
  let ?fm = "\<lparr>name = ''f.txt'', path = ''d.txt'', hash = GetFileHash2 demo_sha (Some ''abc''),
     fsize = nat_to_string (length ''abc''), groupname = ''demo'', serverpath = join sp [''1'', ''2'', ''3'', ''4''],
     username = ''bob'', seeders = [''alice''], details = [''alice'' \<mapsto> (''10.0.0.5'', ''20001'')]\<rparr>"
  obtain t where t: "sharing demo_place (si_sp bob_session) ?fm ''abc'' t"
    using demo_sharing by (auto simp: bob_session_def)
  have server: "ServerPath demo_rows = Some (serverpath ?fm)"
    unfolding demo_rows_def filedata.simps by (rule ServerPath_two) simp_all
  have args: "arg bob_session 1 = groupname ?fm" "arg bob_session 2 = name ?fm" "arg bob_session 3 = path ?fm"
    "me bob_session = username ?fm" by (simp_all add: arg_def bob_session_def)
  from download_from_swarm [where ?sha1.0 = demo_sha and creatable = "\<lambda>_. True",
      OF t _ length_demo_sha _ _ _ _ server _ args, of "''10.0.0.6''" 20002]
  obtain t' z' where d: "download_file (swarm_world demo_place demo_sha demo_rows (\<lambda>_. True) ''10.0.0.6'' 20002)
      bob_session t = Some ([''Full file matched'', []], z', t')" "local z' = (local bob_session)(path ?fm \<mapsto> ''abc'')"
    by auto
  have "local z' ''d.txt'' = Some ''abc''" using d(2) by simp
  then show ?thesis using d(1) by blast
qed

text \<open>C6: The threads of a download may run in any order: whatever the interleaving of their connections, writes and
  checks, the run comes to an end, and where no thread can move any more the destination holds the
  file and every chunk has been announced once.\<close>

theorem every_interleaving_delivers:
  fixes m
  assumes "serving P addr fm s t" "\<And>d. length (sha1 d) = 20" "hash fm = GetFileHash2 sha1 (Some s)"
    "length s < 2 ^ 31" "length f = length s" "fst ` set plan = {..<length (pieces CHUNK_SIZE s)}"
    "\<forall>(k, x)\<in>set plan. 0 \<le> x \<and> x < int (length (seeders fm))"
  defines "st0 \<equiv> start_pool plan f (m(name fm \<mapsto> [])) t"
  shows "(\<forall>g. g 0 = st0 \<longrightarrow> (\<exists>i. \<not> kernel_step (swarm_net P addr) sha1 fm (g i) (g (Suc i)))) \<and>
    (\<forall>st. (kernel_step (swarm_net P addr) sha1 fm)\<^sup>*\<^sup>* st0 st \<and> (\<nexists>st'. kernel_step (swarm_net P addr) sha1 fm st st') \<longrightarrow>
       dest st = s \<and> (\<exists>ks. announced st (name fm) = Some ks \<and> distinct ks \<and> set ks = {..<length (pieces CHUNK_SIZE s)}))"
proof -
  have "serving_hashed P addr fm s sha1 t" using assms(1-3) by (simp add: serving_hashed_def)
  note del = swarm_threads.interleavings_deliver [OF this assms(5,4,6,7), where m = m, folded st0_def]
  show ?thesis using del by blast
qed

theorem every_interleaving_delivers_witness:
  "\<exists>t st. (kernel_step (swarm_net demo_place (''1'', 2)) demo_sha
       \<lparr>name = ''f.txt'', path = ''d.txt'', hash = GetFileHash2 demo_sha (Some ''abc''),
        fsize = nat_to_string (length ''abc''), groupname = ''demo'', serverpath = join sp [''1'', ''2'', ''3'', ''4''],
        username = ''bob'', seeders = [''alice''], details = [''alice'' \<mapsto> (''10.0.0.5'', ''20001'')]\<rparr>)\<^sup>*\<^sup>*
     (start_pool [(0, 0)] ''555'' [''f.txt'' \<mapsto> []] t) st \<and> dest st = ''abc'' \<and> announced st ''f.txt'' \<noteq> None"
proof -
  let ?fm = "\<lparr>name = ''f.txt'', path = ''d.txt'', hash = GetFileHash2 demo_sha (Some ''abc''),
     fsize = nat_to_string (length ''abc''), groupname = ''demo'', serverpath = join sp [''1'', ''2'', ''3'', ''4''],
     username = ''bob'', seeders = [''alice''], details = [''alice'' \<mapsto> (''10.0.0.5'', ''20001'')]\<rparr>"
  let ?step = "kernel_step (swarm_net demo_place (''1'', 2)) demo_sha ?fm"
  obtain t where "sharing demo_place (''1'', 2) ?fm ''abc'' t" using demo_sharing by blast
  then have serv: "serving demo_place (''1'', 2) ?fm ''abc'' t" by (simp add: sharing_def)
  let ?st0 = "start_pool [(0, 0)] ''555'' (Map.empty(name ?fm \<mapsto> [])) t"
  have one: "length (pieces CHUNK_SIZE ''abc'') = 1"
    by (simp add: length_pieces CHUNK_SIZE_def)
  have fin: "(\<forall>g. g 0 = ?st0 \<longrightarrow> (\<exists>i. \<not> ?step (g i) (g (Suc i)))) \<and>
    (\<forall>st. ?step\<^sup>*\<^sup>* ?st0 st \<and> (\<nexists>st'. ?step st st') \<longrightarrow>
       dest st = ''abc'' \<and> (\<exists>ks. announced st (name ?fm) = Some ks \<and> distinct ks \<and> set ks = {..<length (pieces CHUNK_SIZE ''abc'')}))"
    by (rule every_interleaving_delivers [OF serv length_demo_sha]) (simp_all add: one lessThan_Suc)
  obtain st where st: "?step\<^sup>*\<^sup>* ?st0 st" "\<nexists>st'. ?step st st'" using finite_runs_stop [OF conjunct1 [OF fin]] by blast
  then have "dest st = ''abc''" "announced st (name ?fm) \<noteq> None" using fin by blast+
  then show ?thesis using st(1) by (intro exI [of _ t] exI [of _ st]) simp
qed

text \<open>A peer at the prompt, with a file to share, and what is typed there.\<close>

definition demo_prompts :: "prompt list" where
  "demo_prompts = [TypeListGroups, TypeCreateUser ''alice'' ''pw'', TypeCreateGroup ''demo'', TypeUploadFile ''f.txt'' ''demo'']"

lemma demo_port_text: "to_string 20001 = ''20001''"
  by (simp add: to_string_def nat_to_string.simps digit_def) code_simp

lemma demo_prompts_ok: "\<forall>p\<in>set demo_prompts. prompt_ok p"
proof -
  have "file_name ''f.txt'' = ''f.txt''" by code_simp
  then show ?thesis
    by (simp add: demo_prompts_def prompt_ok_def word_ok_def token_def is_space_def)
qed

lemma demo_seat:
  "prompt_inv demo_place demo_rows (seat_of demo_sha [''f.txt'' \<mapsto> ''abc''] 20001 ''10.0.0.5'')
     (fresh_session [''f.txt'' \<mapsto> ''abc''], fresh_tracker Online)"
proof -
  have "map_opt tracker_addr demo_rows = Some [(''1'', 2), (''3'', 4)]"
    by code_simp
  then have "seat_ok demo_place demo_rows (seat_of demo_sha [''f.txt'' \<mapsto> ''abc''] 20001 ''10.0.0.5'')"
    by (simp add: seat_ok_def seat_of_def demo_place_def demo_port_text word_ok_def token_def is_space_def length_demo_sha)
  then show ?thesis by (simp add: prompt_inv_def session_ok_def fresh_session_def seat_of_def fresh_swarm)
qed

text \<open>C4: A session at the prompt refines the abstract session: for every sequence of well-formed commands (downloads
  apart) the command loop returns, the tracker's files stay well-formed, and who is logged in and what
  the tracker knows are what the abstract session computes from the abstract tracker's answers.\<close>

theorem session_refines_spec:
  assumes "\<forall>p\<in>set ps. prompt_ok p" "prompt_inv P rows (seat_of sha1 files port ip) (s, t)"
  shows "\<exists>out s' t'. main_loop (swarm_world P sha1 rows creatable ip port) (map prompt_line ps) s t = Some (out, s', t') \<and>
    swarm_inv t' \<and> prompt_abs (s', t') = fold (prompt_step (env_of P) (seat_of sha1 files port ip)) ps (prompt_abs (s, t))"
  using session_runs [OF assms, of creatable] by (auto simp: prompt_inv_def)

theorem session_refines_spec_witness:
  "\<exists>out s' t'. main_loop (swarm_world demo_place demo_sha demo_rows (\<lambda>_. True) ''10.0.0.5'' 20001)
      (map prompt_line demo_prompts) (fresh_session [''f.txt'' \<mapsto> ''abc'']) (fresh_tracker Online) = Some (out, s', t') \<and>
    login_flag s' \<and> me s' = ''alice'' \<and> owners (view (disk t')) ''demo'' = Some ''alice'' \<and>
    shares (view (disk t')) ''demo'' = [Share demo_digest ''3'' ''alice'' ''f.txt'']"
proof -
  let ?C = "seat_of demo_sha [''f.txt'' \<mapsto> ''abc''] 20001 ''10.0.0.5''" and ?s = "fresh_session [''f.txt'' \<mapsto> ''abc'']"
  obtain out s' t' where run: "main_loop (swarm_world demo_place demo_sha demo_rows (\<lambda>_. True) ''10.0.0.5'' 20001)
      (map prompt_line demo_prompts) ?s (fresh_tracker Online) = Some (out, s', t')"
    "prompt_abs (s', t') = fold (prompt_step demo_env ?C) demo_prompts (prompt_abs (?s, fresh_tracker Online))"
    using session_refines_spec [OF demo_prompts_ok demo_seat, of "\<lambda>_. True"] by (auto simp: demo_place_def)
  have name: "file_name ''f.txt'' = ''f.txt''" by code_simp
  have start: "prompt_abs (?s, fresh_tracker Online) = \<lparr>logged = False, who = [], seen = empty_swarm\<rparr>"
    by (simp add: prompt_abs_def fresh_session_def fresh_view del: view_simps)
  have "logged (prompt_abs (s', t'))" "who (prompt_abs (s', t')) = ''alice''"
    "owners (seen (prompt_abs (s', t'))) ''demo'' = Some ''alice''"
    "shares (seen (prompt_abs (s', t'))) ''demo'' = [Share demo_digest ''3'' ''alice'' ''f.txt'']"
    unfolding run(2) start
    by (simp_all add: demo_prompts_def prompt_step_def seat_of_def empty_swarm_def yes_no_def has_member_def shared_by_def
        taken_def chosen_name_def name demo_hash demo_size [simplified])
  then show ?thesis
    using run(1) by (intro exI [of _ out] exI [of _ s'] exI [of _ t']) (simp add: prompt_abs_def del: view_simps)
qed

text \<open>C12: Who is logged in at the prompt is online at the tracker: after any session that starts logged out, the tracker
  has an address for the user of the prompt, and it is this peer's unless the tracker had one for that
  user before.\<close>

theorem signed_in_is_online:
  assumes "\<forall>p\<in>set ps. prompt_ok p" "prompt_inv P rows (seat_of sha1 files port ip) (s, t)" "\<not> login_flag s"
  shows "\<exists>out s' t'. main_loop (swarm_world P sha1 rows creatable ip port) (map prompt_line ps) s t = Some (out, s', t') \<and>
    (login_flag s' \<longrightarrow> (\<exists>x. addresses (view (disk t')) (me s') = Some x \<and>
       (x = (ip, to_string port) \<or> addresses (view (disk t)) (me s') = Some x)))"
proof -
  let ?C = "seat_of sha1 files port ip"
  obtain out s' t' where run: "main_loop (swarm_world P sha1 rows creatable ip port) (map prompt_line ps) s t = Some (out, s', t')"
    "prompt_abs (s', t') = fold (prompt_step (env_of P) ?C) ps (prompt_abs (s, t))"
    using session_runs [OF assms(1,2), of creatable] by blast
  have "online_from (addresses (view (disk t))) ?C (prompt_abs (s', t'))"
    unfolding run(2) using assms(3) by (intro prompts_online) (simp add: online_from_def prompt_abs_def del: view_simps)
  then show ?thesis using run(1) by (auto simp: online_from_def prompt_abs_def seat_of_def simp del: view_simps)
qed

theorem signed_in_is_online_witness:
  "\<exists>out s' t'. main_loop (swarm_world demo_place demo_sha demo_rows (\<lambda>_. True) ''10.0.0.5'' 20001)
      (map prompt_line demo_prompts) (fresh_session [''f.txt'' \<mapsto> ''abc'']) (fresh_tracker Online) = Some (out, s', t') \<and>
    (login_flag s' \<longrightarrow> addresses (view (disk t')) (me s') = Some (''10.0.0.5'', ''20001''))"
proof -
  have "addresses (view (disk (fresh_tracker Online))) u = None" for u
    by (simp add: fresh_view empty_swarm_def del: view_simps)
  then show ?thesis
    using signed_in_is_online [OF demo_prompts_ok demo_seat, of "\<lambda>_. True"]
    by (auto simp: demo_port_text fresh_session_def simp del: view_simps)
qed

text \<open>C2: The whole system from its command lines: a tracker started in an empty directory, any number of peers started with
  the same tracker file, and commands other than \<open>download_file\<close> typed at them in any order, each turn
  with its own salt and directory order at the tracker. Every command returns, and who is logged in
  where and what the tracker's files say are what the abstract system computes from the empty state.\<close>

theorem system_from_start:
  fixes creatable
  assumes "tracker_main os L empty_disk argv = Some (Inr p, f')" "info_ok (tp_info p)" "only_up P (tp_address p)"
    "\<forall>i. peer_main (oss i) L (files i) (args i) = Some (Inr (q i)) \<and> word_ok (pp_ip (q i)) \<and> pp_rows (q i) = map pair_text (tp_info p)"
    "\<And>d. length (sha1 d) = 20" "\<forall>i n f. files i n = Some f \<longrightarrow> length f < 2 ^ 31" "\<forall>e\<in>set es. turn_typed_ok e"
  defines "D \<equiv> \<lambda>i. desk_of (files i) creatable (q i)"
  shows "\<exists>ss t. run_steps (peers_turn (turn_world P sha1 D)) es (\<lambda>i. pp_session (q i), tp_state p) = Some (ss, t) \<and>
    swarm_inv t \<and> peers_abs (ss, t) = fold (peers_step (\<lambda>i. desk_seat sha1 (D i))) es
      \<lparr>logins = \<lambda>_. False, names = \<lambda>_. [], common = empty_swarm\<rparr>"
proof -
  obtain ip s port where own: "(ip, s) \<in> set (tp_info p)" "atoi s = Some port" "tp_address p = (ip, word_of_int port)"
    and start: "tracker_start (sibling_link os (tp_sibling p)) empty_disk = Some (tp_state p)"
    by (rule started_tracker [OF assms(1)])
  have t: "swarm_inv (tp_state p)" "view (disk (tp_state p)) = empty_swarm"
    using fresh_start [OF start] by simp_all
  have fresh: "pp_session (q i) = fresh_session (files i)" for i
    by (rule peer_mainE [of "oss i" L "files i" "args i" "q i"]) (use assms(4) in auto)
  have "prompt_inv P (desk_rows (D i)) (desk_seat sha1 (D i)) (pp_session (q i), tp_state p)" for i
    unfolding D_def
    by (rule started_peer_ready [of "oss i" L "files i" "args i" "q i" "tp_info p" ip s port])
      (use assms(2-6) own t(1) in \<open>auto\<close>)
  then have "peers_inv P sha1 D (\<lambda>i. pp_session (q i), tp_state p)" by (simp add: peers_inv_def)
  from peers_run [OF assms(7) this] obtain ss t' where run:
    "run_steps (peers_turn (turn_world P sha1 D)) es (\<lambda>i. pp_session (q i), tp_state p) = Some (ss, t')"
    "peers_inv P sha1 D (ss, t')"
    "peers_abs (ss, t') = fold (peers_step (\<lambda>i. desk_seat sha1 (D i))) es (peers_abs (\<lambda>i. pp_session (q i), tp_state p))"
    by force
  moreover have "peers_abs (\<lambda>i. pp_session (q i), tp_state p) = \<lparr>logins = \<lambda>_. False, names = \<lambda>_. [], common = empty_swarm\<rparr>"
    using t(2) by (simp add: peers_abs_def fresh fresh_session_def)
  moreover have "swarm_inv t'" using run(2) by (simp add: peers_inv_def prompt_inv_def)
  ultimately show ?thesis by auto
qed

text \<open>Two peers, and a tracker that is up where it listens.\<close>

definition demo_town :: place where
  "demo_town = demo_place\<lparr>up_at := \<lambda>(ip, port). (ip, word_of_int port :: 16 word) = (''127.0.0.1'', 18002)\<rparr>"

definition demo_port_of :: "nat \<Rightarrow> string \<times> int" where
  "demo_port_of i = (if i = 0 then (''20001'', 20001) else (''20002'', 20002))"

text \<open>Two registrations with different salts.\<close>

definition second_env :: env where
  "second_env = demo_env\<lparr>rand_bytes := replicate 16 (CHR 0x0b)\<rparr>"

definition demo_turns :: "turn list" where
  "demo_turns = [(demo_env, 0, TypeCreateUser ''alice'' ''pw''), (second_env, 1, TypeCreateUser ''bob'' ''secret''),
     (demo_env, 0, TypeCreateGroup ''demo''), (demo_env, 1, TypeJoinGroup ''demo''),
     (second_env, 0, TypeAcceptRequest ''demo'' ''bob'')]"

theorem system_from_start_witness:
  "\<exists>p f' ss t. tracker_main demo_os demo_openssl empty_disk demo_argv = Some (Inr p, f') \<and>
     run_steps (peers_turn (turn_world demo_town demo_sha
       (\<lambda>i. desk_of Map.empty (\<lambda>_. True) (demo_process (snd (demo_port_of i)) Map.empty)))) demo_turns
       (\<lambda>i. fresh_session Map.empty, tp_state p) = Some (ss, t) \<and>
     login_flag (ss 1) \<and> me (ss 1) = ''bob'' \<and> roster (view (disk t)) ''demo'' = {''alice'', ''bob''}"
proof -
  let ?q = "\<lambda>i. demo_process (snd (demo_port_of i)) Map.empty"
  obtain p f' where p: "tracker_main demo_os demo_openssl empty_disk demo_argv = Some (Inr p, f')"
    "tp_info p = [(''127.0.0.1'', ''18001''), (''127.0.0.1'', ''18002'')]" "tp_address p = (''127.0.0.1'', 18002)"
    using demo_first_start by blast
  have peers: "\<forall>i. peer_main demo_os demo_openssl Map.empty (demo_peer_argv (fst (demo_port_of i))) = Some (Inr (?q i)) \<and>
      word_ok (pp_ip (?q i)) \<and> pp_rows (?q i) = map pair_text (tp_info p)"
    using demo_peer [OF demo_numbers(4)] demo_peer [OF demo_numbers(5)]
    by (simp add: demo_port_of_def p(2) demo_process_def word_ok_def token_def is_space_def)
  have ok: "\<forall>e\<in>set demo_turns. turn_typed_ok e"
    by (simp add: demo_turns_def turn_typed_ok_def prompt_ok_def word_ok_def token_def is_space_def)
  have up: "only_up demo_town (tp_address p)" by (simp add: only_up_def demo_town_def p(3))
  from system_from_start [where ?sha1.0 = demo_sha and creatable = "\<lambda>_. True",
      OF p(1) _ up peers length_demo_sha _ ok] p(2) demo_info
  obtain ss t where run: "run_steps (peers_turn (turn_world demo_town demo_sha
       (\<lambda>i. desk_of Map.empty (\<lambda>_. True) (?q i)))) demo_turns (\<lambda>i. pp_session (?q i), tp_state p) = Some (ss, t)"
    and abs: "peers_abs (ss, t) = fold (peers_step (\<lambda>i. desk_seat demo_sha (desk_of Map.empty (\<lambda>_. True) (?q i))))
      demo_turns \<lparr>logins = \<lambda>_. False, names = \<lambda>_. [], common = empty_swarm\<rparr>"
    by auto
  have "logins (peers_abs (ss, t)) 1" "names (peers_abs (ss, t)) 1 = ''bob''"
    "roster (common (peers_abs (ss, t))) ''demo'' = {''alice'', ''bob''}"
    unfolding abs
    by (auto simp: demo_turns_def peers_step_def at_prompt_def prompt_step_def empty_swarm_def yes_no_def Let_def)
  then show ?thesis
    using p(1) run by (intro exI conjI) (auto simp: peers_abs_def demo_process_def simp del: view_simps)
qed

end
